(* ===== verification/Prelude.thy ===== *)
theory Prelude
  imports Main "HOL-Library.Word" "HOL-Library.List_Lexorder" "HOL-Library.Product_Lexorder"
begin

text \<open>
  Shared vocabulary of the development: machine integers, the result type of fallible
  code, little-endian byte codecs, UTF-8 validation as \<^verbatim>\<open>std::str::from_utf8\<close> performs it,
  ordered maps as \<^verbatim>\<open>BTreeMap\<close> keeps them, loops over fallible readers, and the locales that
  state what a byte reader and a wire codec promise to their clients.
\<close>

section \<open>Machine integers, bytes and results\<close>

type_synonym u8 = "8 word"
type_synonym u16 = "16 word"
type_synonym u32 = "32 word"
type_synonym u64 = "64 word"
type_synonym u128 = "128 word"
type_synonym bytes = "8 word list"

named_theorems result_simps \<open>evaluation of fallible sequencing\<close>
named_theorems codec_simps \<open>length and read-back facts of the byte encoders\<close>

text \<open>The \<^verbatim>\<open>?\<close> operator: an error ends the computation, a value is passed on.\<close>

fun rbind :: "'e + 'a \<Rightarrow> ('a \<Rightarrow> 'e + 'b) \<Rightarrow> 'e + 'b" where
  "rbind (Inl e) f = Inl e"
| "rbind (Inr x) f = f x"

definition rmap :: "('a \<Rightarrow> 'b) \<Rightarrow> 'e + 'a \<Rightarrow> 'e + 'b" where
  "rmap f m = rbind m (\<lambda>x. Inr (f x))"

definition map_err :: "('e \<Rightarrow> 'f) \<Rightarrow> 'e + 'a \<Rightarrow> 'f + 'a" where
  "map_err f m = (case m of Inl e \<Rightarrow> Inl (f e) | Inr x \<Rightarrow> Inr x)"

definition ok_or :: "'e \<Rightarrow> 'a option \<Rightarrow> 'e + 'a" where
  "ok_or e m = (case m of None \<Rightarrow> Inl e | Some x \<Rightarrow> Inr x)"

definition is_ok :: "'e + 'a \<Rightarrow> bool" where
  "is_ok m = (case m of Inl _ \<Rightarrow> False | Inr _ \<Rightarrow> True)"

text \<open>An early return: \<open>guard e b\<close> is the error \<open>e\<close> unless \<open>b\<close> holds.\<close>

definition require :: "'e \<Rightarrow> bool \<Rightarrow> 'e + unit" where
  "require e b = (if b then Inr () else Inl e)"

lemma rbind_eq_Inr [result_simps]:
  "rbind m f = Inr y \<longleftrightarrow> (\<exists>x. m = Inr x \<and> f x = Inr y)"
  by (cases m) auto

lemma rbind_eq_Inl [result_simps]:
  "rbind m f = Inl e \<longleftrightarrow> m = Inl e \<or> (\<exists>x. m = Inr x \<and> f x = Inl e)"
  by (cases m) auto

lemma rmap_simps [simp]:
  "rmap f (Inl e) = Inl e" "rmap f (Inr x) = Inr (f x)"
  by (simp_all add: rmap_def)

lemma map_err_simps [simp]:
  "map_err f (Inl e) = Inl (f e)" "map_err f (Inr x) = Inr x"
  by (simp_all add: map_err_def)

lemma map_err_eq_Inr [result_simps]: "map_err f m = Inr x \<longleftrightarrow> m = Inr x"
  by (cases m) auto

lemma ok_or_simps [simp]:
  "ok_or e None = Inl e" "ok_or e (Some x) = Inr x"
  by (simp_all add: ok_or_def)

lemma ok_or_eq_Inr [result_simps]: "ok_or e m = Inr x \<longleftrightarrow> m = Some x"
  by (cases m) auto

lemma require_eq_Inr [result_simps]: "require e b = Inr u \<longleftrightarrow> b"
  by (simp add: require_def)

lemma require_eq_Inl [result_simps]: "require e b = Inl e' \<longleftrightarrow> \<not> b \<and> e' = e"
  by (auto simp: require_def)

lemma require_True [simp]: "require e True = Inr ()" and require_False [simp]: "require e False = Inl e"
  by (simp_all add: require_def)

lemma is_ok_simps [simp]: "is_ok (Inl e) = False" "is_ok (Inr x) = True"
  by (simp_all add: is_ok_def)

lemma is_ok_iff: "is_ok m \<longleftrightarrow> (\<exists>x. m = Inr x)"
  by (cases m) auto

lemma rbind_cong [fundef_cong]:
  "m = m' \<Longrightarrow> (\<And>x. m' = Inr x \<Longrightarrow> f x = f' x) \<Longrightarrow> rbind m f = rbind m' f'"
  by (cases m') auto

lemma if_Inr: "(if c then Inl e else x) = Inr y \<longleftrightarrow> \<not> c \<and> x = Inr y"
  by simp

lemma rmap_rbind: "rmap f (rbind x g) = rbind x (\<lambda>y. rmap f (g y))"
  by (cases x) simp_all

lemma rmap_eq_Inr [result_simps]: "rmap f x = Inr y \<longleftrightarrow> (\<exists>z. x = Inr z \<and> y = f z)"
  by (cases x) auto

lemma rbind_map_err_rmap: "rbind (map_err e (rmap g x)) k = rbind (map_err e x) (\<lambda>y. k (g y))"
  by (cases x) simp_all

lemma rbind_assoc: "rbind (rbind m f) g = rbind m (\<lambda>x. rbind (f x) g)"
  by (cases m) simp_all

lemma rbind_rmap: "rbind (rmap g x) k = rbind x (\<lambda>y. k (g y))"
  by (cases x) simp_all

text \<open>
  \<^verbatim>\<open>usize\<close> is 64 bits wide on the supported targets. Lengths and offsets are natural numbers;
  where the source uses \<^verbatim>\<open>checked_add\<close> the overflow branch is written out, and
  \<^verbatim>\<open>saturating_add\<close> stops at the largest value.
\<close>

definition usize_checked_add :: "nat \<Rightarrow> nat \<Rightarrow> nat option" where
  "usize_checked_add a b = (if a + b < 2 ^ 64 then Some (a + b) else None)"

definition u64_checked_add :: "u64 \<Rightarrow> u64 \<Rightarrow> u64 option" where
  "u64_checked_add a b = (if unat a + unat b < 2 ^ 64 then Some (a + b) else None)"

definition u64_checked_sub :: "u64 \<Rightarrow> u64 \<Rightarrow> u64 option" where
  "u64_checked_sub a b = (if b \<le> a then Some (a - b) else None)"

abbreviation u64_max :: u64 where "u64_max \<equiv> 0xFFFFFFFFFFFFFFFF"

definition u64_saturating_add :: "u64 \<Rightarrow> u64 \<Rightarrow> u64" where
  "u64_saturating_add a b = (if unat a + unat b < 2 ^ 64 then a + b else u64_max)"

lemma u64_checked_add_Some:
  "u64_checked_add a b = Some c \<Longrightarrow> unat c = unat a + unat b"
  by (auto simp: u64_checked_add_def unat_word_ariths split: if_splits)

lemma u64_checked_add_eq_Some:
  "u64_checked_add a b = Some c \<longleftrightarrow> unat a + unat b < 2 ^ 64 \<and> c = a + b"
  by (auto simp: u64_checked_add_def)

lemma u64_checked_add_zero [simp]: "u64_checked_add a 0 = Some a"
  using unsigned_less [of a] by (simp add: u64_checked_add_def)

lemma unat_u64_saturating_add:
  "unat (u64_saturating_add a b) = min (unat a + unat b) (2 ^ 64 - 1)"
  by (auto simp: u64_saturating_add_def unat_word_ariths)

text \<open>Widening casts keep the value; narrowing casts never enlarge it.\<close>

lemma unat_ucast_up:
  assumes "LENGTH('a::len) \<le> LENGTH('b::len)"
  shows "unat (ucast (w :: 'a word) :: 'b word) = unat w"
proof -
  have "unat w < 2 ^ LENGTH('a)" by (rule unsigned_less)
  also have "\<dots> \<le> 2 ^ LENGTH('b)" using assms by (simp add: power_increasing)
  finally show ?thesis by (simp add: unsigned_ucast_eq take_bit_nat_eq_self)
qed

lemma unat_ucast_le: "unat (ucast (w :: 'a::len word) :: 'b::len word) \<le> unat w"
  by (simp add: unsigned_ucast_eq)

section \<open>Little-endian integers\<close>

text \<open>\<^verbatim>\<open>to_le_bytes\<close> of an \<open>n\<close>-byte integer and \<^verbatim>\<open>from_le_bytes\<close> of a byte array.\<close>

fun nat_le :: "nat \<Rightarrow> nat \<Rightarrow> bytes" where
  "nat_le 0 x = []"
| "nat_le (Suc n) x = of_nat x # nat_le n (x div 256)"

fun le_nat :: "bytes \<Rightarrow> nat" where
  "le_nat [] = 0"
| "le_nat (b # bs) = unat b + 256 * le_nat bs"

lemma length_nat_le [simp, codec_simps]: "length (nat_le n x) = n"
  by (induction n arbitrary: x) auto

lemma le_nat_bound: "le_nat bs < 256 ^ length bs"
proof (induction bs)
  case (Cons b bs)
  have "unat b < 256" using unsigned_less [of b] by simp
  with Cons show ?case by simp
qed simp

lemma le_nat_nat_le: "le_nat (nat_le n x) = x mod 256 ^ n"
proof (induction n arbitrary: x)
  case (Suc n)
  have "x mod 256 ^ Suc n = x mod 256 + 256 * (x div 256 mod 256 ^ n)"
    by (simp add: mod_mult2_eq add.commute)
  with Suc show ?case by (simp add: unat_of_nat)
qed simp

lemma nat_le_le_nat [simp]: "nat_le (length bs) (le_nat bs) = bs"
proof (induction bs)
  case (Cons b bs)
  have "unat b < 256" using unsigned_less [of b] by simp
  moreover have z: "(256 :: u8) = 0" by simp
  have "of_nat (unat b + 256 * le_nat bs) = (of_nat (unat b) :: u8)"
    by (simp only: of_nat_add of_nat_mult of_nat_numeral z mult_zero_left add_0_right)
  then have "of_nat (unat b + 256 * le_nat bs) = b" by (simp del: of_nat_add of_nat_mult)
  ultimately show ?case using Cons by simp
qed simp

definition u16_le :: "u16 \<Rightarrow> bytes" where "u16_le w = nat_le 2 (unat w)"
definition u32_le :: "u32 \<Rightarrow> bytes" where "u32_le w = nat_le 4 (unat w)"
definition u64_le :: "u64 \<Rightarrow> bytes" where "u64_le w = nat_le 8 (unat w)"
definition u128_le :: "u128 \<Rightarrow> bytes" where "u128_le w = nat_le 16 (unat w)"

definition from_le :: "bytes \<Rightarrow> 'a::len word" where "from_le bs = of_nat (le_nat bs)"

lemma length_le_bytes [simp, codec_simps]:
  "length (u16_le a) = 2" "length (u32_le b) = 4" "length (u64_le c) = 8" "length (u128_le d) = 16"
  by (simp_all add: u16_le_def u32_le_def u64_le_def u128_le_def)

lemma from_le_nat_le:
  assumes "LENGTH('a::len) = 8 * n"
  shows "from_le (nat_le n (unat (w :: 'a word))) = w"
proof -
  have "(256::nat) ^ n = 2 ^ LENGTH('a)"
    by (simp add: assms power_mult)
  moreover have "unat w < 2 ^ LENGTH('a)" by (rule unsigned_less)
  ultimately show ?thesis by (simp add: from_le_def le_nat_nat_le)
qed

lemma nat_le_from_le:
  assumes "LENGTH('a::len) = 8 * length bs"
  shows "nat_le (length bs) (unat (from_le bs :: 'a word)) = bs"
proof -
  have "(256::nat) ^ length bs = 2 ^ LENGTH('a)"
    by (simp add: assms power_mult)
  with le_nat_bound [of bs] have "unat (of_nat (le_nat bs) :: 'a word) = le_nat bs"
    by (simp add: unat_of_nat)
  then show ?thesis by (simp add: from_le_def)
qed

lemma from_le_bytes [simp, codec_simps]:
  "from_le (u16_le a) = a" "from_le (u32_le b) = b" "from_le (u64_le c) = c" "from_le (u128_le d) = d"
  by (simp_all add: u16_le_def u32_le_def u64_le_def u128_le_def from_le_nat_le)

lemma le_bytes_from_le:
  "length bs = 2 \<Longrightarrow> u16_le (from_le bs) = bs"
  "length bs = 4 \<Longrightarrow> u32_le (from_le bs) = bs"
  "length bs = 8 \<Longrightarrow> u64_le (from_le bs) = bs"
  "length bs = 16 \<Longrightarrow> u128_le (from_le bs) = bs"
  using nat_le_from_le [of bs, where 'a = 16] nat_le_from_le [of bs, where 'a = 32]
    nat_le_from_le [of bs, where 'a = 64] nat_le_from_le [of bs, where 'a = 128]
  by (simp_all add: u16_le_def u32_le_def u64_le_def u128_le_def)

section \<open>Slices\<close>

text \<open>\<^verbatim>\<open>&xs[a..b]\<close> for a range known to be in bounds.\<close>

definition slice :: "nat \<Rightarrow> nat \<Rightarrow> 'a list \<Rightarrow> 'a list" where
  "slice a b xs = take (b - a) (drop a xs)"

lemma length_slice [simp]: "length (slice a b xs) = min (b - a) (length xs - a)"
  by (simp add: slice_def)

lemma slice_join: "a \<le> b \<Longrightarrow> b \<le> c \<Longrightarrow> slice a b xs @ slice b c xs = slice a c xs"
proof -
  assume "a \<le> b" "b \<le> c"
  then have "c - a = (b - a) + (c - b)" and "b = (b - a) + a" by auto
  then show ?thesis
    by (metis add.commute drop_drop slice_def take_add)
qed

lemma slice_zero: "slice 0 b xs = take b xs"
  by (simp add: slice_def)

lemma slice_drop: "slice a b xs @ drop b xs = drop a xs" if "a \<le> b"
  using that by (metis add.commute append_take_drop_id drop_drop le_add_diff_inverse2 slice_def)

lemma slice_nth: "a < length xs \<Longrightarrow> slice a (Suc a) xs = [xs ! a]"
  by (simp add: slice_def take_Suc hd_drop_conv_nth)

text \<open>Checked conversions of a length to a narrower integer.\<close>

definition usize_to_u16 :: "nat \<Rightarrow> u16 option" where
  "usize_to_u16 n = (if n < 2 ^ 16 then Some (of_nat n) else None)"

definition usize_to_u32 :: "nat \<Rightarrow> u32 option" where
  "usize_to_u32 n = (if n < 2 ^ 32 then Some (of_nat n) else None)"

lemma usize_to_u16_Some: "usize_to_u16 n = Some w \<longleftrightarrow> n = unat w"
  using unsigned_less [of w] by (auto simp: usize_to_u16_def unat_of_nat)

lemma usize_to_u32_Some: "usize_to_u32 n = Some w \<longleftrightarrow> n = unat w"
  using unsigned_less [of w] by (auto simp: usize_to_u32_def unat_of_nat)

lemma unat_of_nat_u32: "n < 2 ^ 32 \<Longrightarrow> unat (of_nat n :: u32) = n"
  by (simp add: unat_of_nat)

lemma unat_of_nat_u64: "n < 2 ^ 64 \<Longrightarrow> unat (of_nat n :: u64) = n"
  by (simp add: unat_of_nat)

lemma of_nat_u32_eq_0: "n < 2 ^ 32 \<Longrightarrow> of_nat n = (0 :: u32) \<longleftrightarrow> n = 0"
proof
  assume "n < 2 ^ 32" "of_nat n = (0 :: u32)"
  with unat_of_nat_u32 [OF this(1)] show "n = 0" by simp
qed simp

section \<open>UTF-8 text\<close>

text \<open>
  A Rust \<^verbatim>\<open>str\<close> is a byte sequence that satisfies \<open>utf8_valid\<close>, the check of
  \<^verbatim>\<open>std::str::from_utf8\<close>: shortest-form sequences of one to four bytes, no surrogates, nothing
  above U+10FFFF.
\<close>

definition cont_byte :: "u8 \<Rightarrow> bool" where
  "cont_byte b \<longleftrightarrow> 0x80 \<le> b \<and> b \<le> 0xBF"

fun utf8_valid :: "bytes \<Rightarrow> bool" where
  "utf8_valid [] = True"
| "utf8_valid (b # bs) =
     (if b < 0x80 then utf8_valid bs
      else if 0xC2 \<le> b \<and> b \<le> 0xDF then
        (case bs of c # cs \<Rightarrow> cont_byte c \<and> utf8_valid cs | _ \<Rightarrow> False)
      else if 0xE0 \<le> b \<and> b \<le> 0xEF then
        (case bs of c # d # ds \<Rightarrow>
             (if b = 0xE0 then 0xA0 \<le> c \<and> c \<le> 0xBF
              else if b = 0xED then 0x80 \<le> c \<and> c \<le> 0x9F
              else cont_byte c) \<and> cont_byte d \<and> utf8_valid ds
         | _ \<Rightarrow> False)
      else if 0xF0 \<le> b \<and> b \<le> 0xF4 then
        (case bs of c # d # e # es \<Rightarrow>
             (if b = 0xF0 then 0x90 \<le> c \<and> c \<le> 0xBF
              else if b = 0xF4 then 0x80 \<le> c \<and> c \<le> 0x8F
              else cont_byte c) \<and> cont_byte d \<and> cont_byte e \<and> utf8_valid es
         | _ \<Rightarrow> False)
      else False)"

text \<open>Literal ASCII text as the bytes the source writes as \<^verbatim>\<open>b"..."\<close>.\<close>

definition ascii :: "string \<Rightarrow> bytes" where
  "ascii s = map (\<lambda>c. of_nat (of_char c)) s"

lemma length_ascii [simp]: "length (ascii s) = length s"
  by (simp add: ascii_def)

text \<open>Decimal digits, as \<^verbatim>\<open>format!\<close> prints an unsigned integer.\<close>

fun dec_digits :: "nat \<Rightarrow> string" where
  "dec_digits n = (if n < 10 then [char_of (48 + n)]
     else dec_digits (n div 10) @ [char_of (48 + n mod 10)])"

declare dec_digits.simps [simp del]

section \<open>Ordered maps\<close>

text \<open>
  A \<^verbatim>\<open>BTreeMap\<close> is the list of its entries in strictly increasing key order; \<open>btree_insert\<close> is
  \<^verbatim>\<open>insert\<close> (replacing the value of a present key) and \<open>map_of\<close> is \<^verbatim>\<open>get\<close>.
\<close>

type_synonym ('k, 'v) btree = "('k \<times> 'v) list"

fun btree_insert :: "'k::linorder \<Rightarrow> 'v \<Rightarrow> ('k, 'v) btree \<Rightarrow> ('k, 'v) btree" where
  "btree_insert k v [] = [(k, v)]"
| "btree_insert k v ((k', v') # m) =
     (if k < k' then (k, v) # (k', v') # m
      else if k = k' then (k, v) # m
      else (k', v') # btree_insert k v m)"

definition btree_remove :: "'k \<Rightarrow> ('k, 'v) btree \<Rightarrow> ('k, 'v) btree" where
  "btree_remove k m = filter (\<lambda>e. fst e \<noteq> k) m"

definition btree_ok :: "('k::linorder, 'v) btree \<Rightarrow> bool" where
  "btree_ok m = sorted_wrt (<) (map fst m)"

lemma map_of_btree_insert [simp]: "map_of (btree_insert k v m) = (map_of m)(k \<mapsto> v)"
  by (induction k v m rule: btree_insert.induct) (auto simp: fun_eq_iff)

lemma dom_btree_insert: "fst ` set (btree_insert k v m) = insert k (fst ` set m)"
  by (induction k v m rule: btree_insert.induct) auto

lemma btree_ok_insert [simp]: "btree_ok m \<Longrightarrow> btree_ok (btree_insert k v m)"
proof (induction k v m rule: btree_insert.induct)
  case (2 k v k' v' m)
  have "fst ` set (btree_insert k v m) = insert k (fst ` set m)" by (rule dom_btree_insert)
  with 2 show ?case by (fastforce simp: btree_ok_def)
qed (simp add: btree_ok_def)

lemma btree_insert_last:
  "\<forall>k' \<in> fst ` set m. k' < k \<Longrightarrow> btree_insert k v m = m @ [(k, v)]"
  by (induction m) auto

lemma btree_ok_Nil [simp]: "btree_ok []"
  by (simp add: btree_ok_def)

lemma btree_ok_distinct: "btree_ok m \<Longrightarrow> distinct (map fst m)"
  by (simp add: btree_ok_def strict_sorted_iff)

lemma map_of_btree_remove [simp]: "map_of (btree_remove k m) = (map_of m)(k := None)"
  by (induction m) (auto simp: btree_remove_def fun_eq_iff)

lemma btree_ok_remove [simp]: "btree_ok m \<Longrightarrow> btree_ok (btree_remove k m)"
  by (induction m) (auto simp: btree_ok_def btree_remove_def)

section \<open>Loops over fallible operations\<close>

text \<open>\<^verbatim>\<open>for x in xs { state = f(x, state)?; }\<close>\<close>

fun rfold :: "('x \<Rightarrow> 's \<Rightarrow> 'e + 's) \<Rightarrow> 'x list \<Rightarrow> 's \<Rightarrow> 'e + 's" where
  "rfold f [] s = Inr s"
| "rfold f (x # xs) s = rbind (f x s) (rfold f xs)"

text \<open>\<^verbatim>\<open>for _ in 0..n { out.push(get(&mut s)?); }\<close>\<close>

fun get_many :: "nat \<Rightarrow> ('s \<Rightarrow> 'e + 'a \<times> 's) \<Rightarrow> 's \<Rightarrow> 'e + 'a list \<times> 's" where
  "get_many 0 get s = Inr ([], s)"
| "get_many (Suc n) get s =
     rbind (get s) (\<lambda>(x, s). rbind (get_many n get s) (\<lambda>(xs, s). Inr (x # xs, s)))"

lemma rfold_append [simp]: "rfold f (xs @ ys) s = rbind (rfold f xs s) (rfold f ys)"
proof (induction xs arbitrary: s)
  case (Cons x xs)
  then show ?case by (cases "f x s") auto
qed simp

lemma length_get_many: "get_many n get s = Inr (xs, s') \<Longrightarrow> length xs = n"
  by (induction n arbitrary: s xs) (auto simp: result_simps)

lemma get_many_single: "get_many n get s = Inr ([x], s') \<longleftrightarrow> n = 1 \<and> get s = Inr (x, s')"
  by (cases n; cases "n - 1") (auto simp: result_simps)

lemma get_many_rmap:
  "get_many n (\<lambda>s. rmap (apfst f) (get s)) s = rmap (apfst (map f)) (get_many n get s)"
proof (induction n arbitrary: s)
  case (Suc n)
  show ?case
  proof (cases "get s")
    case (Inr p)
    obtain x s1 where p: "p = (x, s1)" by (cases p)
    show ?thesis by (cases "get_many n get s1") (auto simp: Inr p Suc.IH)
  qed simp
qed simp

section \<open>Readers and codecs as interfaces\<close>

text \<open>
  A reader is a state with the elements (bytes, or bits) it has not consumed yet; advancing it
  drops elements.
  A wire reader pairs an encoder with a decoding step that reads an encoded value back exactly
  and consumes only its bytes; a wire codec is one whose step, whenever it succeeds, consumed
  exactly the encoding of the value it returns. Every wire format of this program is built on
  these two contracts.
\<close>

locale stream_reader =
  fixes rest :: "'s \<Rightarrow> 'b list"
    and adv :: "nat \<Rightarrow> 's \<Rightarrow> 's"
  assumes rest_adv: "rest (adv n s) = drop n (rest s)"
    and adv_adv: "adv m (adv n s) = adv (n + m) s"
    and adv_zero: "adv 0 s = s"

locale wire_reader = stream_reader +
  fixes enc :: "'a \<Rightarrow> 'b list"
    and get :: "'s \<Rightarrow> 'e + 'a \<times> 's"
    and valid :: "'a \<Rightarrow> bool"
  assumes get_enc: "valid x \<Longrightarrow> rest s = enc x @ r \<Longrightarrow> get s = Inr (x, adv (length (enc x)) s)"
begin

lemma read_unique:
  assumes "valid x" "valid y" "rest s = enc x @ r" "rest s = enc y @ r'"
  shows "x = y \<and> r = r'"
  using get_enc [OF assms(1,3)] get_enc [OF assms(2,4)] assms(3,4) by auto

lemma get_many_enc:
  "\<forall>x \<in> set xs. valid x \<Longrightarrow> rest s = concat (map enc xs) @ r \<Longrightarrow>
   get_many (length xs) get s = Inr (xs, adv (length (concat (map enc xs))) s)"
proof (induction xs arbitrary: s)
  case Nil
  then show ?case by (simp add: adv_zero)
next
  case (Cons x xs)
  then have x: "get s = Inr (x, adv (length (enc x)) s)"
    by (intro get_enc) auto
  have "get_many (length xs) get (adv (length (enc x)) s)
      = Inr (xs, adv (length (concat (map enc xs))) (adv (length (enc x)) s))"
    using Cons.prems by (intro Cons.IH) (auto simp: rest_adv)
  with x show ?case by (simp add: adv_adv)
qed

end

locale wire_codec = wire_reader +
  assumes get_sound: "get s = Inr (x, s') \<Longrightarrow>
      valid x \<and> s' = adv (length (enc x)) s \<and> (\<exists>r. rest s = enc x @ r)"
begin

lemma get_rest: "get s = Inr (x, s') \<Longrightarrow> rest s = enc x @ rest s'"
proof -
  assume "get s = Inr (x, s')"
  from get_sound [OF this] obtain r where "s' = adv (length (enc x)) s" "rest s = enc x @ r" by blast
  then show ?thesis by (simp add: rest_adv)
qed

lemma get_many_sound:
  "get_many n get s = Inr (xs, s') \<Longrightarrow>
   length xs = n \<and> (\<forall>x \<in> set xs. valid x) \<and> s' = adv (length (concat (map enc xs))) s
   \<and> (\<exists>r. rest s = concat (map enc xs) @ r)"
proof (induction n arbitrary: s xs)
  case 0
  then show ?case by (simp add: adv_zero)
next
  case (Suc n)
  then obtain x s1 ys where x: "get s = Inr (x, s1)"
    and ys: "get_many n get s1 = Inr (ys, s')" and xs: "xs = x # ys"
    by (auto simp: result_simps)
  from get_sound [OF x] obtain r where v: "valid x" and s1: "s1 = adv (length (enc x)) s"
    and r: "rest s = enc x @ r" by auto
  from Suc.IH [OF ys] r v show ?case
    by (auto simp: xs s1 rest_adv adv_adv)
qed

end

text \<open>Two codecs over the same reader, one after the other.\<close>

definition get_pair :: "('s \<Rightarrow> 'e + 'a \<times> 's) \<Rightarrow> ('s \<Rightarrow> 'e + 'b \<times> 's) \<Rightarrow> 's \<Rightarrow> 'e + ('a \<times> 'b) \<times> 's" where
  "get_pair f g s = rbind (f s) (\<lambda>(x, s). rbind (g s) (\<lambda>(y, s). Inr ((x, y), s)))"

definition enc_pair :: "('a \<Rightarrow> 'c list) \<Rightarrow> ('b \<Rightarrow> 'c list) \<Rightarrow> 'a \<times> 'b \<Rightarrow> 'c list" where
  "enc_pair f g p = f (fst p) @ g (snd p)"

locale wire_pair =
  first: wire_codec rest adv enc1 get1 valid1 +
  second: wire_codec rest adv enc2 get2 valid2
  for rest :: "'s \<Rightarrow> 'c list" and adv :: "nat \<Rightarrow> 's \<Rightarrow> 's"
    and enc1 :: "'a \<Rightarrow> 'c list" and get1 :: "'s \<Rightarrow> 'e + 'a \<times> 's" and valid1 :: "'a \<Rightarrow> bool"
    and enc2 :: "'b \<Rightarrow> 'c list" and get2 :: "'s \<Rightarrow> 'e + 'b \<times> 's" and valid2 :: "'b \<Rightarrow> bool"

sublocale wire_pair \<subseteq> pair: wire_codec rest adv "enc_pair enc1 enc2" "get_pair get1 get2"
    "\<lambda>p. valid1 (fst p) \<and> valid2 (snd p)"
proof (unfold_locales, goal_cases)
  case (1 x s r)
  then have x: "get1 s = Inr (fst x, adv (length (enc1 (fst x))) s)"
    by (intro first.get_enc) (auto simp: enc_pair_def)
  have "get2 (adv (length (enc1 (fst x))) s)
      = Inr (snd x, adv (length (enc2 (snd x))) (adv (length (enc1 (fst x))) s))"
    using 1 by (intro second.get_enc) (auto simp: enc_pair_def first.rest_adv)
  with x show ?case by (simp add: get_pair_def enc_pair_def first.adv_adv)
next
  case (2 s x s')
  then obtain s1 where x: "get1 s = Inr (fst x, s1)" and y: "get2 s1 = Inr (snd x, s')"
    by (auto simp: get_pair_def result_simps)
  from first.get_sound [OF x] second.get_sound [OF y] show ?case
    by (auto simp: enc_pair_def first.rest_adv first.adv_adv)
qed

end
