(* ===== verification/Telemetry.thy ===== *)
theory Telemetry
  imports Prelude "HOL-Library.Multiset"
begin

text \<open>
  The telemetry data model (\<^verbatim>\<open>src/src/telemetry/\<close>) and the error type (\<^verbatim>\<open>src/src/error.rs\<close>):
  signals and their topics, typed attribute values with their canonical byte form, resource and
  scope identities, trace and span identifiers, the partition router and its configuration.

  BLAKE3 (crate \<^verbatim>\<open>blake3\<close>) is not part of the repository: every operation that hashes takes the hash
  function as its argument \<open>blake3\<close>, from the hashed bytes to the 32-byte digest.
  Signed integers are words of their width, read with \<open>sint\<close>.
\<close>

section \<open>Errors\<close>

type_synonym dictionary_id = u128
type_synonym shard_id = u32
type_synonym logical_offset = u64

text \<open>
  \<^verbatim>\<open>TopicPartition\<close> comes from the crate \<^verbatim>\<open>shard_stream_core\<close>; the sources build it from a topic
  and a partition number and read those two fields back.
\<close>

datatype topic_partition = TopicPartition (topic_id: u128) (partition_id: u32)

instantiation topic_partition :: linorder
begin

definition less_eq_topic_partition :: "topic_partition \<Rightarrow> topic_partition \<Rightarrow> bool" where
  "less_eq_topic_partition p q \<longleftrightarrow> (topic_id p, partition_id p) \<le> (topic_id q, partition_id q)"

definition less_topic_partition :: "topic_partition \<Rightarrow> topic_partition \<Rightarrow> bool" where
  "less_topic_partition p q \<longleftrightarrow> (topic_id p, partition_id p) < (topic_id q, partition_id q)"

instance
proof
  fix p q r :: topic_partition
  show "p < q \<longleftrightarrow> p \<le> q \<and> \<not> q \<le> p"
    by (auto simp: less_topic_partition_def less_eq_topic_partition_def)
  show "p \<le> p" by (simp add: less_eq_topic_partition_def)
  show "p \<le> q \<Longrightarrow> q \<le> r \<Longrightarrow> p \<le> r" by (auto simp: less_eq_topic_partition_def)
  show "p \<le> q \<Longrightarrow> q \<le> p \<Longrightarrow> p = q"
    by (cases p; cases q) (auto simp: less_eq_topic_partition_def)
  show "p \<le> q \<or> q \<le> p" by (auto simp: less_eq_topic_partition_def)
qed

end

datatype telemetry_error =
    InvalidConfig string
  | InvalidConfiguration string
  | InvalidTelemetryEnvelope string
  | TelemetryEnvelopeTooLarge
  | InvalidTraceId
  | InvalidSpanId
  | InvalidMetricSample string
  | MetricSampleConflict u128 u64
  | DuplicateStripe shard_id
  | UnknownStripe shard_id
  | WrongStripe shard_id shard_id
  | OffsetOutOfOrder topic_partition logical_offset logical_offset
  | OffsetExhausted topic_partition
  | DuplicateRecord topic_partition logical_offset
  | ConflictingRecord topic_partition logical_offset
  | UnknownBlock u64
  | EmptyDictionary
  | DictionaryTooLarge nat nat
  | DictionaryIdConflict dictionary_id
  | DictionaryCatalogUnavailable
  | DictionaryTrainerUnavailable
  | DictionaryTrainingFailed string
  | MissingDictionary dictionary_id
  | RecordTooLarge
  | InvalidBlockEncoding string
  | CompressionFailed string
  | InvalidOtlpPayload string
  | InvalidNativePayload string
  | InvalidQuery string
  | QueryWorkerUnavailable string
  | StorageIo string
  | CorruptSinkJournal string
  | SinkJournalFull u64 u64
  | ObjectStore string
  | CorruptTier string
  | StaleCatalog "string option" "string option"
  | MissingStagedPayload u64

section \<open>Signals and topics\<close>

datatype telemetry_signal = Logs | Traces | Metrics

definition LOGS_TOPIC_ID :: u128 where
  "LOGS_TOPIC_ID = 0x0000000031565f53474f4c5f4c455453"
definition TRACES_TOPIC_ID :: u128 where
  "TRACES_TOPIC_ID = 0x000031565f5345434152545f4c455453"
definition METRICS_TOPIC_ID :: u128 where
  "METRICS_TOPIC_ID = 0x0031565f5343495254454d5f4c455453"

fun signal_byte :: "telemetry_signal \<Rightarrow> u8" where
  "signal_byte Logs = 1"
| "signal_byte Traces = 2"
| "signal_byte Metrics = 3"

fun signal_topic_id :: "telemetry_signal \<Rightarrow> u128" where
  "signal_topic_id Logs = LOGS_TOPIC_ID"
| "signal_topic_id Traces = TRACES_TOPIC_ID"
| "signal_topic_id Metrics = METRICS_TOPIC_ID"

definition signal_from_wire :: "u8 \<Rightarrow> telemetry_error + telemetry_signal" where
  "signal_from_wire value =
     (if value = 1 then Inr Logs
      else if value = 2 then Inr Traces
      else if value = 3 then Inr Metrics
      else Inl (InvalidTelemetryEnvelope ''unknown telemetry signal''))"

lemma signal_from_wire_byte [simp]: "signal_from_wire (signal_byte s) = Inr s"
  by (cases s) (simp_all add: signal_from_wire_def)

lemma signal_from_wire_eq: "signal_from_wire b = Inr s \<longleftrightarrow> b = signal_byte s"
  by (cases s) (auto simp: signal_from_wire_def)

lemma signal_topic_id_inj: "signal_topic_id s = signal_topic_id t \<longleftrightarrow> s = t"
  by (cases s; cases t) (simp_all add: LOGS_TOPIC_ID_def TRACES_TOPIC_ID_def METRICS_TOPIC_ID_def)

section \<open>Typed values and their canonical bytes\<close>

datatype telemetry_value =
    Empty
  | StringValue bytes
  | Boolean bool
  | Integer u64
  | DoubleBits u64
  | Bytes bytes
  | Array "telemetry_value list"
  | Map "telemetry_attribute list"
  | StringTableIndex u32
and telemetry_attribute =
    TelemetryAttribute (attr_key: bytes) (key_strindex: u32) (attr_value: "telemetry_value option")

definition append_len :: "nat \<Rightarrow> bytes" where
  "append_len len = u64_le (of_nat len)"

definition append_bytes :: "bytes \<Rightarrow> bytes" where
  "append_bytes bs = append_len (length bs) @ bs"

fun value_canonical :: "telemetry_value \<Rightarrow> bytes"
and attribute_canonical :: "telemetry_attribute \<Rightarrow> bytes" where
  "value_canonical Empty = [0]"
| "value_canonical (StringValue s) = [1] @ append_bytes s"
| "value_canonical (Boolean b) = [2, if b then 1 else 0]"
| "value_canonical (Integer i) = [3] @ u64_le i"
| "value_canonical (DoubleBits d) = [4] @ u64_le d"
| "value_canonical (Bytes bs) = [5] @ append_bytes bs"
| "value_canonical (Array vs) = [6] @ append_len (length vs) @ concat (map value_canonical vs)"
| "value_canonical (Map attrs) = [7] @ append_len (length attrs) @ concat (map attribute_canonical attrs)"
| "value_canonical (StringTableIndex i) = [8] @ u32_le i"
| "attribute_canonical (TelemetryAttribute k i v) =
     append_bytes k @ u32_le i @ (case v of Some x \<Rightarrow> [1] @ value_canonical x | None \<Rightarrow> [0])"

text \<open>Every buffer of a running process is shorter than the address space.\<close>

fun value_fits :: "telemetry_value \<Rightarrow> bool"
and attribute_fits :: "telemetry_attribute \<Rightarrow> bool" where
  "value_fits (StringValue s) = (length s < 2 ^ 64)"
| "value_fits (Bytes bs) = (length bs < 2 ^ 64)"
| "value_fits (Array vs) = (length vs < 2 ^ 64 \<and> list_all value_fits vs)"
| "value_fits (Map attrs) = (length attrs < 2 ^ 64 \<and> list_all attribute_fits attrs)"
| "value_fits _ = True"
| "attribute_fits (TelemetryAttribute k i v) = (length k < 2 ^ 64 \<and> (case v of None \<Rightarrow> True | Some x \<Rightarrow> value_fits x))"

lemma le_bytes_append_eq [simp]:
  "u32_le a @ x = u32_le b @ y \<longleftrightarrow> a = b \<and> x = y"
  "u64_le c @ x = u64_le d @ y \<longleftrightarrow> c = d \<and> x = y"
  by (metis append_eq_append_conv from_le_bytes(2) length_le_bytes(2))
     (metis append_eq_append_conv from_le_bytes(3) length_le_bytes(3))

lemma of_nat_u64_eq: "m < 2 ^ 64 \<Longrightarrow> n < 2 ^ 64 \<Longrightarrow> (of_nat m = (of_nat n :: u64)) = (m = n)"
  by (simp add: word_of_nat_eq_iff take_bit_nat_eq_self)

lemma append_len_append_eq:
  "m < 2 ^ 64 \<Longrightarrow> n < 2 ^ 64 \<Longrightarrow> append_len m @ x = append_len n @ y \<longleftrightarrow> m = n \<and> x = y"
  by (simp add: append_len_def of_nat_u64_eq)

lemma append_bytes_append_eq:
  "length a < 2 ^ 64 \<Longrightarrow> length b < 2 ^ 64 \<Longrightarrow>
   append_bytes a @ x = append_bytes b @ y \<longleftrightarrow> a = b \<and> x = y"
  by (auto simp: append_bytes_def append_len_append_eq)

text \<open>A sequence of prefix-free encodings of known length is itself prefix-free.\<close>

lemma concat_prefix_free:
  assumes "\<And>x y r r'. x \<in> set xs \<Longrightarrow> y \<in> set ys \<Longrightarrow> f x @ r = f y @ r' \<Longrightarrow> x = y \<and> r = r'"
    and "length xs = length ys"
    and "concat (map f xs) @ r = concat (map f ys) @ r'"
  shows "xs = ys \<and> r = r'"
  using assms(2,1,3)
proof (induction xs ys rule: list_induct2)
  case (Cons x xs y ys)
  from Cons.prems(1) [of x y "concat (map f xs) @ r" "concat (map f ys) @ r'"] Cons.prems(2)
  have "x = y" and "concat (map f xs) @ r = concat (map f ys) @ r'" by auto
  with Cons.IH Cons.prems(1) show ?case by (metis list.set_intros(2))
qed simp

lemma value_attribute_prefix_free:
  shows "value_fits v \<Longrightarrow> value_fits w \<Longrightarrow> value_canonical v @ r = value_canonical w @ r' \<Longrightarrow> v = w \<and> r = r'"
    and "attribute_fits a \<Longrightarrow> attribute_fits b \<Longrightarrow>
         attribute_canonical a @ r = attribute_canonical b @ r' \<Longrightarrow> a = b \<and> r = r'"
proof (induction v and a arbitrary: w r r' and b r r')
  case (Array vs)
  then obtain ws where w: "w = Array ws" by (cases w) auto
  with Array.prems have "length vs = length ws"
    and "concat (map value_canonical vs) @ r = concat (map value_canonical ws) @ r'"
    by (auto simp: append_len_append_eq)
  moreover have "x = y \<and> s = s'"
    if "x \<in> set vs" "y \<in> set ws" "value_canonical x @ s = value_canonical y @ s'" for x y s s'
    using that Array.prems w by (intro Array.IH) (auto simp: list_all_iff)
  ultimately show ?case using w concat_prefix_free by blast
next
  case (Map as)
  then obtain bs where w: "w = Map bs" by (cases w) auto
  with Map.prems have "length as = length bs"
    and "concat (map attribute_canonical as) @ r = concat (map attribute_canonical bs) @ r'"
    by (auto simp: append_len_append_eq)
  moreover have "x = y \<and> s = s'"
    if "x \<in> set as" "y \<in> set bs" "attribute_canonical x @ s = attribute_canonical y @ s'" for x y s s'
    using that Map.prems w by (intro Map.IH) (auto simp: list_all_iff)
  ultimately show ?case using w concat_prefix_free by blast
next
  case (TelemetryAttribute k i v)
  then obtain k' i' v' where b: "b = TelemetryAttribute k' i' v'" by (cases b) auto
  from TelemetryAttribute.prems b have "k = k'" "i = i'"
    and v: "(case v of Some x \<Rightarrow> [1] @ value_canonical x | None \<Rightarrow> [0]) @ r
       = (case v' of Some x \<Rightarrow> [1] @ value_canonical x | None \<Rightarrow> [0]) @ r'"
    by (auto simp: append_bytes_append_eq)
  moreover have "v = v' \<and> r = r'"
  proof (cases v)
    case None
    with v show ?thesis by (cases v') auto
  next
    case (Some x)
    with v obtain y where y: "v' = Some y" "value_canonical x @ r = value_canonical y @ r'"
      by (cases v') auto
    with Some TelemetryAttribute.prems b have "x = y \<and> r = r'"
      by (intro TelemetryAttribute.IH [of x]) auto
    with Some y show ?thesis by simp
  qed
  ultimately show ?case using b by simp
next
  case (StringValue s)
  then show ?case by (cases w) (auto simp: append_bytes_append_eq)
next
  case (Bytes s)
  then show ?case by (cases w) (auto simp: append_bytes_append_eq)
next
  case (Boolean s)
  then show ?case by (cases w) (auto split: if_splits)
next
  case Empty
  then show ?case by (cases w) auto
next
  case (Integer s)
  then show ?case by (cases w) auto
next
  case (DoubleBits s)
  then show ?case by (cases w) auto
next
  case (StringTableIndex s)
  then show ?case by (cases w) auto
qed

section \<open>Resource and scope identity\<close>

record telemetry_entity_ref =
  er_schema_url :: bytes
  er_entity_type :: bytes
  er_id_keys :: "bytes list"
  er_description_keys :: "bytes list"

record resource_context =
  rc_attributes :: "telemetry_attribute list"
  rc_dropped_attributes_count :: u32
  rc_schema_url :: bytes
  rc_entity_refs :: "telemetry_entity_ref list"

record scope_context =
  sc_name :: bytes
  sc_version :: bytes
  sc_attributes :: "telemetry_attribute list"
  sc_dropped_attributes_count :: u32
  sc_schema_url :: bytes

definition entity_identity :: "telemetry_entity_ref \<Rightarrow> bytes" where
  "entity_identity e =
     append_bytes (er_schema_url e) @ append_bytes (er_entity_type e)
     @ append_len (length (er_id_keys e)) @ concat (map append_bytes (er_id_keys e))
     @ append_len (length (er_description_keys e)) @ concat (map append_bytes (er_description_keys e))"

text \<open>The canonical attribute encodings are sorted, so the wire order does not matter.\<close>

definition sorted_attributes :: "telemetry_attribute list \<Rightarrow> bytes list" where
  "sorted_attributes attrs = sort (map attribute_canonical attrs)"

definition resource_identity :: "resource_context \<Rightarrow> bytes" where
  "resource_identity c =
     append_bytes (rc_schema_url c)
     @ u32_le (rc_dropped_attributes_count c)
     @ append_len (length (sorted_attributes (rc_attributes c)))
     @ concat (map append_bytes (sorted_attributes (rc_attributes c)))
     @ append_len (length (rc_entity_refs c))
     @ concat (map entity_identity (rc_entity_refs c))"

definition scope_identity :: "scope_context \<Rightarrow> bytes" where
  "scope_identity c =
     append_bytes (sc_name c)
     @ append_bytes (sc_version c)
     @ append_bytes (sc_schema_url c)
     @ u32_le (sc_dropped_attributes_count c)
     @ append_len (length (sorted_attributes (sc_attributes c)))
     @ concat (map append_bytes (sorted_attributes (sc_attributes c)))"

definition fingerprint128 :: "(bytes \<Rightarrow> bytes) \<Rightarrow> bytes \<Rightarrow> bytes \<Rightarrow> u128" where
  "fingerprint128 blake3 domain canonical =
     from_le (take 16 (blake3 (domain @ [0] @ u64_le (of_nat (length canonical)) @ canonical)))"

definition attribute_fingerprint :: "(bytes \<Rightarrow> bytes) \<Rightarrow> telemetry_attribute \<Rightarrow> u128" where
  "attribute_fingerprint blake3 a =
     fingerprint128 blake3 (ascii ''shard-telemetry/attribute/v1'') (attribute_canonical a)"

definition resource_id :: "(bytes \<Rightarrow> bytes) \<Rightarrow> resource_context \<Rightarrow> u128" where
  "resource_id blake3 c =
     fingerprint128 blake3 (ascii ''shard-telemetry/resource-context/v1'') (resource_identity c)"

definition scope_id :: "(bytes \<Rightarrow> bytes) \<Rightarrow> scope_context \<Rightarrow> u128" where
  "scope_id blake3 c =
     fingerprint128 blake3 (ascii ''shard-telemetry/scope-context/v1'') (scope_identity c)"

subsection \<open>Sizes that fit the address space\<close>

definition attributes_fit :: "telemetry_attribute list \<Rightarrow> bool" where
  "attributes_fit attrs \<longleftrightarrow> length attrs < 2 ^ 64
     \<and> list_all attribute_fits attrs \<and> list_all (\<lambda>a. length (attribute_canonical a) < 2 ^ 64) attrs"

definition entity_fits :: "telemetry_entity_ref \<Rightarrow> bool" where
  "entity_fits e \<longleftrightarrow> length (er_schema_url e) < 2 ^ 64 \<and> length (er_entity_type e) < 2 ^ 64
     \<and> length (er_id_keys e) < 2 ^ 64 \<and> list_all (\<lambda>k. length k < 2 ^ 64) (er_id_keys e)
     \<and> length (er_description_keys e) < 2 ^ 64
     \<and> list_all (\<lambda>k. length k < 2 ^ 64) (er_description_keys e)"

definition resource_fits :: "resource_context \<Rightarrow> bool" where
  "resource_fits c \<longleftrightarrow> length (rc_schema_url c) < 2 ^ 64 \<and> attributes_fit (rc_attributes c)
     \<and> length (rc_entity_refs c) < 2 ^ 64 \<and> list_all entity_fits (rc_entity_refs c)"

definition scope_fits :: "scope_context \<Rightarrow> bool" where
  "scope_fits c \<longleftrightarrow> length (sc_name c) < 2 ^ 64 \<and> length (sc_version c) < 2 ^ 64
     \<and> length (sc_schema_url c) < 2 ^ 64 \<and> attributes_fit (sc_attributes c)"

subsection \<open>The canonical form determines the context up to attribute order\<close>

lemma byte_strings_prefix_free:
  assumes "list_all (\<lambda>k. length k < 2 ^ 64) xs" "list_all (\<lambda>k. length k < 2 ^ 64) ys"
    and "length xs = length ys"
    and "concat (map append_bytes xs) @ r = concat (map append_bytes ys) @ r'"
  shows "xs = ys \<and> r = r'"
  using assms(3,4) assms(1,2)
  by (intro concat_prefix_free [of xs ys append_bytes]) (auto simp: append_bytes_append_eq list_all_iff)

lemma counted_byte_strings_prefix_free:
  assumes "list_all (\<lambda>k. length k < 2 ^ 64) xs" "list_all (\<lambda>k. length k < 2 ^ 64) ys"
    and "length xs < 2 ^ 64" "length ys < 2 ^ 64"
    and "append_len (length xs) @ concat (map append_bytes xs) @ r
       = append_len (length ys) @ concat (map append_bytes ys) @ r'"
  shows "xs = ys \<and> r = r'"
proof -
  from assms(5) have "length xs = length ys"
    and "concat (map append_bytes xs) @ r = concat (map append_bytes ys) @ r'"
    by (simp_all add: append_len_append_eq [OF assms(3,4)])
  then show ?thesis by (rule byte_strings_prefix_free [OF assms(1,2)])
qed

lemma attribute_canonical_inj:
  "attribute_fits a \<Longrightarrow> attribute_fits b \<Longrightarrow> attribute_canonical a = attribute_canonical b \<Longrightarrow> a = b"
  using value_attribute_prefix_free(2) [of a b "[]" "[]"] by simp

lemma mset_map_inj_on:
  assumes "inj_on f (set xs \<union> set ys)" "mset (map f xs) = mset (map f ys)"
  shows "mset xs = mset ys"
  using image_mset_eq_image_mset_plusD [of f "mset xs" "mset ys" "{#}"] assms by auto

lemma sorted_attributes_inj:
  assumes "attributes_fit as" "attributes_fit bs" "sorted_attributes as = sorted_attributes bs"
  shows "mset as = mset bs"
proof (rule mset_map_inj_on [of attribute_canonical])
  show "inj_on attribute_canonical (set as \<union> set bs)"
    using assms(1,2) by (auto simp: inj_on_def attributes_fit_def list_all_iff intro: attribute_canonical_inj)
  show "mset (map attribute_canonical as) = mset (map attribute_canonical bs)"
    using assms(3) by (metis mset_sort sorted_attributes_def)
qed

lemma sorted_attributes_fit:
  "attributes_fit as \<Longrightarrow> list_all (\<lambda>k. length k < 2 ^ 64) (sorted_attributes as)"
  by (auto simp: attributes_fit_def sorted_attributes_def list_all_iff)

lemma length_sorted_attributes [simp]: "length (sorted_attributes as) = length as"
  by (simp add: sorted_attributes_def)

lemma counted_attributes_prefix_free:
  assumes "attributes_fit as" "attributes_fit bs"
    and "append_len (length as) @ concat (map append_bytes (sorted_attributes as)) @ r
       = append_len (length bs) @ concat (map append_bytes (sorted_attributes bs)) @ r'"
  shows "mset as = mset bs \<and> r = r'"
proof -
  have "sorted_attributes as = sorted_attributes bs \<and> r = r'"
    using assms sorted_attributes_fit
    by (intro counted_byte_strings_prefix_free) (auto simp: attributes_fit_def)
  with assms(1,2) show ?thesis by (auto intro: sorted_attributes_inj)
qed

lemma entity_identity_prefix_free:
  assumes "entity_fits e" "entity_fits f" "entity_identity e @ r = entity_identity f @ r'"
  shows "e = f \<and> r = r'"
proof -
  from assms have url: "er_schema_url e = er_schema_url f"
    and ty: "er_entity_type e = er_entity_type f"
    and ids: "append_len (length (er_id_keys e)) @ concat (map append_bytes (er_id_keys e))
       @ append_len (length (er_description_keys e)) @ concat (map append_bytes (er_description_keys e)) @ r
     = append_len (length (er_id_keys f)) @ concat (map append_bytes (er_id_keys f))
       @ append_len (length (er_description_keys f)) @ concat (map append_bytes (er_description_keys f)) @ r'"
    by (auto simp: entity_identity_def entity_fits_def append_bytes_append_eq)
  have k: "er_id_keys e = er_id_keys f
      \<and> append_len (length (er_description_keys e)) @ concat (map append_bytes (er_description_keys e)) @ r
      = append_len (length (er_description_keys f)) @ concat (map append_bytes (er_description_keys f)) @ r'"
    using ids assms(1,2) by (intro counted_byte_strings_prefix_free) (auto simp: entity_fits_def)
  with assms(1,2) have "er_description_keys e = er_description_keys f \<and> r = r'"
    by (intro counted_byte_strings_prefix_free) (auto simp: entity_fits_def)
  with url ty k show ?thesis by simp
qed

lemma resource_identity_prefix_free:
  assumes "resource_fits c" "resource_fits d" "resource_identity c @ r = resource_identity d @ r'"
  shows "rc_schema_url c = rc_schema_url d
    \<and> rc_dropped_attributes_count c = rc_dropped_attributes_count d
    \<and> mset (rc_attributes c) = mset (rc_attributes d)
    \<and> rc_entity_refs c = rc_entity_refs d \<and> r = r'"
proof -
  from assms have url: "rc_schema_url c = rc_schema_url d"
    and dropped: "rc_dropped_attributes_count c = rc_dropped_attributes_count d"
    and rest: "append_len (length (rc_attributes c)) @ concat (map append_bytes (sorted_attributes (rc_attributes c)))
        @ append_len (length (rc_entity_refs c)) @ concat (map entity_identity (rc_entity_refs c)) @ r
      = append_len (length (rc_attributes d)) @ concat (map append_bytes (sorted_attributes (rc_attributes d)))
        @ append_len (length (rc_entity_refs d)) @ concat (map entity_identity (rc_entity_refs d)) @ r'"
    by (auto simp: resource_identity_def resource_fits_def append_bytes_append_eq)
  have attrs: "mset (rc_attributes c) = mset (rc_attributes d)
    \<and> append_len (length (rc_entity_refs c)) @ concat (map entity_identity (rc_entity_refs c)) @ r
      = append_len (length (rc_entity_refs d)) @ concat (map entity_identity (rc_entity_refs d)) @ r'"
    using assms(1,2) rest by (intro counted_attributes_prefix_free) (auto simp: resource_fits_def)
  moreover from this assms(1,2) have "length (rc_entity_refs c) = length (rc_entity_refs d)"
    and "concat (map entity_identity (rc_entity_refs c)) @ r = concat (map entity_identity (rc_entity_refs d)) @ r'"
    by (auto simp: append_len_append_eq resource_fits_def)
  then have "rc_entity_refs c = rc_entity_refs d \<and> r = r'"
    using assms(1,2)
    by (intro concat_prefix_free [of _ _ entity_identity])
       (auto simp: resource_fits_def list_all_iff dest: entity_identity_prefix_free)
  ultimately show ?thesis using url dropped by simp
qed

lemma scope_identity_prefix_free:
  assumes "scope_fits c" "scope_fits d" "scope_identity c @ r = scope_identity d @ r'"
  shows "sc_name c = sc_name d \<and> sc_version c = sc_version d \<and> sc_schema_url c = sc_schema_url d
    \<and> sc_dropped_attributes_count c = sc_dropped_attributes_count d
    \<and> mset (sc_attributes c) = mset (sc_attributes d) \<and> r = r'"
proof -
  from assms have "sc_name c = sc_name d" "sc_version c = sc_version d" "sc_schema_url c = sc_schema_url d"
    "sc_dropped_attributes_count c = sc_dropped_attributes_count d"
    and "append_len (length (sc_attributes c)) @ concat (map append_bytes (sorted_attributes (sc_attributes c))) @ r
      = append_len (length (sc_attributes d)) @ concat (map append_bytes (sorted_attributes (sc_attributes d))) @ r'"
    by (auto simp: scope_identity_def scope_fits_def append_bytes_append_eq)
  moreover from this(5) assms(1,2) have "mset (sc_attributes c) = mset (sc_attributes d) \<and> r = r'"
    by (intro counted_attributes_prefix_free) (auto simp: scope_fits_def)
  ultimately show ?thesis by simp
qed

section \<open>Trace and span identifiers\<close>

definition trace_id_from_bytes :: "bytes \<Rightarrow> telemetry_error + bytes" where
  "trace_id_from_bytes bs = (if bs = replicate 16 0 then Inl InvalidTraceId else Inr bs)"

definition trace_id_from_slice :: "bytes \<Rightarrow> telemetry_error + bytes" where
  "trace_id_from_slice bs =
     (if length bs = 16 then trace_id_from_bytes bs else Inl InvalidTraceId)"

definition span_id_from_bytes :: "bytes \<Rightarrow> telemetry_error + bytes" where
  "span_id_from_bytes bs = (if bs = replicate 8 0 then Inl InvalidSpanId else Inr bs)"

definition span_id_from_slice :: "bytes \<Rightarrow> telemetry_error + bytes" where
  "span_id_from_slice bs =
     (if length bs = 8 then span_id_from_bytes bs else Inl InvalidSpanId)"

text \<open>The lower-case hexadecimal form that \<^verbatim>\<open>Display\<close> and \<^verbatim>\<open>Debug\<close> print.\<close>

definition hex_digit :: "nat \<Rightarrow> char" where
  "hex_digit n = ''0123456789abcdef'' ! n"

definition write_hex :: "bytes \<Rightarrow> string" where
  "write_hex bs = concat (map (\<lambda>b. [hex_digit (unat (drop_bit 4 b)), hex_digit (unat (and b 0x0f))]) bs)"

section \<open>Error messages\<close>

text \<open>
  \<^verbatim>\<open>Display\<close> of the error type. The renderings of shard ids, logical offsets and topic partitions
  belong to \<^verbatim>\<open>shard_stream_core\<close>, so they are arguments. The object versions a stale catalog reports
  are ASCII; \<open>debug_char\<close> is \<^verbatim>\<open>{:?}\<close> of a character of a string in that range.
\<close>

record core_formats =
  fmt_shard_id :: "shard_id \<Rightarrow> string"
  fmt_logical_offset :: "logical_offset \<Rightarrow> string"
  fmt_topic_partition :: "topic_partition \<Rightarrow> string"

fun hex_digits :: "nat \<Rightarrow> string" where
  "hex_digits n = (if n < 16 then [hex_digit n] else hex_digits (n div 16) @ [hex_digit (n mod 16)])"

declare hex_digits.simps [simp del]

definition debug_char :: "char \<Rightarrow> string" where
  "debug_char c =
     (let n = of_char c :: nat in
      if n = 0 then [CHR 0x5C, CHR ''0''] else if n = 9 then [CHR 0x5C, CHR ''t'']
      else if n = 13 then [CHR 0x5C, CHR ''r''] else if n = 10 then [CHR 0x5C, CHR ''n'']
      else if n = 34 \<or> n = 92 then [CHR 0x5C, c]
      else if n < 32 \<or> n = 127 then [CHR 0x5C] @ ''u{'' @ hex_digits n @ ''}''
      else [c])"

definition debug_option_string :: "string option \<Rightarrow> string" where
  "debug_option_string v = (case v of None \<Rightarrow> ''None''
     | Some s \<Rightarrow> ''Some('' @ [CHR 0x22] @ concat (map debug_char s) @ [CHR 0x22] @ '')'')"

fun error_display :: "core_formats \<Rightarrow> telemetry_error \<Rightarrow> string" where
  "error_display f (InvalidConfig m) = ''invalid configuration: '' @ m"
| "error_display f (InvalidConfiguration m) = ''invalid telemetry configuration: '' @ m"
| "error_display f (InvalidTelemetryEnvelope m) = ''invalid STEL telemetry envelope: '' @ m"
| "error_display f TelemetryEnvelopeTooLarge = ''STEL telemetry envelope exceeds the 64 MiB safety limit''"
| "error_display f InvalidTraceId = ''trace ID must be 16 nonzero bytes''"
| "error_display f InvalidSpanId = ''span ID must be 8 nonzero bytes''"
| "error_display f (InvalidMetricSample m) = ''invalid metric sample: '' @ m"
| "error_display f (MetricSampleConflict series t) =
     ''conflicting Remote Write sample for series '' @ write_hex (rev (u128_le series)) @ '' at ''
     @ dec_digits (unat t)"
| "error_display f (DuplicateStripe s) = ''duplicate stripe for shard '' @ fmt_shard_id f s"
| "error_display f (UnknownStripe s) = ''unknown stripe for shard '' @ fmt_shard_id f s"
| "error_display f (WrongStripe expected observed) =
     ''record for shard '' @ fmt_shard_id f observed @ '' was sent to stripe '' @ fmt_shard_id f expected"
| "error_display f (OffsetOutOfOrder p expected observed) =
     ''partition '' @ fmt_topic_partition f p @ '' expected offset '' @ fmt_logical_offset f expected
     @ '', observed '' @ fmt_logical_offset f observed"
| "error_display f (OffsetExhausted p) =
     ''partition '' @ fmt_topic_partition f p @ '' has exhausted its logical offsets''"
| "error_display f (DuplicateRecord p off) =
     ''duplicate record '' @ fmt_topic_partition f p @ [CHR 0x40] @ fmt_logical_offset f off"
| "error_display f (ConflictingRecord p off) =
     ''conflicting replay for record '' @ fmt_topic_partition f p @ [CHR 0x40] @ fmt_logical_offset f off"
| "error_display f (UnknownBlock b) = ''unknown block '' @ dec_digits (unat b)"
| "error_display f EmptyDictionary = ''compression dictionary cannot be empty''"
| "error_display f (DictionaryTooLarge n capacity) =
     ''compression dictionary is '' @ dec_digits n @ '' bytes, exceeding cache capacity '' @ dec_digits capacity"
| "error_display f (DictionaryIdConflict d) =
     ''dictionary ID '' @ dec_digits (unat d) @ '' was reused with different immutable bytes''"
| "error_display f DictionaryCatalogUnavailable = ''immutable dictionary catalog is unavailable''"
| "error_display f DictionaryTrainerUnavailable = ''real-time dictionary trainer is unavailable''"
| "error_display f (DictionaryTrainingFailed m) = ''real-time dictionary training failed: '' @ m"
| "error_display f (MissingDictionary d) =
     ''dictionary '' @ dec_digits (unat d) @ '' is missing from the stripe snapshot''"
| "error_display f RecordTooLarge = ''log record cannot fit in the block encoding''"
| "error_display f (InvalidBlockEncoding m) = ''invalid structural block encoding: '' @ m"
| "error_display f (CompressionFailed m) = ''block compression failed: '' @ m"
| "error_display f (InvalidOtlpPayload m) = ''invalid OTLP Logs protobuf payload: '' @ m"
| "error_display f (InvalidNativePayload m) = ''invalid native log payload: '' @ m"
| "error_display f (InvalidQuery m) = ''invalid log query: '' @ m"
| "error_display f (QueryWorkerUnavailable m) = ''query worker is unavailable: '' @ m"
| "error_display f (StorageIo m) = ''durable storage operation failed: '' @ m"
| "error_display f (CorruptSinkJournal m) = ''sink journal is corrupt: '' @ m"
| "error_display f (SinkJournalFull n capacity) =
     ''sink journal requires '' @ dec_digits (unat n) @ '' bytes, exceeding capacity '' @ dec_digits (unat capacity)"
| "error_display f (ObjectStore m) = ''object-store operation failed: '' @ m"
| "error_display f (CorruptTier m) = ''corrupt tier metadata or object: '' @ m"
| "error_display f (StaleCatalog expected observed) =
     ''conditional catalog publication failed: expected object version '' @ debug_option_string expected
     @ '', observed '' @ debug_option_string observed"
| "error_display f (MissingStagedPayload b) = ''sealed block '' @ dec_digits (unat b) @ '' has no staged payload''"

section \<open>Configuration and routing\<close>

record signal_config =
  cfg_logical_partitions :: u16
  cfg_physical_stripes :: u16
  cfg_retention_nanos :: "nat option"
  cfg_head_memory_bytes_per_stripe :: nat
  cfg_target_block_bytes :: nat
  cfg_max_query_records :: nat

record shard_telemetry_config =
  cfg_logs :: signal_config
  cfg_traces :: signal_config
  cfg_metrics :: signal_config
  cfg_max_otlp_request_bytes :: nat
  cfg_max_parallel_partition_appends :: u16

fun signal_debug :: "telemetry_signal \<Rightarrow> string" where
  "signal_debug Logs = ''Logs''"
| "signal_debug Traces = ''Traces''"
| "signal_debug Metrics = ''Metrics''"

definition signal_config_validate :: "signal_config \<Rightarrow> telemetry_signal \<Rightarrow> telemetry_error + unit" where
  "signal_config_validate c signal =
     rbind (require (InvalidConfiguration (signal_debug signal @ '' physical stripes exceed logical partitions''))
              (\<not> cfg_physical_stripes c > cfg_logical_partitions c)) (\<lambda>_.
     require (InvalidConfiguration (signal_debug signal @ '' bounded limits must be nonzero''))
       (\<not> (cfg_head_memory_bytes_per_stripe c = 0 \<or> cfg_target_block_bytes c = 0
           \<or> cfg_max_query_records c = 0)))"

definition config_default :: shard_telemetry_config where
  "config_default =
     (let common = (\<lambda>head target. \<lparr>cfg_logical_partitions = 256, cfg_physical_stripes = 16,
            cfg_retention_nanos = None, cfg_head_memory_bytes_per_stripe = head,
            cfg_target_block_bytes = target, cfg_max_query_records = 1000000\<rparr>)
      in \<lparr>cfg_logs = common (64 * 1024 * 1024) (8 * 1024 * 1024),
          cfg_traces = common (256 * 1024 * 1024) (8 * 1024 * 1024),
          cfg_metrics = common (512 * 1024 * 1024) (64 * 1024),
          cfg_max_otlp_request_bytes = 64 * 1024 * 1024,
          cfg_max_parallel_partition_appends = 16\<rparr>)"

definition config_validate :: "shard_telemetry_config \<Rightarrow> telemetry_error + unit" where
  "config_validate c =
     rbind (signal_config_validate (cfg_logs c) Logs) (\<lambda>_.
     rbind (signal_config_validate (cfg_traces c) Traces) (\<lambda>_.
     rbind (signal_config_validate (cfg_metrics c) Metrics) (\<lambda>_.
     require (InvalidConfiguration ''OTLP request limit must be nonzero'')
       (cfg_max_otlp_request_bytes c \<noteq> 0))))"

text \<open>The router keeps one nonzero partition count per signal.\<close>

record telemetry_router =
  logical_partitions :: "u16 list"

fun signal_index :: "telemetry_signal \<Rightarrow> nat" where
  "signal_index Logs = 0"
| "signal_index Traces = 1"
| "signal_index Metrics = 2"

definition router_new :: "u16 \<Rightarrow> telemetry_router" where
  "router_new n = \<lparr>logical_partitions = [n, n, n]\<rparr>"

definition router_from_config :: "shard_telemetry_config \<Rightarrow> telemetry_router" where
  "router_from_config c = \<lparr>logical_partitions =
     [cfg_logical_partitions (cfg_logs c), cfg_logical_partitions (cfg_traces c),
      cfg_logical_partitions (cfg_metrics c)]\<rparr>"

definition logical_partition_count :: "telemetry_router \<Rightarrow> telemetry_signal \<Rightarrow> u16" where
  "logical_partition_count r signal = logical_partitions r ! signal_index signal"

definition route ::
  "(bytes \<Rightarrow> bytes) \<Rightarrow> telemetry_router \<Rightarrow> telemetry_signal \<Rightarrow> bytes \<Rightarrow> bytes \<Rightarrow> topic_partition" where
  "route blake3 r signal tenant identity =
     (let digest = blake3 (ascii ''shard-telemetry-route-v1'' @ [0] @ [signal_byte signal]
                     @ u64_le (of_nat (length tenant)) @ tenant @ identity);
          hash = from_le (take 8 digest) :: u64
      in TopicPartition (signal_topic_id signal)
           (ucast (hash mod ucast (logical_partitions r ! signal_index signal))))"

definition route_trace :: "(bytes \<Rightarrow> bytes) \<Rightarrow> telemetry_router \<Rightarrow> bytes \<Rightarrow> bytes \<Rightarrow> topic_partition" where
  "route_trace blake3 r tenant trace_id = route blake3 r Traces tenant trace_id"

definition route_metric :: "(bytes \<Rightarrow> bytes) \<Rightarrow> telemetry_router \<Rightarrow> bytes \<Rightarrow> u128 \<Rightarrow> topic_partition" where
  "route_metric blake3 r tenant series = route blake3 r Metrics tenant (u128_le series)"

definition route_log ::
  "(bytes \<Rightarrow> bytes) \<Rightarrow> telemetry_router \<Rightarrow> bytes \<Rightarrow> bytes option \<Rightarrow> bytes \<Rightarrow> topic_partition" where
  "route_log blake3 r tenant trace_id fingerprint =
     (case trace_id of
        Some trace_id \<Rightarrow> route blake3 r Logs tenant trace_id
      | None \<Rightarrow> route blake3 r Logs tenant fingerprint)"

lemma route_partition:
  assumes "logical_partition_count r signal \<noteq> 0"
  shows "unat (partition_id (route blake3 r signal tenant identity)) < unat (logical_partition_count r signal)"
proof -
  let ?n = "logical_partition_count r signal"
  let ?h = "from_le (take 8 (blake3 (ascii ''shard-telemetry-route-v1'' @ [0] @ [signal_byte signal]
                     @ u64_le (of_nat (length tenant)) @ tenant @ identity))) :: u64"
  have n: "unat (ucast ?n :: u64) = unat ?n"
    by (simp add: unat_ucast_up)
  have "unat (?h mod ucast ?n) = unat ?h mod unat ?n"
    by (simp add: unat_mod_distrib n)
  moreover have "unat ?n \<noteq> 0" using assms by (simp add: unat_eq_0)
  ultimately have lt: "unat (?h mod ucast ?n) < unat ?n" by simp
  have "unat (ucast (?h mod ucast ?n) :: u32) \<le> unat (?h mod ucast ?n)"
    by (rule unat_ucast_le)
  with lt show ?thesis by (simp add: route_def Let_def logical_partition_count_def)
qed

lemma router_from_config_count:
  "logical_partition_count (router_from_config c) Logs = cfg_logical_partitions (cfg_logs c)"
  "logical_partition_count (router_from_config c) Traces = cfg_logical_partitions (cfg_traces c)"
  "logical_partition_count (router_from_config c) Metrics = cfg_logical_partitions (cfg_metrics c)"
  by (simp_all add: logical_partition_count_def router_from_config_def)

lemma config_default_valid: "config_validate config_default = Inr ()"
  by (simp add: config_validate_def config_default_def signal_config_validate_def Let_def)

lemma hex_digit_inj: "m < 16 \<Longrightarrow> n < 16 \<Longrightarrow> hex_digit m = hex_digit n \<Longrightarrow> m = n"
  by (simp add: hex_digit_def nth_eq_iff_index_eq)

lemma sorted_attributes_mset: "mset as = mset bs \<Longrightarrow> sorted_attributes as = sorted_attributes bs"
  by (simp add: sorted_attributes_def properties_for_sort)

lemma nibbles_inj:
  fixes a b :: u8
  assumes "drop_bit 4 a = drop_bit 4 b" "and a 0x0f = and b 0x0f"
  shows "a = b"
proof -
  have "take_bit 4 a = take_bit 4 b"
    using assms(2) by (simp add: take_bit_eq_mask mask_numeral)
  then show ?thesis
    using assms(1) by (metis bits_ident)
qed

lemma nibble_bounds:
  fixes a :: u8
  shows "unat (drop_bit 4 a) < 16" "unat (and a 0x0f) < 16"
proof -
  have "unat a < 256" using unsigned_less [of a] by simp
  then show "unat (drop_bit 4 a) < 16" by (simp add: drop_bit_eq_div unat_div)
  have "and a 0x0f = take_bit 4 a" by (simp add: take_bit_eq_mask mask_numeral)
  then show "unat (and a 0x0f) < 16" by (simp add: take_bit_eq_mod unat_mod)
qed

section \<open>Properties\<close>

text \<open>
  The canonical encoding of attribute values is self-delimiting: two values (of sizes that fit
  the address space) whose encodings start the same byte string are equal, and so is what follows
  them. No two different values, however nested, share a canonical form.
\<close>

lemma value_canonical_prefix_free:
  assumes "value_fits v" "value_fits w"
  shows "value_canonical v @ r = value_canonical w @ r' \<longleftrightarrow> v = w \<and> r = r'"
  using value_attribute_prefix_free(1) [OF assms] by auto

lemma value_canonical_prefix_free_witness:
  "value_canonical (Map [TelemetryAttribute [107] 0 (Some (Array [Boolean True, Bytes [7], Empty]))]) @ [1]
   \<noteq> value_canonical (Map [TelemetryAttribute [107] 0 (Some (Array [Boolean True, StringValue [7], Empty]))]) @ [2]"
proof -
  have "value_fits (Map [TelemetryAttribute [107] 0 (Some (Array [Boolean True, Bytes [7], Empty]))])"
    "value_fits (Map [TelemetryAttribute [107] 0 (Some (Array [Boolean True, StringValue [7], Empty]))])"
    by simp_all
  from value_canonical_prefix_free [OF this, of "[1]" "[2]"] show ?thesis by simp
qed

text \<open>
  C35: resource and scope identities are exactly the contexts up to attribute order: two contexts have
  the same identity bytes if and only if all their other fields agree and their attributes are
  permutations of each other.
\<close>

theorem context_identity_iff:
  assumes "resource_fits c" "resource_fits d" "scope_fits e" "scope_fits f"
  shows "(resource_identity c = resource_identity d \<longleftrightarrow>
       rc_schema_url c = rc_schema_url d
       \<and> rc_dropped_attributes_count c = rc_dropped_attributes_count d
       \<and> mset (rc_attributes c) = mset (rc_attributes d) \<and> rc_entity_refs c = rc_entity_refs d)
   \<and> (scope_identity e = scope_identity f \<longleftrightarrow>
       sc_name e = sc_name f \<and> sc_version e = sc_version f \<and> sc_schema_url e = sc_schema_url f
       \<and> sc_dropped_attributes_count e = sc_dropped_attributes_count f
       \<and> mset (sc_attributes e) = mset (sc_attributes f))"
proof -
  have "resource_identity c = resource_identity d" if "rc_schema_url c = rc_schema_url d"
    "rc_dropped_attributes_count c = rc_dropped_attributes_count d"
    "mset (rc_attributes c) = mset (rc_attributes d)" "rc_entity_refs c = rc_entity_refs d"
    using that sorted_attributes_mset [OF that(3)] by (simp add: resource_identity_def)
  moreover have "scope_identity e = scope_identity f" if "sc_name e = sc_name f"
    "sc_version e = sc_version f" "sc_schema_url e = sc_schema_url f"
    "sc_dropped_attributes_count e = sc_dropped_attributes_count f"
    "mset (sc_attributes e) = mset (sc_attributes f)"
    using that sorted_attributes_mset [OF that(5)] by (simp add: scope_identity_def)
  ultimately show ?thesis
    using resource_identity_prefix_free [OF assms(1,2), of "[]" "[]"]
      scope_identity_prefix_free [OF assms(3,4), of "[]" "[]"] by auto
qed

theorem context_identity_witness:
  "let a = TelemetryAttribute [1] 0 (Some (Integer 5)); b = TelemetryAttribute [2] 0 None;
       c = \<lparr>rc_attributes = [a, b], rc_dropped_attributes_count = 0, rc_schema_url = [117],
            rc_entity_refs = []\<rparr>
   in resource_identity c = resource_identity (c\<lparr>rc_attributes := [b, a]\<rparr>)
      \<and> resource_identity c \<noteq> resource_identity (c\<lparr>rc_attributes := [b]\<rparr>)"
proof -
  let ?a = "TelemetryAttribute [1] 0 (Some (Integer 5))" and ?b = "TelemetryAttribute [2] 0 None"
  let ?c = "\<lambda>as. \<lparr>rc_attributes = as, rc_dropped_attributes_count = 0, rc_schema_url = [117],
            rc_entity_refs = []\<rparr> :: resource_context"
  let ?s = "\<lparr>sc_name = [], sc_version = [], sc_attributes = [], sc_dropped_attributes_count = 0,
    sc_schema_url = []\<rparr> :: scope_context"
  have fits: "resource_fits (?c [?a, ?b])" "resource_fits (?c [?b, ?a])" "resource_fits (?c [?b])"
    "scope_fits ?s"
    by (simp_all add: resource_fits_def scope_fits_def attributes_fit_def append_bytes_def append_len_def)
  from context_identity_iff [OF fits(1,2) fits(4,4)] context_identity_iff [OF fits(1,3) fits(4,4)]
  show ?thesis by (simp add: Let_def)
qed

text \<open>
  Routing stays inside the configured topic: with the nonzero partition counts of a configuration,
  every record is sent to the topic of its signal and to a partition below that signal's count.
\<close>

lemma route_in_range:
  assumes "logical_partition_count (router_from_config c) signal \<noteq> 0"
  shows "topic_id (route blake3 (router_from_config c) signal tenant identity) = signal_topic_id signal
    \<and> unat (partition_id (route blake3 (router_from_config c) signal tenant identity))
      < unat (case signal of Logs \<Rightarrow> cfg_logical_partitions (cfg_logs c)
          | Traces \<Rightarrow> cfg_logical_partitions (cfg_traces c) | Metrics \<Rightarrow> cfg_logical_partitions (cfg_metrics c))"
  using route_partition [OF assms, of blake3 tenant identity]
  by (cases signal) (simp_all add: router_from_config_count, simp_all add: route_def Let_def)

lemma route_in_range_witness:
  "unat (partition_id (route (\<lambda>bs. take 32 (bs @ replicate 32 0)) (router_from_config config_default)
     Traces [116] (replicate 16 1))) < 256"
  using route_in_range [of config_default Traces "\<lambda>bs. take 32 (bs @ replicate 32 0)" "[116]" "replicate 16 1"]
  by (simp add: router_from_config_count config_default_def Let_def)

text \<open>
  The hexadecimal rendering of trace and span identifiers is faithful: it prints two digits for
  each byte and no two different byte strings have the same rendering.
\<close>

lemma write_hex_faithful:
  "length (write_hex xs) = 2 * length xs \<and> (write_hex xs = write_hex ys \<longleftrightarrow> xs = ys)"
proof -
  have len: "length (write_hex zs) = 2 * length zs" for zs
    by (induction zs) (auto simp: write_hex_def)
  have inj: "xs = ys" if "length xs = length ys" "write_hex xs = write_hex ys"
    using that
  proof (induction xs ys rule: list_induct2)
    case (Cons x xs y ys)
    then have "drop_bit 4 x = drop_bit 4 y" "and x 0x0f = and y 0x0f"
      using hex_digit_inj [OF nibble_bounds(1) [of x] nibble_bounds(1) [of y]]
        hex_digit_inj [OF nibble_bounds(2) [of x] nibble_bounds(2) [of y]]
      by (auto simp: write_hex_def simp flip: word_unat_eq_iff)
    then have "x = y" by (rule nibbles_inj)
    with Cons show ?case by (auto simp: write_hex_def)
  qed simp
  from len [of xs] len [of ys] inj show ?thesis by auto
qed

end
