(* ===== verification/Envelope.thy ===== *)
theory Envelope
  imports Telemetry
begin

text \<open>
  The checksummed STEL envelope (\<^verbatim>\<open>src/src/envelope.rs\<close>): the durable unit every signal is stored and
  forwarded in. The theory models encoding, decoding with and without checksum verification, and
  shows that the two are inverse to each other in both directions, that the checksum binds every
  byte, and which inputs are rejected.
\<close>

section \<open>The envelope and its wire form\<close>

definition ENVELOPE_MAGIC :: bytes where "ENVELOPE_MAGIC = [0x53, 0x54, 0x45, 0x4C]"
definition ENVELOPE_VERSION :: u8 where "ENVELOPE_VERSION = 1"
definition ENVELOPE_HEADER_BYTES :: nat where "ENVELOPE_HEADER_BYTES = 64"
definition CHECKSUM_OFFSET :: nat where "CHECKSUM_OFFSET = 32"
definition MAX_TELEMETRY_ENVELOPE_BYTES :: nat where
  "MAX_TELEMETRY_ENVELOPE_BYTES = 64 * 1024 * 1024"

lemmas envelope_consts = ENVELOPE_MAGIC_def ENVELOPE_VERSION_def ENVELOPE_HEADER_BYTES_def
  CHECKSUM_OFFSET_def MAX_TELEMETRY_ENVELOPE_BYTES_def

record telemetry_envelope =
  env_signal :: telemetry_signal
  env_tenant :: bytes
  env_item_count :: u32
  env_routing_metadata :: bytes
  env_payload :: bytes

record envelope_view =
  view_signal :: telemetry_signal
  view_tenant :: bytes
  view_item_count :: u32
  view_routing_metadata :: bytes
  view_payload :: bytes
  view_checksum :: bytes

definition is_encoded :: "bytes \<Rightarrow> bool" where
  "is_encoded encoded \<longleftrightarrow> take 4 encoded = ENVELOPE_MAGIC"

definition envelope_validate :: "telemetry_envelope \<Rightarrow> telemetry_error + unit" where
  "envelope_validate e =
     (if env_tenant e = [] then Inl (InvalidTelemetryEnvelope ''tenant must not be empty'')
      else if env_item_count e = 0 then Inl (InvalidTelemetryEnvelope ''item count must not be zero'')
      else if env_payload e = [] then Inl (InvalidTelemetryEnvelope ''payload must not be empty'')
      else Inr ())"

definition envelope_new ::
  "telemetry_signal \<Rightarrow> bytes \<Rightarrow> u32 \<Rightarrow> bytes \<Rightarrow> bytes \<Rightarrow> telemetry_error + telemetry_envelope" where
  "envelope_new signal tenant item_count routing payload =
     (let e = \<lparr>env_signal = signal, env_tenant = tenant, env_item_count = item_count,
               env_routing_metadata = routing, env_payload = payload\<rparr>
      in rbind (envelope_validate e) (\<lambda>_. Inr e))"

text \<open>The digest is taken over the encoding with the checksum field zeroed.\<close>

definition checksum_input :: "bytes \<Rightarrow> bytes" where
  "checksum_input encoded =
     take CHECKSUM_OFFSET encoded @ replicate 32 0 @ drop (CHECKSUM_OFFSET + 32) encoded"

definition checksum :: "(bytes \<Rightarrow> bytes) \<Rightarrow> bytes \<Rightarrow> bytes" where
  "checksum blake3 encoded = blake3 (checksum_input encoded)"

definition envelope_encode :: "(bytes \<Rightarrow> bytes) \<Rightarrow> telemetry_envelope \<Rightarrow> telemetry_error + bytes" where
  "envelope_encode blake3 e =
     rbind (envelope_validate e) (\<lambda>_.
     rbind (ok_or TelemetryEnvelopeTooLarge
       (Option.bind (usize_checked_add ENVELOPE_HEADER_BYTES (length (env_tenant e))) (\<lambda>v.
        Option.bind (usize_checked_add v (length (env_routing_metadata e))) (\<lambda>v.
        usize_checked_add v (length (env_payload e)))))) (\<lambda>total_len.
     if total_len > MAX_TELEMETRY_ENVELOPE_BYTES then Inl TelemetryEnvelopeTooLarge else
     rbind (ok_or TelemetryEnvelopeTooLarge (usize_to_u32 (length (env_tenant e)))) (\<lambda>tenant_len.
     rbind (ok_or TelemetryEnvelopeTooLarge (usize_to_u32 (length (env_routing_metadata e)))) (\<lambda>routing_len.
     let header = ENVELOPE_MAGIC @ [ENVELOPE_VERSION, signal_byte (env_signal e)] @ [0, 0]
           @ u32_le (env_item_count e) @ u32_le tenant_len @ u32_le routing_len
           @ u64_le (of_nat (length (env_payload e))) @ [0, 0, 0, 0] @ replicate 32 0;
         encoded = header @ env_tenant e @ env_routing_metadata e @ env_payload e
     in Inr (take CHECKSUM_OFFSET encoded @ checksum blake3 encoded
             @ drop (CHECKSUM_OFFSET + 32) encoded)))))"

definition decode_view_internal ::
  "(bytes \<Rightarrow> bytes) \<Rightarrow> bytes \<Rightarrow> bool \<Rightarrow> telemetry_error + envelope_view" where
  "decode_view_internal blake3 encoded verify_checksum =
     (if length encoded < ENVELOPE_HEADER_BYTES \<or> length encoded > MAX_TELEMETRY_ENVELOPE_BYTES then
        Inl (InvalidTelemetryEnvelope ''envelope length is outside the supported range'')
      else if take 4 encoded \<noteq> ENVELOPE_MAGIC then
        Inl (InvalidTelemetryEnvelope ''missing STEL envelope magic'')
      else if encoded ! 4 \<noteq> ENVELOPE_VERSION then
        Inl (InvalidTelemetryEnvelope ''unsupported STEL envelope version'')
      else if slice 6 8 encoded \<noteq> [0, 0] \<or> slice 28 32 encoded \<noteq> [0, 0, 0, 0] then
        Inl (InvalidTelemetryEnvelope ''nonzero reserved envelope bits'')
      else let expected_checksum = slice CHECKSUM_OFFSET (CHECKSUM_OFFSET + 32) encoded in
      if verify_checksum \<and> checksum blake3 encoded \<noteq> expected_checksum then
        Inl (InvalidTelemetryEnvelope ''envelope checksum mismatch'')
      else rbind (signal_from_wire (encoded ! 5)) (\<lambda>signal.
      let item_count = from_le (slice 8 12 encoded) :: u32;
          tenant_len = unat (from_le (slice 12 16 encoded) :: u32);
          routing_len = unat (from_le (slice 16 20 encoded) :: u32);
          payload_len = unat (from_le (slice 20 28 encoded) :: u64)
      in rbind (ok_or TelemetryEnvelopeTooLarge
       (Option.bind (usize_checked_add ENVELOPE_HEADER_BYTES tenant_len) (\<lambda>v.
        Option.bind (usize_checked_add v routing_len) (\<lambda>v.
        usize_checked_add v payload_len)))) (\<lambda>expected_len.
      if expected_len \<noteq> length encoded then
        Inl (InvalidTelemetryEnvelope ''envelope sections do not match its length'')
      else let tenant_start = ENVELOPE_HEADER_BYTES;
          routing_start = tenant_start + tenant_len;
          payload_start = routing_start + routing_len;
          tenant = slice tenant_start routing_start encoded
      in if \<not> utf8_valid tenant then Inl (InvalidTelemetryEnvelope ''tenant is not UTF-8'')
      else if tenant = [] then Inl (InvalidTelemetryEnvelope ''tenant must not be empty'')
      else if item_count = 0 then Inl (InvalidTelemetryEnvelope ''item count must not be zero'')
      else if payload_start = length encoded then
        Inl (InvalidTelemetryEnvelope ''payload must not be empty'')
      else Inr \<lparr>view_signal = signal, view_tenant = tenant, view_item_count = item_count,
                 view_routing_metadata = slice routing_start payload_start encoded,
                 view_payload = drop payload_start encoded,
                 view_checksum = expected_checksum\<rparr>)))"

definition decode_view :: "(bytes \<Rightarrow> bytes) \<Rightarrow> bytes \<Rightarrow> telemetry_error + envelope_view" where
  "decode_view blake3 encoded = decode_view_internal blake3 encoded True"

definition decode_view_after_validation :: "(bytes \<Rightarrow> bytes) \<Rightarrow> bytes \<Rightarrow> telemetry_error + envelope_view" where
  "decode_view_after_validation blake3 encoded = decode_view_internal blake3 encoded False"

definition envelope_decode :: "(bytes \<Rightarrow> bytes) \<Rightarrow> bytes \<Rightarrow> telemetry_error + telemetry_envelope" where
  "envelope_decode blake3 encoded =
     rbind (decode_view blake3 encoded) (\<lambda>view.
       envelope_new (view_signal view) (view_tenant view) (view_item_count view)
         (view_routing_metadata view) (view_payload view))"

section \<open>The encoded form in one piece\<close>

text \<open>
  The layout of an encoding with an arbitrary checksum field \<open>ck\<close>; \<open>envelope_ok\<close> says which
  envelopes have one.
\<close>

definition envelope_layout :: "telemetry_envelope \<Rightarrow> bytes \<Rightarrow> bytes" where
  "envelope_layout e ck =
     ENVELOPE_MAGIC @ [ENVELOPE_VERSION, signal_byte (env_signal e), 0, 0]
     @ u32_le (env_item_count e) @ u32_le (of_nat (length (env_tenant e)))
     @ u32_le (of_nat (length (env_routing_metadata e))) @ u64_le (of_nat (length (env_payload e)))
     @ [0, 0, 0, 0] @ ck @ env_tenant e @ env_routing_metadata e @ env_payload e"

definition envelope_ok :: "telemetry_envelope \<Rightarrow> bool" where
  "envelope_ok e \<longleftrightarrow> env_tenant e \<noteq> [] \<and> env_item_count e \<noteq> 0 \<and> env_payload e \<noteq> []
     \<and> ENVELOPE_HEADER_BYTES + length (env_tenant e) + length (env_routing_metadata e)
         + length (env_payload e) \<le> MAX_TELEMETRY_ENVELOPE_BYTES"

lemma length_envelope_layout:
  "length ck = 32 \<Longrightarrow> length (envelope_layout e ck) = ENVELOPE_HEADER_BYTES
     + length (env_tenant e) + length (env_routing_metadata e) + length (env_payload e)"
  by (simp add: envelope_layout_def envelope_consts)

lemma checksum_layout:
  assumes "length ck = 32"
  shows "checksum blake3 (envelope_layout e ck) = blake3 (envelope_layout e (replicate 32 0))"
  using assms by (simp add: checksum_def checksum_input_def envelope_layout_def envelope_consts)

lemma envelope_encode_eq:
  "envelope_encode blake3 e =
     (if env_tenant e = [] then Inl (InvalidTelemetryEnvelope ''tenant must not be empty'')
      else if env_item_count e = 0 then Inl (InvalidTelemetryEnvelope ''item count must not be zero'')
      else if env_payload e = [] then Inl (InvalidTelemetryEnvelope ''payload must not be empty'')
      else if \<not> envelope_ok e then Inl TelemetryEnvelopeTooLarge
      else Inr (envelope_layout e (blake3 (envelope_layout e (replicate 32 0)))))"
  by (auto simp: envelope_encode_def envelope_validate_def envelope_ok_def envelope_layout_def
      envelope_consts usize_checked_add_def usize_to_u32_def checksum_def checksum_input_def Let_def)

definition view_of :: "telemetry_envelope \<Rightarrow> bytes \<Rightarrow> envelope_view" where
  "view_of e ck = \<lparr>view_signal = env_signal e, view_tenant = env_tenant e,
     view_item_count = env_item_count e, view_routing_metadata = env_routing_metadata e,
     view_payload = env_payload e, view_checksum = ck\<rparr>"

lemma envelope_ok_lengths:
  assumes "envelope_ok e"
  shows "unat (of_nat (length (env_tenant e)) :: u32) = length (env_tenant e)"
    "unat (of_nat (length (env_routing_metadata e)) :: u32) = length (env_routing_metadata e)"
    "unat (of_nat (length (env_payload e)) :: u64) = length (env_payload e)"
  using assms by (simp_all add: envelope_ok_def envelope_consts unat_of_nat)

text \<open>Each header field is read back from its range.\<close>

lemma layout_fields:
  assumes "length ck = 32"
  shows "take 4 (envelope_layout e ck) = ENVELOPE_MAGIC"
    "envelope_layout e ck ! 4 = ENVELOPE_VERSION"
    "envelope_layout e ck ! 5 = signal_byte (env_signal e)"
    "slice 6 8 (envelope_layout e ck) = [0, 0]"
    "slice 8 12 (envelope_layout e ck) = u32_le (env_item_count e)"
    "slice 12 16 (envelope_layout e ck) = u32_le (of_nat (length (env_tenant e)))"
    "slice 16 20 (envelope_layout e ck) = u32_le (of_nat (length (env_routing_metadata e)))"
    "slice 20 28 (envelope_layout e ck) = u64_le (of_nat (length (env_payload e)))"
    "slice 28 32 (envelope_layout e ck) = [0, 0, 0, 0]"
    "slice CHECKSUM_OFFSET (CHECKSUM_OFFSET + 32) (envelope_layout e ck) = ck"
    "drop ENVELOPE_HEADER_BYTES (envelope_layout e ck)
       = env_tenant e @ env_routing_metadata e @ env_payload e"
  using assms by (simp_all add: envelope_layout_def envelope_consts slice_def)

lemma decode_layout:
  assumes "envelope_ok e" "utf8_valid (env_tenant e)" "length ck = 32"
  shows "decode_view_internal blake3 (envelope_layout e ck) v =
     (if v \<and> blake3 (envelope_layout e (replicate 32 0)) \<noteq> ck
      then Inl (InvalidTelemetryEnvelope ''envelope checksum mismatch'') else Inr (view_of e ck))"
proof -
  let ?b = "envelope_layout e ck" and ?t = "env_tenant e" and ?r = "env_routing_metadata e"
  have len: "length ?b = ENVELOPE_HEADER_BYTES + length ?t + length ?r + length (env_payload e)"
    using assms(3) by (rule length_envelope_layout)
  have drops: "drop (ENVELOPE_HEADER_BYTES + n) ?b = drop n (?t @ ?r @ env_payload e)" for n
    by (metis add.commute drop_drop layout_fields(11) [OF assms(3)])
  have tenant: "slice ENVELOPE_HEADER_BYTES (ENVELOPE_HEADER_BYTES + length ?t) ?b = ?t"
    by (simp add: slice_def layout_fields(11) [OF assms(3)])
  have routing: "slice (ENVELOPE_HEADER_BYTES + length ?t)
      (ENVELOPE_HEADER_BYTES + length ?t + length ?r) ?b = ?r"
    by (simp add: slice_def drops)
  have payload: "drop (ENVELOPE_HEADER_BYTES + length ?t + length ?r) ?b = env_payload e"
    by (simp add: drops add.assoc)
  have bound: "ENVELOPE_HEADER_BYTES \<le> length ?b" "length ?b \<le> MAX_TELEMETRY_ENVELOPE_BYTES"
    "length ?b < 2 ^ 64" "length (env_payload e) \<noteq> 0"
    using assms(1) len by (simp_all add: envelope_ok_def envelope_consts)
  show ?thesis
    unfolding decode_view_internal_def layout_fields [OF assms(3)] checksum_layout [OF assms(3)] Let_def
      signal_from_wire_byte rbind.simps from_le_bytes envelope_ok_lengths [OF assms(1)] usize_checked_add_def
    using assms(1,2) bound len
    by (simp add: envelope_ok_def tenant routing payload view_of_def)
qed

lemma decode_sound:
  assumes "decode_view_internal blake3 b v = Inr view"
  shows "\<exists>e. view = view_of e (view_checksum view) \<and> envelope_ok e \<and> utf8_valid (env_tenant e)
     \<and> length (view_checksum view) = 32 \<and> b = envelope_layout e (view_checksum view)
     \<and> (v \<longrightarrow> view_checksum view = blake3 (envelope_layout e (replicate 32 0)))"
proof -
  let ?e = "\<lparr>env_signal = view_signal view, env_tenant = view_tenant view,
    env_item_count = view_item_count view, env_routing_metadata = view_routing_metadata view,
    env_payload = view_payload view\<rparr>"
  let ?ck = "slice 32 64 b" and ?t = "unat (from_le (slice 12 16 b) :: u32)"
  let ?r = "unat (from_le (slice 16 20 b) :: u32)" and ?p = "unat (from_le (slice 20 28 b) :: u64)"
  from assms have len: "64 \<le> length b" "length b \<le> MAX_TELEMETRY_ENVELOPE_BYTES"
    and magic: "take 4 b = ENVELOPE_MAGIC" and ver: "b ! 4 = ENVELOPE_VERSION"
    and res: "slice 6 8 b = [0, 0]" "slice 28 32 b = [0, 0, 0, 0]"
    and ck: "view_checksum view = ?ck" "v \<Longrightarrow> checksum blake3 b = ?ck"
    and sig: "b ! 5 = signal_byte (view_signal view)"
    and cnt: "view_item_count view = from_le (slice 8 12 b)" "view_item_count view \<noteq> 0"
    and tot: "length b = 64 + ?t + ?r + ?p"
    and ten: "view_tenant view = slice 64 (64 + ?t) b" "utf8_valid (view_tenant view)" "view_tenant view \<noteq> []"
    and rou: "view_routing_metadata view = slice (64 + ?t) (64 + ?t + ?r) b"
    and pay: "view_payload view = drop (64 + ?t + ?r) b" "64 + ?t + ?r \<noteq> length b"
    by (auto simp: decode_view_internal_def envelope_consts Let_def result_simps signal_from_wire_eq
        usize_checked_add_def bind_eq_Some_conv split: if_splits)
  have lens: "length (view_tenant view) = ?t" "length (view_routing_metadata view) = ?r"
    "length (view_payload view) = ?p" "view_payload view \<noteq> []"
    using tot pay by (auto simp: ten rou)
  have ok: "envelope_ok ?e"
    using len(2) tot cnt(2) ten(3) lens by (simp add: envelope_ok_def envelope_consts)
  have fields: "u32_le (view_item_count view) = slice 8 12 b"
    "u32_le (of_nat (length (view_tenant view))) = slice 12 16 b"
    "u32_le (of_nat (length (view_routing_metadata view))) = slice 16 20 b"
    "u64_le (of_nat (length (view_payload view))) = slice 20 28 b"
    using len(1) by (simp_all add: lens cnt(1) le_bytes_from_le)
  have body: "view_tenant view @ view_routing_metadata view @ view_payload view = drop 64 b"
    by (simp add: ten(1) rou pay(1) slice_drop)
  have "b = take 4 b @ slice 4 5 b @ slice 5 6 b @ slice 6 8 b @ slice 8 12 b @ slice 12 16 b
      @ slice 16 20 b @ slice 20 28 b @ slice 28 32 b @ slice 32 64 b @ drop 64 b"
    by (simp add: slice_drop append_assoc [symmetric] slice_join flip: slice_zero)
  also have "\<dots> = envelope_layout ?e ?ck"
    using len(1) slice_nth [of 4 b] slice_nth [of 5 b]
    by (simp add: envelope_layout_def magic ver sig res fields body)
  finally have lay: "b = envelope_layout ?e ?ck" .
  have "length ?ck = 32" using len(1) by simp
  moreover have "v \<longrightarrow> ?ck = blake3 (envelope_layout ?e (replicate 32 0))"
    using ck(2) checksum_layout [OF calculation, of blake3 ?e] lay by metis
  ultimately show ?thesis
    using ok ten(2) lay ck(1) by (intro exI [of _ ?e]) (simp add: view_of_def)
qed

lemma checksum_input_layout: "length ck = 32 \<Longrightarrow> checksum_input (envelope_layout e ck) = envelope_layout e (replicate 32 0)"
  by (simp add: checksum_input_def envelope_layout_def envelope_consts)

lemma envelope_new_ok: "envelope_ok e \<Longrightarrow>
   envelope_new (env_signal e) (env_tenant e) (env_item_count e) (env_routing_metadata e) (env_payload e) = Inr e"
  by (simp add: envelope_new_def envelope_validate_def envelope_ok_def)

lemma envelope_decode_Inr:
  assumes "envelope_decode blake3 b = Inr e"
  shows "\<exists>ck. decode_view blake3 b = Inr (view_of e ck) \<and> envelope_ok e \<and> utf8_valid (env_tenant e)
    \<and> length ck = 32 \<and> b = envelope_layout e ck \<and> ck = blake3 (envelope_layout e (replicate 32 0))"
proof -
  from assms obtain view where v: "decode_view blake3 b = Inr view"
    and e: "envelope_new (view_signal view) (view_tenant view) (view_item_count view)
         (view_routing_metadata view) (view_payload view) = Inr e"
    by (auto simp: envelope_decode_def result_simps)
  from v decode_sound [of blake3 b True view] obtain f where
    f: "view = view_of f (view_checksum view)" "envelope_ok f" "utf8_valid (env_tenant f)"
       "length (view_checksum view) = 32" "b = envelope_layout f (view_checksum view)"
       "view_checksum view = blake3 (envelope_layout f (replicate 32 0))"
    by (auto simp: decode_view_def)
  have fields: "view_signal view = env_signal f" "view_tenant view = env_tenant f"
    "view_item_count view = env_item_count f" "view_routing_metadata view = env_routing_metadata f"
    "view_payload view = env_payload f"
    by (subst f(1), simp add: view_of_def)+
  have "e = f" using e envelope_new_ok [OF f(2)] by (simp add: fields)
  then show ?thesis using v f by auto
qed

lemma envelope_decode_layout:
  assumes "\<And>x. length (blake3 x) = 32" and "utf8_valid (env_tenant e)" and "envelope_ok e"
  shows "envelope_decode blake3 (envelope_layout e (blake3 (envelope_layout e (replicate 32 0)))) = Inr e"
proof -
  let ?b = "envelope_layout e (blake3 (envelope_layout e (replicate 32 0)))"
  have "decode_view blake3 ?b = Inr (view_of e (blake3 (envelope_layout e (replicate 32 0))))"
    unfolding decode_view_def using assms by (subst decode_layout) auto
  then show ?thesis using envelope_new_ok [OF assms(3)] by (simp add: envelope_decode_def view_of_def)
qed

section \<open>Properties\<close>

text \<open>
  C3: every envelope that encodes is read back unchanged by \<open>envelope_decode\<close>, for any hash function
  with 32-byte digests: magic, version, counts, section lengths and checksum all agree.
\<close>

theorem envelope_roundtrip:
  assumes "\<And>x. length (blake3 x) = 32" and "utf8_valid (env_tenant e)"
    and "envelope_encode blake3 e = Inr b"
  shows "envelope_decode blake3 b = Inr e"
proof -
  from assms(3) have ok: "envelope_ok e"
    and b: "b = envelope_layout e (blake3 (envelope_layout e (replicate 32 0)))"
    by (auto simp: envelope_encode_eq split: if_splits)
  show ?thesis unfolding b by (rule envelope_decode_layout [OF assms(1,2) ok])
qed

theorem envelope_roundtrip_witness:
  "let h = (\<lambda>x. replicate 32 (of_nat (length x)));
       e = \<lparr>env_signal = Traces, env_tenant = [0x74, 0xC3, 0xA9], env_item_count = 7,
            env_routing_metadata = [1, 2], env_payload = [9]\<rparr>
   in \<exists>b. envelope_encode h e = Inr b \<and> envelope_decode h b = Inr e"
proof -
  let ?h = "\<lambda>x. replicate 32 (of_nat (length x)) :: bytes"
  let ?e = "\<lparr>env_signal = Traces, env_tenant = [0x74, 0xC3, 0xA9], env_item_count = 7,
            env_routing_metadata = [1, 2], env_payload = [9]\<rparr>"
  obtain b where b: "envelope_encode ?h ?e = Inr b"
    by (simp add: envelope_encode_eq envelope_ok_def envelope_consts)
  have "envelope_decode ?h b = Inr ?e"
    by (rule envelope_roundtrip [OF _ _ b]) (simp_all add: cont_byte_def)
  with b show ?thesis by (auto simp: Let_def)
qed

text \<open>
  C9: the wire form is canonical. Whatever \<open>envelope_decode\<close> accepts is exactly the encoding of the
  envelope it returns, so no two byte strings decode to the same envelope.
\<close>

theorem envelope_canonical:
  assumes "envelope_decode blake3 b = Inr e"
  shows "envelope_encode blake3 e = Inr b"
  using envelope_decode_Inr [OF assms] by (auto simp: envelope_encode_eq envelope_ok_def)

theorem envelope_canonical_witness:
  "let h = (\<lambda>x. replicate 32 5);
       e = \<lparr>env_signal = Metrics, env_tenant = [0x61], env_item_count = 1,
            env_routing_metadata = [], env_payload = [0xFF]\<rparr>;
       b = envelope_layout e (replicate 32 5)
   in envelope_decode h b = Inr e \<and> envelope_encode h e = Inr b"
proof -
  let ?h = "\<lambda>x::bytes. replicate 32 5 :: bytes"
  let ?e = "\<lparr>env_signal = Metrics, env_tenant = [0x61], env_item_count = 1,
            env_routing_metadata = [], env_payload = [0xFF]\<rparr>"
  have d: "envelope_decode ?h (envelope_layout ?e (replicate 32 5)) = Inr ?e"
    using envelope_decode_layout [of ?h ?e] by (simp add: envelope_ok_def envelope_consts)
  from envelope_canonical [OF d] d show ?thesis by (simp add: Let_def)
qed

text \<open>
  C10: the checksum binds every byte outside its own field. If two different byte strings with the
  same checksum field are both accepted, the two (explicit, different) hash inputs collide.
\<close>

theorem envelope_tamper_needs_collision:
  assumes "decode_view blake3 b = Inr v" "decode_view blake3 b' = Inr v'"
    and "view_checksum v = view_checksum v'" "b \<noteq> b'"
  shows "checksum_input b \<noteq> checksum_input b' \<and> blake3 (checksum_input b) = blake3 (checksum_input b')"
proof -
  from decode_sound [of blake3 b True v] assms(1) obtain e where
    e: "length (view_checksum v) = 32" "b = envelope_layout e (view_checksum v)"
       "view_checksum v = blake3 (envelope_layout e (replicate 32 0))" by (auto simp: decode_view_def)
  from decode_sound [of blake3 b' True v'] assms(2) obtain e' where
    e': "length (view_checksum v') = 32" "b' = envelope_layout e' (view_checksum v')"
       "view_checksum v' = blake3 (envelope_layout e' (replicate 32 0))" by (auto simp: decode_view_def)
  have "envelope_layout e (replicate 32 0) \<noteq> envelope_layout e' (replicate 32 0)"
    using assms(3,4) e(1,2) e'(2) by (auto simp: envelope_layout_def)
  moreover have "checksum_input b = envelope_layout e (replicate 32 0)"
    "checksum_input b' = envelope_layout e' (replicate 32 0)"
    using e e' checksum_input_layout by metis+
  ultimately show ?thesis using e(3) e'(3) assms(3) by simp
qed

theorem envelope_tamper_witness:
  "let h = (\<lambda>x::bytes. replicate 32 5 :: bytes);
       e = \<lparr>env_signal = Metrics, env_tenant = [0x61], env_item_count = 1,
            env_routing_metadata = [], env_payload = [0xFF]\<rparr>;
       b = envelope_layout e (replicate 32 5); b' = envelope_layout (e\<lparr>env_payload := [0]\<rparr>) (replicate 32 5)
   in checksum_input b \<noteq> checksum_input b' \<and> h (checksum_input b) = h (checksum_input b')"
proof -
  let ?h = "\<lambda>x::bytes. replicate 32 5 :: bytes"
  let ?e = "\<lparr>env_signal = Metrics, env_tenant = [0x61], env_item_count = 1,
            env_routing_metadata = [], env_payload = [0xFF]\<rparr>"
  have d: "decode_view ?h (envelope_layout ?e (replicate 32 5)) = Inr (view_of ?e (replicate 32 5))"
    "decode_view ?h (envelope_layout (?e\<lparr>env_payload := [0]\<rparr>) (replicate 32 5))
       = Inr (view_of (?e\<lparr>env_payload := [0]\<rparr>) (replicate 32 5))"
    unfolding decode_view_def by (subst decode_layout; simp add: envelope_ok_def envelope_consts)+
  show ?thesis
    using envelope_tamper_needs_collision [OF d] by (simp add: Let_def view_of_def envelope_layout_def)
qed

end
