(* ===== verification/NativeWire.thy ===== *)
theory NativeWire
  imports Envelope
begin

text \<open>
  The native protocol's byte layer (\<^verbatim>\<open>src/src/native_protocol/wire.rs\<close>) and its frames
  (\<^verbatim>\<open>src/src/native_protocol/frame.rs\<close>, constants and enumerations in \<^verbatim>\<open>src/src/native_protocol.rs\<close>).
  Every reading step of the cursor is an instance of the codec interface, which is what the message
  formats built on it rely on.
\<close>

section \<open>Errors and limits\<close>

datatype native_error = NativeProtocolError string

definition NATIVE_FRAME_HEADER_BYTES :: nat where "NATIVE_FRAME_HEADER_BYTES = 32"
definition MAX_NATIVE_FRAME_BYTES :: nat where "MAX_NATIVE_FRAME_BYTES = 64 * 1024 * 1024"
definition FRAME_MAGIC :: bytes where "FRAME_MAGIC = [0x53, 0x54, 0x4E, 0x50]"
definition FRAME_VERSION :: u8 where "FRAME_VERSION = 1"
definition FRAME_FLAG_RESPONSE :: u8 where "FRAME_FLAG_RESPONSE = 1"
definition MAX_TENANT_BYTES :: nat where "MAX_TENANT_BYTES = 1024"

lemmas frame_consts = NATIVE_FRAME_HEADER_BYTES_def MAX_NATIVE_FRAME_BYTES_def FRAME_MAGIC_def
  FRAME_VERSION_def FRAME_FLAG_RESPONSE_def MAX_TENANT_BYTES_def

section \<open>Writers\<close>

definition validate_tenant :: "bytes \<Rightarrow> native_error + unit" where
  "validate_tenant tenant =
     (if tenant = [] then Inl (NativeProtocolError ''native tenant must not be empty'')
      else if length tenant > MAX_TENANT_BYTES \<or> length tenant > 65535 then
        Inl (NativeProtocolError ''native tenant exceeds its length limit'')
      else Inr ())"

definition put_u16 :: "bytes \<Rightarrow> nat \<Rightarrow> string \<Rightarrow> native_error + bytes" where
  "put_u16 encoded value field =
     rbind (ok_or (NativeProtocolError (field @ '' exceeds u16'')) (usize_to_u16 value))
       (\<lambda>v. Inr (encoded @ u16_le v))"

definition put_u32 :: "bytes \<Rightarrow> nat \<Rightarrow> string \<Rightarrow> native_error + bytes" where
  "put_u32 encoded value field =
     rbind (ok_or (NativeProtocolError (field @ '' exceeds u32'')) (usize_to_u32 value))
       (\<lambda>v. Inr (encoded @ u32_le v))"

definition validate_string16 :: "bytes \<Rightarrow> string \<Rightarrow> native_error + unit" where
  "validate_string16 value field =
     rbind (ok_or (NativeProtocolError (field @ '' exceeds u16'')) (usize_to_u16 (length value)))
       (\<lambda>_. Inr ())"

definition put_string16 :: "bytes \<Rightarrow> bytes \<Rightarrow> string \<Rightarrow> native_error + bytes" where
  "put_string16 encoded value field =
     rbind (put_u16 encoded (length value) field) (\<lambda>encoded. Inr (encoded @ value))"

section \<open>The cursor\<close>

record cursor =
  cur_bytes :: bytes
  cur_offset :: nat

definition cursor_at :: "bytes \<Rightarrow> nat \<Rightarrow> cursor" where
  "cursor_at bs offset = \<lparr>cur_bytes = bs, cur_offset = offset\<rparr>"

text \<open>
  An offset sum that leaves the \<^verbatim>\<open>usize\<close> range is larger than any slice, so the two failure branches
  of the source (\<^verbatim>\<open>checked_add\<close> and the length filter) are one condition here.
\<close>

definition cursor_bytes :: "cursor \<Rightarrow> nat \<Rightarrow> string \<Rightarrow> native_error + bytes \<times> cursor" where
  "cursor_bytes c len field =
     (if cur_offset c + len \<le> length (cur_bytes c)
      then Inr (slice (cur_offset c) (cur_offset c + len) (cur_bytes c),
                c\<lparr>cur_offset := cur_offset c + len\<rparr>)
      else Inl (NativeProtocolError (''native '' @ field @ '' is truncated'')))"

definition cursor_u16 :: "cursor \<Rightarrow> string \<Rightarrow> native_error + u16 \<times> cursor" where
  "cursor_u16 c field = rbind (cursor_bytes c 2 field) (\<lambda>(bs, c). Inr (from_le bs, c))"

definition cursor_u32 :: "cursor \<Rightarrow> string \<Rightarrow> native_error + u32 \<times> cursor" where
  "cursor_u32 c field = rbind (cursor_bytes c 4 field) (\<lambda>(bs, c). Inr (from_le bs, c))"

definition cursor_u64 :: "cursor \<Rightarrow> string \<Rightarrow> native_error + u64 \<times> cursor" where
  "cursor_u64 c field = rbind (cursor_bytes c 8 field) (\<lambda>(bs, c). Inr (from_le bs, c))"

definition cursor_u128 :: "cursor \<Rightarrow> string \<Rightarrow> native_error + u128 \<times> cursor" where
  "cursor_u128 c field = rbind (cursor_bytes c 16 field) (\<lambda>(bs, c). Inr (from_le bs, c))"

definition cursor_string :: "cursor \<Rightarrow> nat \<Rightarrow> string \<Rightarrow> native_error + bytes \<times> cursor" where
  "cursor_string c len field =
     rbind (cursor_bytes c len field) (\<lambda>(bs, c).
       if utf8_valid bs then Inr (bs, c)
       else Inl (NativeProtocolError (''native '' @ field @ '' is not UTF-8'')))"

definition cursor_string16 :: "cursor \<Rightarrow> string \<Rightarrow> native_error + bytes \<times> cursor" where
  "cursor_string16 c field =
     rbind (cursor_u16 c field) (\<lambda>(len, c). cursor_string c (unat len) field)"

definition cursor_finish :: "cursor \<Rightarrow> native_error + unit" where
  "cursor_finish c =
     (if cur_offset c = length (cur_bytes c) then Inr ()
      else Inl (NativeProtocolError ''native payload contains trailing bytes''))"

section \<open>The cursor as a byte reader\<close>

definition cur_rest :: "cursor \<Rightarrow> bytes" where
  "cur_rest c = drop (cur_offset c) (cur_bytes c)"

definition cur_adv :: "nat \<Rightarrow> cursor \<Rightarrow> cursor" where
  "cur_adv n c = c\<lparr>cur_offset := cur_offset c + n\<rparr>"

interpretation cur: stream_reader cur_rest cur_adv
  by unfold_locales (auto simp: cur_rest_def cur_adv_def cursor_at_def add.commute)

lemma cur_adv_simps [simp]:
  "cur_bytes (cur_adv n c) = cur_bytes c" "cur_offset (cur_adv n c) = cur_offset c + n"
  by (simp_all add: cur_adv_def)

lemma cursor_bytes_eq:
  "n \<noteq> 0 \<or> cur_offset c \<le> length (cur_bytes c) \<Longrightarrow> cursor_bytes c n field =
     (if n \<le> length (cur_rest c) then Inr (take n (cur_rest c), cur_adv n c)
      else Inl (NativeProtocolError (''native '' @ field @ '' is truncated'')))"
  by (auto simp: cursor_bytes_def cur_rest_def cur_adv_def slice_def)

lemma cursor_bytes_Inr:
  "cursor_bytes c n field = Inr (bs, c') \<Longrightarrow>
     length bs = n \<and> c' = cur_adv n c \<and> cur_rest c = bs @ cur_rest c'
     \<and> cur_offset c' \<le> length (cur_bytes c')"
  by (auto simp: cursor_bytes_def cur_rest_def cur_adv_def slice_drop split: if_splits)

lemma cursor_bytes_append:
  assumes "cur_rest c = bs @ r" "bs \<noteq> [] \<or> cur_offset c \<le> length (cur_bytes c)"
  shows "cursor_bytes c (length bs) field = Inr (bs, cur_adv (length bs) c)"
  using assms by (simp add: cursor_bytes_eq)

lemma cursor_fixed_codec:
  assumes "\<And>x. length (enc x) = n" "n \<noteq> 0" "\<And>x. dec (enc x) = x" "\<And>bs. length bs = n \<Longrightarrow> enc (dec bs) = bs"
  shows "wire_codec cur_rest cur_adv enc
    (\<lambda>c. rbind (cursor_bytes c n field) (\<lambda>(bs, c). Inr (dec bs, c))) (\<lambda>_. True)"
proof (unfold_locales, goal_cases)
  case (1 x s r)
  have "enc x \<noteq> []" using assms(1) [of x] assms(2) by auto
  with 1 have "cursor_bytes s (length (enc x)) field = Inr (enc x, cur_adv (length (enc x)) s)"
    by (intro cursor_bytes_append) auto
  then show ?case by (simp add: assms(1,3))
next
  case (2 s x s')
  then obtain bs where bs: "cursor_bytes s n field = Inr (bs, s')" "x = dec bs"
    by (auto simp: result_simps)
  with cursor_bytes_Inr [OF bs(1)] assms(4) show ?case by auto
qed

interpretation u16_codec: wire_codec cur_rest cur_adv u16_le
    "\<lambda>c. cursor_u16 c field" "\<lambda>_. True" for field
  unfolding cursor_u16_def by (rule cursor_fixed_codec) (simp_all add: le_bytes_from_le)

interpretation u32_codec: wire_codec cur_rest cur_adv u32_le
    "\<lambda>c. cursor_u32 c field" "\<lambda>_. True" for field
  unfolding cursor_u32_def by (rule cursor_fixed_codec) (simp_all add: le_bytes_from_le)

interpretation u64_codec: wire_codec cur_rest cur_adv u64_le
    "\<lambda>c. cursor_u64 c field" "\<lambda>_. True" for field
  unfolding cursor_u64_def by (rule cursor_fixed_codec) (simp_all add: le_bytes_from_le)

interpretation u128_codec: wire_codec cur_rest cur_adv u128_le
    "\<lambda>c. cursor_u128 c field" "\<lambda>_. True" for field
  unfolding cursor_u128_def by (rule cursor_fixed_codec) (simp_all add: le_bytes_from_le)

lemma cursor_fixed_eq:
  "cursor_u16 c f = (if 2 \<le> length (cur_rest c) then Inr (from_le (take 2 (cur_rest c)), cur_adv 2 c)
     else Inl (NativeProtocolError (''native '' @ f @ '' is truncated'')))"
  "cursor_u32 c f = (if 4 \<le> length (cur_rest c) then Inr (from_le (take 4 (cur_rest c)), cur_adv 4 c)
     else Inl (NativeProtocolError (''native '' @ f @ '' is truncated'')))"
  "cursor_u64 c f = (if 8 \<le> length (cur_rest c) then Inr (from_le (take 8 (cur_rest c)), cur_adv 8 c)
     else Inl (NativeProtocolError (''native '' @ f @ '' is truncated'')))"
  "cursor_u128 c f = (if 16 \<le> length (cur_rest c) then Inr (from_le (take 16 (cur_rest c)), cur_adv 16 c)
     else Inl (NativeProtocolError (''native '' @ f @ '' is truncated'')))"
  by (simp_all add: cursor_u16_def cursor_u32_def cursor_u64_def cursor_u128_def cursor_bytes_eq)

definition string16 :: "bytes \<Rightarrow> bytes" where
  "string16 s = u16_le (of_nat (length s)) @ s"

definition string16_ok :: "bytes \<Rightarrow> bool" where
  "string16_ok s \<longleftrightarrow> length s < 2 ^ 16 \<and> utf8_valid s"

interpretation string16_codec: wire_codec cur_rest cur_adv string16
    "\<lambda>c. cursor_string16 c field" string16_ok for field
proof (unfold_locales, goal_cases)
  case (1 s c r)
  then have len: "unat (of_nat (length s) :: u16) = length s"
    by (simp add: string16_ok_def unat_of_nat)
  have "cursor_u16 c field = Inr (of_nat (length s), cur_adv 2 c)"
    using 1 u16_codec.get_enc [of c "of_nat (length s)"] by (simp add: string16_def)
  moreover have "cursor_bytes (cur_adv 2 c) (length s) field = Inr (s, cur_adv (length s) (cur_adv 2 c))"
  proof (rule cursor_bytes_append)
    show "cur_rest (cur_adv 2 c) = s @ r" using 1 by (simp add: cur.rest_adv string16_def)
    have "2 \<le> length (cur_rest c)" using 1 by (simp add: string16_def)
    then show "s \<noteq> [] \<or> cur_offset (cur_adv 2 c) \<le> length (cur_bytes (cur_adv 2 c))"
      by (auto simp: cur_rest_def)
  qed
  ultimately show ?case
    using 1 len by (simp add: cursor_string16_def cursor_string_def string16_ok_def string16_def cur.adv_adv)
next
  case (2 c s c')
  then obtain len c1 where len: "cursor_u16 c field = Inr (len, c1)"
    and bs: "cursor_bytes c1 (unat len) field = Inr (s, c')" and u: "utf8_valid s"
    by (auto simp: cursor_string16_def cursor_string_def result_simps split: if_splits)
  from u16_codec.get_sound [OF len] obtain r where c1: "c1 = cur_adv 2 c" "cur_rest c = u16_le len @ r"
    by auto
  from cursor_bytes_Inr [OF bs] have s: "length s = unat len" "c' = cur_adv (unat len) c1" "cur_rest c1 = s @ cur_rest c'"
    by auto
  have "string16_ok s" using u s(1) unsigned_less [of len] by (simp add: string16_ok_def)
  with c1 s show ?case
    by (auto simp: string16_def cur.adv_adv cur.rest_adv)
qed

interpretation label_codec: wire_pair cur_rest cur_adv string16
    "\<lambda>c. cursor_string16 c kfield" string16_ok string16 "\<lambda>c. cursor_string16 c vfield" string16_ok
    for kfield vfield
  by unfold_locales

lemma put_string16_eq:
  "put_string16 encoded s field =
     (if length s < 2 ^ 16 then Inr (encoded @ string16 s)
      else Inl (NativeProtocolError (field @ '' exceeds u16'')))"
  by (simp add: put_string16_def put_u16_def usize_to_u16_def string16_def)

section \<open>Frames\<close>

datatype native_opcode = Append | Query | Ping | Authenticate | QueryMetrics | QueryTraces
  | Describe | AppendUntracked | QueryLogsPage

fun opcode_byte :: "native_opcode \<Rightarrow> u8" where
  "opcode_byte Append = 1"
| "opcode_byte Query = 2"
| "opcode_byte Ping = 3"
| "opcode_byte Authenticate = 4"
| "opcode_byte QueryMetrics = 5"
| "opcode_byte QueryTraces = 6"
| "opcode_byte Describe = 7"
| "opcode_byte AppendUntracked = 8"
| "opcode_byte QueryLogsPage = 9"

definition opcode_from_byte :: "u8 \<Rightarrow> native_error + native_opcode" where
  "opcode_from_byte value =
     (if value = 1 then Inr Append else if value = 2 then Inr Query else if value = 3 then Inr Ping
      else if value = 4 then Inr Authenticate else if value = 5 then Inr QueryMetrics
      else if value = 6 then Inr QueryTraces else if value = 7 then Inr Describe
      else if value = 8 then Inr AppendUntracked else if value = 9 then Inr QueryLogsPage
      else Inl (NativeProtocolError (''unsupported native opcode '' @ dec_digits (unat value))))"

datatype native_status = StatusOk | BadRequest | Internal | Unsupported | Unauthorized
  | Unavailable | TooManyRequests | Timeout

fun status_byte :: "native_status \<Rightarrow> u8" where
  "status_byte StatusOk = 0"
| "status_byte BadRequest = 1"
| "status_byte Internal = 2"
| "status_byte Unsupported = 3"
| "status_byte Unauthorized = 4"
| "status_byte Unavailable = 5"
| "status_byte TooManyRequests = 6"
| "status_byte Timeout = 7"

definition status_from_byte :: "u8 \<Rightarrow> native_error + native_status" where
  "status_from_byte value =
     (if value = 0 then Inr StatusOk else if value = 1 then Inr BadRequest
      else if value = 2 then Inr Internal else if value = 3 then Inr Unsupported
      else if value = 4 then Inr Unauthorized else if value = 5 then Inr Unavailable
      else if value = 6 then Inr TooManyRequests else if value = 7 then Inr Timeout
      else Inl (NativeProtocolError (''unsupported native status '' @ dec_digits (unat value))))"

lemma opcode_from_byte_eq: "opcode_from_byte b = Inr x \<longleftrightarrow> b = opcode_byte x"
  by (cases x) (auto simp: opcode_from_byte_def)

lemma status_from_byte_eq: "status_from_byte b = Inr x \<longleftrightarrow> b = status_byte x"
  by (cases x) (auto simp: status_from_byte_def)

lemma opcode_status_from_byte [simp]:
  "opcode_from_byte (opcode_byte x) = Inr x" "status_from_byte (status_byte y) = Inr y"
  by (simp_all add: opcode_from_byte_eq status_from_byte_eq)

record native_frame_header =
  fh_opcode :: native_opcode
  fh_request_id :: u128
  fh_status :: native_status
  fh_is_response :: bool
  fh_payload_len :: u32
  fh_payload_checksum :: u32

record native_frame =
  fr_header :: native_frame_header
  fr_payload :: bytes

definition payload_checksum :: "(bytes \<Rightarrow> bytes) \<Rightarrow> bytes \<Rightarrow> u32" where
  "payload_checksum blake3 payload = from_le (take 4 (blake3 payload))"

definition frame_header_new ::
  "(bytes \<Rightarrow> bytes) \<Rightarrow> native_opcode \<Rightarrow> u128 \<Rightarrow> native_status \<Rightarrow> bool \<Rightarrow> bytes
   \<Rightarrow> native_error + native_frame_header" where
  "frame_header_new blake3 opcode request_id status is_response payload =
     (if length payload > MAX_NATIVE_FRAME_BYTES then
        Inl (NativeProtocolError (''native frame payload is '' @ dec_digits (length payload)
          @ '' bytes, exceeding '' @ dec_digits MAX_NATIVE_FRAME_BYTES))
      else rbind (ok_or (NativeProtocolError ''native frame payload exceeds u32'')
                   (usize_to_u32 (length payload))) (\<lambda>len.
        Inr \<lparr>fh_opcode = opcode, fh_request_id = request_id, fh_status = status,
             fh_is_response = is_response, fh_payload_len = len,
             fh_payload_checksum = payload_checksum blake3 payload\<rparr>))"

definition frame_header_encode :: "native_frame_header \<Rightarrow> bytes" where
  "frame_header_encode h =
     FRAME_MAGIC
     @ [FRAME_VERSION, opcode_byte (fh_opcode h),
        (if fh_is_response h then 1 else 0) * FRAME_FLAG_RESPONSE, status_byte (fh_status h)]
     @ u128_le (fh_request_id h) @ u32_le (fh_payload_len h) @ u32_le (fh_payload_checksum h)"

definition frame_header_decode :: "bytes \<Rightarrow> native_error + native_frame_header" where
  "frame_header_decode bs =
     (if take 4 bs \<noteq> FRAME_MAGIC then Inl (NativeProtocolError ''invalid native frame magic'')
      else if bs ! 4 \<noteq> FRAME_VERSION then
        Inl (NativeProtocolError (''unsupported native frame version '' @ dec_digits (unat (bs ! 4))))
      else if and (bs ! 6) (not FRAME_FLAG_RESPONSE) \<noteq> 0 then
        Inl (NativeProtocolError ''native frame contains unknown flags'')
      else let payload_len = from_le (slice 24 28 bs) :: u32 in
      if unat payload_len > MAX_NATIVE_FRAME_BYTES then
        Inl (NativeProtocolError (''native frame payload is '' @ dec_digits (unat payload_len)
          @ '' bytes, exceeding '' @ dec_digits MAX_NATIVE_FRAME_BYTES))
      else rbind (opcode_from_byte (bs ! 5)) (\<lambda>opcode.
           rbind (status_from_byte (bs ! 7)) (\<lambda>status.
           Inr \<lparr>fh_opcode = opcode, fh_request_id = from_le (slice 8 24 bs), fh_status = status,
                fh_is_response = (bs ! 6 = FRAME_FLAG_RESPONSE), fh_payload_len = payload_len,
                fh_payload_checksum = from_le (slice 28 32 bs)\<rparr>)))"

definition verify_payload_and_hash ::
  "(bytes \<Rightarrow> bytes) \<Rightarrow> native_frame_header \<Rightarrow> bytes \<Rightarrow> native_error + bytes" where
  "verify_payload_and_hash blake3 h payload =
     (if length payload \<noteq> unat (fh_payload_len h) then
        Inl (NativeProtocolError ''native frame payload length disagrees with its header'')
      else let hash = blake3 payload in
      if from_le (take 4 hash) \<noteq> fh_payload_checksum h then
        Inl (NativeProtocolError ''native frame payload checksum mismatch'')
      else Inr hash)"

definition verify_payload ::
  "(bytes \<Rightarrow> bytes) \<Rightarrow> native_frame_header \<Rightarrow> bytes \<Rightarrow> native_error + unit" where
  "verify_payload blake3 h payload = rmap (\<lambda>_. ()) (verify_payload_and_hash blake3 h payload)"

definition frame_request ::
  "(bytes \<Rightarrow> bytes) \<Rightarrow> native_opcode \<Rightarrow> u128 \<Rightarrow> bytes \<Rightarrow> native_error + native_frame" where
  "frame_request blake3 opcode request_id payload =
     rmap (\<lambda>h. \<lparr>fr_header = h, fr_payload = payload\<rparr>)
       (frame_header_new blake3 opcode request_id StatusOk False payload)"

definition frame_response ::
  "(bytes \<Rightarrow> bytes) \<Rightarrow> native_opcode \<Rightarrow> u128 \<Rightarrow> native_status \<Rightarrow> bytes \<Rightarrow> native_error + native_frame" where
  "frame_response blake3 opcode request_id status payload =
     rmap (\<lambda>h. \<lparr>fr_header = h, fr_payload = payload\<rparr>)
       (frame_header_new blake3 opcode request_id status True payload)"

definition frame_encode :: "native_frame \<Rightarrow> bytes" where
  "frame_encode f = frame_header_encode (fr_header f) @ fr_payload f"

lemma length_frame_header_encode [simp]: "length (frame_header_encode h) = NATIVE_FRAME_HEADER_BYTES"
  by (simp add: frame_header_encode_def frame_consts)

text \<open>The flag byte: no bit but the lowest may be set.\<close>

lemma and_not_one_eq_zero: "and (b :: u8) (not 1) = 0 \<longleftrightarrow> b = 0 \<or> b = 1"
proof
  assume a: "and b (not 1) = 0"
  have "\<not> bit b n" if "n \<noteq> 0" for n
  proof
    assume "bit b n"
    moreover from this have "n < 8" using bit_imp_le_length by fastforce
    ultimately have "bit (and b (not 1)) n"
      using that by (simp add: bit_and_iff bit_not_iff bit_1_iff)
    with a show False by simp
  qed
  then have "bit b n = bit (of_bool (bit b 0) :: u8) n" for n
    by (cases "n = 0") (auto simp: bit_of_bool_iff)
  then have "b = of_bool (bit b 0)" by (intro bit_eqI) blast
  then show "b = 0 \<or> b = 1" by (cases "bit b 0") auto
qed auto

lemma frame_header_roundtrip_aux:
  assumes "unat (fh_payload_len h) \<le> MAX_NATIVE_FRAME_BYTES"
  shows "frame_header_decode (frame_header_encode h @ r) = Inr h"
  using assms
  by (simp add: frame_header_decode_def frame_header_encode_def frame_consts slice_def Let_def)

lemma frame_header_canonical_aux:
  assumes "length bs = 32" "frame_header_decode bs = Inr h"
  shows "unat (fh_payload_len h) \<le> MAX_NATIVE_FRAME_BYTES \<and> frame_header_encode h = bs"
proof -
  from assms(2) have f: "take 4 bs = FRAME_MAGIC" "bs ! 4 = FRAME_VERSION"
    "bs ! 6 = 0 \<or> bs ! 6 = 1" "bs ! 5 = opcode_byte (fh_opcode h)" "bs ! 7 = status_byte (fh_status h)"
    "fh_request_id h = from_le (slice 8 24 bs)" "fh_is_response h = (bs ! 6 = 1)"
    "fh_payload_len h = from_le (slice 24 28 bs)" "fh_payload_checksum h = from_le (slice 28 32 bs)"
    and le: "unat (fh_payload_len h) \<le> MAX_NATIVE_FRAME_BYTES"
    by (auto simp: frame_header_decode_def Let_def result_simps opcode_from_byte_eq status_from_byte_eq
        FRAME_FLAG_RESPONSE_def and_not_one_eq_zero [simplified] split: if_splits)
  have "bs = take 4 bs @ slice 4 5 bs @ slice 5 6 bs @ slice 6 7 bs @ slice 7 8 bs @ slice 8 24 bs
     @ slice 24 28 bs @ slice 28 32 bs @ drop 32 bs"
    by (simp add: slice_drop append_assoc [symmetric] slice_join flip: slice_zero)
  also have "\<dots> = frame_header_encode h"
    using assms(1) f slice_nth [of 4 bs] slice_nth [of 5 bs] slice_nth [of 6 bs] slice_nth [of 7 bs]
    by (auto simp: frame_header_encode_def FRAME_FLAG_RESPONSE_def le_bytes_from_le)
  finally show ?thesis using le by simp
qed

section \<open>Properties\<close>

text \<open>
  A frame that \<open>frame_request\<close> or \<open>frame_response\<close> builds is accepted by the receiver: decoding the
  first 32 bytes returns the same header and the payload passes the length and checksum test.
\<close>

lemma frame_accepted:
  assumes "frame_header_new blake3 opcode request_id status is_response payload = Inr h"
  shows "let wire = frame_encode \<lparr>fr_header = h, fr_payload = payload\<rparr> in
     frame_header_decode (take NATIVE_FRAME_HEADER_BYTES wire) = Inr h
     \<and> verify_payload blake3 h (drop NATIVE_FRAME_HEADER_BYTES wire) = Inr ()
     \<and> fh_opcode h = opcode \<and> fh_request_id h = request_id \<and> fh_status h = status
     \<and> fh_is_response h = is_response"
proof -
  from assms have h: "length payload \<le> MAX_NATIVE_FRAME_BYTES" "length payload = unat (fh_payload_len h)"
    "fh_payload_checksum h = from_le (take 4 (blake3 payload))" "fh_opcode h = opcode"
    "fh_request_id h = request_id" "fh_status h = status" "fh_is_response h = is_response"
    by (auto simp: frame_header_new_def payload_checksum_def result_simps usize_to_u32_Some split: if_splits)
  then show ?thesis
    using frame_header_roundtrip_aux [of h "[]"]
    by (simp add: frame_encode_def verify_payload_def verify_payload_and_hash_def Let_def)
qed

lemma frame_accepted_witness:
  "let h = \<lparr>fh_opcode = Ping, fh_request_id = 7, fh_status = StatusOk, fh_is_response = False,
            fh_payload_len = 2, fh_payload_checksum = 0x05050505\<rparr>
   in frame_header_decode (take NATIVE_FRAME_HEADER_BYTES
        (frame_encode \<lparr>fr_header = h, fr_payload = [1, 2]\<rparr>)) = Inr h"
proof -
  have "frame_header_new (\<lambda>_. [5, 5, 5, 5] @ replicate 28 0) Ping 7 StatusOk False [1, 2] = Inr
     \<lparr>fh_opcode = Ping, fh_request_id = 7, fh_status = StatusOk, fh_is_response = False,
            fh_payload_len = 2, fh_payload_checksum = 0x05050505\<rparr>"
    by (simp add: frame_header_new_def frame_consts usize_to_u32_def payload_checksum_def from_le_def)
  from frame_accepted [OF this] show ?thesis by (simp add: Let_def)
qed

text \<open>
  The 32-byte header is canonical: a header accepted by \<open>frame_header_decode\<close> is re-encoded to the
  same bytes, and its declared payload never exceeds the frame limit.
\<close>

lemma frame_header_canonical:
  assumes "length bs = NATIVE_FRAME_HEADER_BYTES" "frame_header_decode bs = Inr h"
  shows "frame_header_encode h = bs \<and> unat (fh_payload_len h) \<le> MAX_NATIVE_FRAME_BYTES"
  using frame_header_canonical_aux [OF _ assms(2)] assms(1) by (simp add: NATIVE_FRAME_HEADER_BYTES_def)

lemma frame_header_canonical_witness:
  "let bs = FRAME_MAGIC @ [1, 9, 1, 6, 3, 3, 3, 3, 3, 3, 3, 3, 4, 4, 4, 4, 4, 4, 4, 4, 1, 0, 0, 0, 2, 2, 2, 2] in
   \<exists>h. frame_header_decode bs = Inr h \<and> frame_header_encode h = bs"
proof -
  let ?bs = "FRAME_MAGIC @ [1, 9, 1, 6, 3, 3, 3, 3, 3, 3, 3, 3, 4, 4, 4, 4, 4, 4, 4, 4, 1, 0, 0, 0, 2, 2, 2, 2]"
  obtain h where h: "frame_header_decode ?bs = Inr h"
    by (simp add: frame_header_decode_def frame_consts slice_def opcode_from_byte_def status_from_byte_def
        from_le_def Let_def)
  have "length ?bs = NATIVE_FRAME_HEADER_BYTES" by (simp add: frame_consts)
  from frame_header_canonical [OF this h] h show ?thesis by (auto simp: Let_def)
qed

end
