(* ===== verification/NativeBatch.thy ===== *)
theory NativeBatch
  imports NativeWire
begin

text \<open>
  Appends and acknowledgements of the native protocol (\<^verbatim>\<open>src/src/native_protocol/batch.rs\<close>): one STEL
  envelope per routed partition, decoded either into owned values or into borrowed views with the
  byte ranges of the sections, and the per-partition offsets returned to the producer.
\<close>

definition TELEMETRY_BATCH_MAGIC :: bytes where "TELEMETRY_BATCH_MAGIC = [0x53, 0x54, 0x42, 0x31]"
definition TELEMETRY_ACK_MAGIC :: bytes where "TELEMETRY_ACK_MAGIC = [0x53, 0x54, 0x4D, 0x31]"

record native_partition_append =
  npa_topic_partition :: topic_partition
  npa_envelope :: telemetry_envelope
  npa_transient_context :: "bytes option"

record native_partition_append_view =
  npv_topic_partition :: topic_partition
  npv_signal :: telemetry_signal
  npv_tenant :: bytes
  npv_item_count :: u32
  npv_transient_context :: "bytes option"

record native_telemetry_batch =
  nb_partitions :: "native_partition_append list"

text \<open>A \<^verbatim>\<open>Range<usize>\<close> is its two ends.\<close>

type_synonym wire_range = "nat \<times> nat"
type_synonym envelope_wire_range = "wire_range \<times> wire_range option"

section \<open>Duplicate detection\<close>

text \<open>
  \<^verbatim>\<open>seen\<close> is a \<^verbatim>\<open>BTreeSet\<close> that only exists when there is more than one partition; the result of
  \<open>seen_insert\<close> is the set with the new element and whether the element was new.
\<close>

definition seen_new :: "nat \<Rightarrow> topic_partition set option" where
  "seen_new n = (if n > 1 then Some {} else None)"

definition seen_insert :: "topic_partition \<Rightarrow> topic_partition set option \<Rightarrow> bool \<times> topic_partition set option" where
  "seen_insert tp seen = (case seen of None \<Rightarrow> (True, None) | Some s \<Rightarrow> (tp \<notin> s, Some (insert tp s)))"

section \<open>Encoding\<close>

definition encode_partition ::
  "(bytes \<Rightarrow> bytes) \<Rightarrow> core_formats \<Rightarrow> native_partition_append
   \<Rightarrow> topic_partition set option \<times> bytes \<Rightarrow> native_error + topic_partition set option \<times> bytes" where
  "encode_partition blake3 fmts p st = (case st of (seen, encoded) \<Rightarrow>
     let (fresh, seen) = seen_insert (npa_topic_partition p) seen in
     if \<not> fresh then Inl (NativeProtocolError ''native telemetry batch contains a duplicate partition'')
     else if topic_id (npa_topic_partition p) \<noteq> signal_topic_id (env_signal (npa_envelope p)) then
       Inl (NativeProtocolError ''native telemetry partition topic disagrees with its signal'')
     else rbind (map_err (\<lambda>e. NativeProtocolError (error_display fmts e))
                   (envelope_encode blake3 (npa_envelope p))) (\<lambda>envelope.
     rbind (ok_or (NativeProtocolError ''STEL envelope exceeds u32'') (usize_to_u32 (length envelope))) (\<lambda>elen.
     let transient = (case npa_transient_context p of None \<Rightarrow> [] | Some t \<Rightarrow> t) in
     rbind (ok_or (NativeProtocolError ''transient context exceeds u32'') (usize_to_u32 (length transient))) (\<lambda>tlen.
     Inr (seen, encoded @ u128_le (topic_id (npa_topic_partition p))
       @ u32_le (partition_id (npa_topic_partition p)) @ u32_le elen @ envelope @ u32_le tlen @ transient)))))"

definition batch_encode ::
  "(bytes \<Rightarrow> bytes) \<Rightarrow> core_formats \<Rightarrow> native_telemetry_batch \<Rightarrow> native_error + bytes" where
  "batch_encode blake3 fmts b =
     (let ps = nb_partitions b in
      if ps = [] \<or> length ps > 256 then
        Inl (NativeProtocolError ''native telemetry batch requires 1..=256 partitions'')
      else rbind (rfold (encode_partition blake3 fmts) ps
              (seen_new (length ps), TELEMETRY_BATCH_MAGIC @ u16_le (of_nat (length ps)) @ [0, 0]))
        (\<lambda>(_, encoded).
          if length encoded > MAX_NATIVE_FRAME_BYTES then
            Inl (NativeProtocolError ''native telemetry batch exceeds the frame limit'')
          else Inr encoded))"

definition encode_native_append ::
  "(bytes \<Rightarrow> bytes) \<Rightarrow> core_formats \<Rightarrow> native_telemetry_batch \<Rightarrow> native_error + bytes" where
  "encode_native_append blake3 fmts b =
     (if length (nb_partitions b) \<noteq> 1 then
        Inl (NativeProtocolError ''retryable native v1 append requires exactly one partition'')
      else batch_encode blake3 fmts b)"

section \<open>Decoding\<close>

definition batch_header :: "bytes \<Rightarrow> native_error + nat" where
  "batch_header payload =
     (if length payload < 8 \<or> take 4 payload \<noteq> TELEMETRY_BATCH_MAGIC then
        Inl (NativeProtocolError ''invalid native telemetry batch header'')
      else Inr (unat (from_le (slice 4 6 payload) :: u16)))"

text \<open>
  One partition up to the topic check, common to the owned and the borrowed decoder: \<open>decode\<close> reads
  the envelope bytes and \<open>signal\<close> is the signal of what it returns.
\<close>

definition decode_partition_with ::
  "core_formats \<Rightarrow> (bytes \<Rightarrow> telemetry_error + 'e) \<Rightarrow> ('e \<Rightarrow> telemetry_signal) \<Rightarrow> cursor
   \<Rightarrow> native_error + ((topic_partition \<times> 'e \<times> bytes option) \<times> envelope_wire_range) \<times> cursor" where
  "decode_partition_with fmts decode signal c =
     rbind (cursor_u128 c ''telemetry topic ID'') (\<lambda>(topic, c).
     rbind (cursor_u32 c ''telemetry partition ID'') (\<lambda>(partition, c).
     rbind (cursor_u32 c ''telemetry envelope length'') (\<lambda>(envelope_len, c).
     let envelope_start = cur_offset c in
     rbind (cursor_bytes c (unat envelope_len) ''telemetry envelope'') (\<lambda>(envelope_bytes, c).
     rbind (map_err (\<lambda>e. NativeProtocolError (error_display fmts e)) (decode envelope_bytes)) (\<lambda>envelope.
     let envelope_range = (envelope_start, cur_offset c) in
     rbind (cursor_u32 c ''transient context length'') (\<lambda>(transient_len, c).
     let transient_start = cur_offset c in
     rbind (if transient_len = 0 then Inr (None, c)
            else rbind (cursor_bytes c (unat transient_len) ''transient context'') (\<lambda>(t, c). Inr (Some t, c)))
       (\<lambda>(transient, c).
     let transient_range = (if transient_len \<noteq> 0 then Some (transient_start, cur_offset c) else None) in
     if topic \<noteq> signal_topic_id (signal envelope) then
       Inl (NativeProtocolError ''native telemetry partition topic disagrees with its signal'')
     else Inr (((TopicPartition topic partition, envelope, transient), envelope_range, transient_range), c))))))))"

definition decode_partition ::
  "(bytes \<Rightarrow> bytes) \<Rightarrow> core_formats \<Rightarrow> cursor
   \<Rightarrow> native_error + (native_partition_append \<times> envelope_wire_range) \<times> cursor" where
  "decode_partition blake3 fmts c =
     rbind (decode_partition_with fmts (envelope_decode blake3) env_signal c) (\<lambda>(((tp, e, t), ranges), c).
       Inr ((\<lparr>npa_topic_partition = tp, npa_envelope = e, npa_transient_context = t\<rparr>, ranges), c))"

definition decode_partition_view ::
  "(bytes \<Rightarrow> bytes) \<Rightarrow> core_formats \<Rightarrow> cursor
   \<Rightarrow> native_error + (native_partition_append_view \<times> envelope_wire_range) \<times> cursor" where
  "decode_partition_view blake3 fmts c =
     rbind (decode_partition_with fmts (decode_view blake3) view_signal c) (\<lambda>(((tp, v, t), ranges), c).
       Inr ((\<lparr>npv_topic_partition = tp, npv_signal = view_signal v, npv_tenant = view_tenant v,
             npv_item_count = view_item_count v, npv_transient_context = t\<rparr>, ranges), c))"

text \<open>The loop body: decode one partition, then reject it if its partition was seen before.\<close>

definition decode_unseen ::
  "('p \<Rightarrow> topic_partition) \<Rightarrow> (cursor \<Rightarrow> native_error + ('p \<times> envelope_wire_range) \<times> cursor)
   \<Rightarrow> cursor \<times> topic_partition set option
   \<Rightarrow> native_error + ('p \<times> envelope_wire_range) \<times> cursor \<times> topic_partition set option" where
  "decode_unseen tp step st =
     rbind (step (fst st)) (\<lambda>((p, ranges), c).
       let (fresh, seen) = seen_insert (tp p) (snd st) in
       if \<not> fresh then Inl (NativeProtocolError ''native telemetry batch contains a duplicate partition'')
       else Inr ((p, ranges), (c, seen)))"

definition decode_partitions ::
  "('p \<Rightarrow> topic_partition) \<Rightarrow> (cursor \<Rightarrow> native_error + ('p \<times> envelope_wire_range) \<times> cursor)
   \<Rightarrow> bytes \<Rightarrow> native_error + ('p \<times> envelope_wire_range) list" where
  "decode_partitions tp step payload =
     rbind (batch_header payload) (\<lambda>count.
       if count = 0 \<or> count > 256 \<or> slice 6 8 payload \<noteq> [0, 0] then
         Inl (NativeProtocolError ''invalid native telemetry partition count or flags'')
       else rbind (get_many count (decode_unseen tp step) (cursor_at payload 8, seen_new count)) (\<lambda>(ps, c, _).
         rbind (cursor_finish c) (\<lambda>_. Inr ps)))"

definition batch_decode_impl ::
  "(bytes \<Rightarrow> bytes) \<Rightarrow> core_formats \<Rightarrow> bytes \<Rightarrow> bool
   \<Rightarrow> native_error + native_telemetry_batch \<times> envelope_wire_range list option" where
  "batch_decode_impl blake3 fmts payload capture_ranges =
     rbind (decode_partitions npa_topic_partition (decode_partition blake3 fmts) payload) (\<lambda>ps.
       Inr (\<lparr>nb_partitions = map fst ps\<rparr>, if capture_ranges then Some (map snd ps) else None))"

definition batch_decode ::
  "(bytes \<Rightarrow> bytes) \<Rightarrow> core_formats \<Rightarrow> bytes \<Rightarrow> native_error + native_telemetry_batch" where
  "batch_decode blake3 fmts payload = rmap fst (batch_decode_impl blake3 fmts payload False)"

definition decode_with_envelope_ranges ::
  "(bytes \<Rightarrow> bytes) \<Rightarrow> core_formats \<Rightarrow> bytes
   \<Rightarrow> native_error + native_telemetry_batch \<times> envelope_wire_range list" where
  "decode_with_envelope_ranges blake3 fmts payload =
     rbind (batch_decode_impl blake3 fmts payload True) (\<lambda>(batch, ranges). Inr (batch, the ranges))"

definition decode_native_append ::
  "(bytes \<Rightarrow> bytes) \<Rightarrow> core_formats \<Rightarrow> bytes \<Rightarrow> native_error + native_telemetry_batch" where
  "decode_native_append blake3 fmts payload =
     rbind (batch_decode blake3 fmts payload) (\<lambda>batch.
       if length (nb_partitions batch) \<noteq> 1 then
         Inl (NativeProtocolError ''retryable native v1 append requires exactly one partition'')
       else Inr batch)"

definition decode_native_append_with_envelope_range ::
  "(bytes \<Rightarrow> bytes) \<Rightarrow> core_formats \<Rightarrow> bytes \<Rightarrow> native_error + native_telemetry_batch \<times> wire_range" where
  "decode_native_append_with_envelope_range blake3 fmts payload =
     rbind (decode_with_envelope_ranges blake3 fmts payload) (\<lambda>(batch, ranges).
       if length (nb_partitions batch) \<noteq> 1 then
         Inl (NativeProtocolError ''retryable native v1 append requires exactly one partition'')
       else Inr (batch, fst (last ranges)))"

definition decode_native_append_view_with_ranges ::
  "(bytes \<Rightarrow> bytes) \<Rightarrow> core_formats \<Rightarrow> bytes
   \<Rightarrow> native_error + native_partition_append_view \<times> envelope_wire_range" where
  "decode_native_append_view_with_ranges blake3 fmts payload =
     rbind (batch_header payload) (\<lambda>count.
       if count \<noteq> 1 \<or> slice 6 8 payload \<noteq> [0, 0] then
         Inl (NativeProtocolError ''retryable native v1 append requires exactly one partition'')
       else rbind (decode_partition_view blake3 fmts (cursor_at payload 8)) (\<lambda>(pr, c).
         rbind (cursor_finish c) (\<lambda>_. Inr pr)))"

definition decode_native_append_views_with_ranges ::
  "(bytes \<Rightarrow> bytes) \<Rightarrow> core_formats \<Rightarrow> bytes
   \<Rightarrow> native_error + native_partition_append_view list \<times> envelope_wire_range list" where
  "decode_native_append_views_with_ranges blake3 fmts payload =
     rbind (decode_partitions npv_topic_partition (decode_partition_view blake3 fmts) payload) (\<lambda>ps.
       Inr (map fst ps, map snd ps))"

definition is_native_telemetry_batch :: "bytes \<Rightarrow> bool" where
  "is_native_telemetry_batch payload \<longleftrightarrow> take 4 payload = TELEMETRY_BATCH_MAGIC"

section \<open>Acknowledgements\<close>

record native_partition_ack =
  ack_topic_partition :: topic_partition
  first_offset :: u64
  last_offset :: u64

record native_telemetry_append_ack =
  ack_partitions :: "native_partition_ack list"

definition ack_entry :: "native_partition_ack \<Rightarrow> bytes" where
  "ack_entry p = u128_le (topic_id (ack_topic_partition p)) @ u32_le (partition_id (ack_topic_partition p))
     @ u64_le (first_offset p) @ u64_le (last_offset p)"

definition ack_encode :: "native_telemetry_append_ack \<Rightarrow> native_error + bytes" where
  "ack_encode a =
     (if length (ack_partitions a) > 256 then
        Inl (NativeProtocolError ''native acknowledgement exceeds 256 partitions'')
      else Inr (TELEMETRY_ACK_MAGIC @ u16_le (of_nat (length (ack_partitions a))) @ [0, 0]
                @ concat (map ack_entry (ack_partitions a))))"

definition decode_ack_entry :: "cursor \<Rightarrow> native_error + native_partition_ack \<times> cursor" where
  "decode_ack_entry c =
     rbind (cursor_u128 c ''ack topic ID'') (\<lambda>(topic, c).
     rbind (cursor_u32 c ''ack partition ID'') (\<lambda>(partition, c).
     rbind (cursor_u64 c ''ack first offset'') (\<lambda>(first, c).
     rbind (cursor_u64 c ''ack last offset'') (\<lambda>(last, c).
     Inr (\<lparr>ack_topic_partition = TopicPartition topic partition, first_offset = first,
           last_offset = last\<rparr>, c)))))"

definition ack_decode :: "bytes \<Rightarrow> native_error + native_telemetry_append_ack" where
  "ack_decode payload =
     (if length payload < 8 \<or> take 4 payload \<noteq> TELEMETRY_ACK_MAGIC then
        Inl (NativeProtocolError ''invalid native telemetry acknowledgement'')
      else let count = unat (from_le (slice 4 6 payload) :: u16) in
      if count > 256 \<or> slice 6 8 payload \<noteq> [0, 0] \<or> length payload \<noteq> 8 + count * 36 then
        Inl (NativeProtocolError ''invalid native telemetry acknowledgement length'')
      else rbind (get_many count decode_ack_entry (cursor_at payload 8)) (\<lambda>(ps, c).
        rbind (cursor_finish c) (\<lambda>_. Inr \<lparr>ack_partitions = ps\<rparr>)))"

section \<open>The acknowledgement codec\<close>

interpretation ack_codec: wire_codec cur_rest cur_adv ack_entry decode_ack_entry "\<lambda>_. True"
proof (unfold_locales, goal_cases)
  case (1 x s r)
  then show ?case
    by (cases x; cases "ack_topic_partition x")
       (simp add: decode_ack_entry_def ack_entry_def cursor_fixed_eq cur.rest_adv cur.adv_adv)
next
  case (2 s x s')
  then obtain t p f l c1 c2 c3 where
    steps: "cursor_u128 s ''ack topic ID'' = Inr (t, c1)" "cursor_u32 c1 ''ack partition ID'' = Inr (p, c2)"
      "cursor_u64 c2 ''ack first offset'' = Inr (f, c3)" "cursor_u64 c3 ''ack last offset'' = Inr (l, s')"
    and x: "x = \<lparr>ack_topic_partition = TopicPartition t p, first_offset = f, last_offset = l\<rparr>"
    by (auto simp: decode_ack_entry_def result_simps)
  from u128_codec.get_sound [OF steps(1)] u32_codec.get_sound [OF steps(2)]
    u64_codec.get_sound [OF steps(3)] u64_codec.get_sound [OF steps(4)]
  show ?case by (auto simp: x ack_entry_def cur.rest_adv cur.adv_adv)
qed

lemma length_ack_entries: "length (concat (map ack_entry ps)) = length ps * 36"
  by (induction ps) (auto simp: ack_entry_def)

section \<open>Partition entries\<close>

text \<open>The envelope decoder and the view decoder see the same envelopes.\<close>

definition view_envelope :: "envelope_view \<Rightarrow> telemetry_envelope" where
  "view_envelope v = \<lparr>env_signal = view_signal v, env_tenant = view_tenant v,
     env_item_count = view_item_count v, env_routing_metadata = view_routing_metadata v,
     env_payload = view_payload v\<rparr>"

lemma envelope_decode_view: "envelope_decode blake3 b = rmap view_envelope (decode_view blake3 b)"
proof (cases "decode_view blake3 b")
  case (Inr v)
  then obtain e where e: "v = view_of e (view_checksum v)" "envelope_ok e"
    using decode_sound [of blake3 b True v] by (auto simp: decode_view_def)
  have "view_envelope v = e" by (subst e(1)) (simp add: view_envelope_def view_of_def)
  with e(2) have "envelope_ok (view_envelope v)" by simp
  from envelope_new_ok [OF this] have "envelope_new (view_signal v) (view_tenant v) (view_item_count v)
     (view_routing_metadata v) (view_payload v) = Inr (view_envelope v)"
    by (simp add: view_envelope_def)
  with Inr show ?thesis by (simp add: envelope_decode_def)
qed (simp add: envelope_decode_def)

lemma decode_partition_with_rmap:
  assumes "\<And>x. signal' (g x) = signal x"
  shows "decode_partition_with fmts (\<lambda>b. rmap g (decode b)) signal' c
     = rmap (apfst (apfst (\<lambda>(tp, e, t). (tp, g e, t)))) (decode_partition_with fmts decode signal c)"
  unfolding decode_partition_with_def rmap_rbind Let_def rbind_map_err_rmap
  by (intro rbind_cong) (auto simp: assms rmap_rbind intro!: rbind_cong)

definition append_view :: "native_partition_append \<Rightarrow> native_partition_append_view" where
  "append_view p = \<lparr>npv_topic_partition = npa_topic_partition p, npv_signal = env_signal (npa_envelope p),
     npv_tenant = env_tenant (npa_envelope p), npv_item_count = env_item_count (npa_envelope p),
     npv_transient_context = npa_transient_context p\<rparr>"

lemma decode_partition_view_eq:
  "decode_partition_view blake3 fmts c
     = rmap (apfst (apfst append_view)) (decode_partition blake3 fmts c)"
  unfolding decode_partition_view_def decode_partition_def envelope_decode_view [abs_def]
    decode_partition_with_rmap [of env_signal view_envelope view_signal, simplified view_envelope_def, simplified]
  by (cases "decode_partition_with fmts (decode_view blake3) view_signal c")
     (auto simp: append_view_def view_envelope_def split: prod.splits)

text \<open>The bytes of a partition entry and the entries that have them.\<close>

definition envelope_bytes :: "(bytes \<Rightarrow> bytes) \<Rightarrow> telemetry_envelope \<Rightarrow> bytes" where
  "envelope_bytes blake3 e = envelope_layout e (blake3 (envelope_layout e (replicate 32 0)))"

definition transient_bytes :: "native_partition_append \<Rightarrow> bytes" where
  "transient_bytes p = (case npa_transient_context p of None \<Rightarrow> [] | Some t \<Rightarrow> t)"

definition partition_entry :: "(bytes \<Rightarrow> bytes) \<Rightarrow> native_partition_append \<Rightarrow> bytes" where
  "partition_entry blake3 p =
     u128_le (topic_id (npa_topic_partition p)) @ u32_le (partition_id (npa_topic_partition p))
     @ u32_le (of_nat (length (envelope_bytes blake3 (npa_envelope p)))) @ envelope_bytes blake3 (npa_envelope p)
     @ u32_le (of_nat (length (transient_bytes p))) @ transient_bytes p"

definition partition_ok :: "native_partition_append \<Rightarrow> bool" where
  "partition_ok p \<longleftrightarrow> envelope_ok (npa_envelope p) \<and> utf8_valid (env_tenant (npa_envelope p))
     \<and> topic_id (npa_topic_partition p) = signal_topic_id (env_signal (npa_envelope p))
     \<and> npa_transient_context p \<noteq> Some [] \<and> length (transient_bytes p) < 2 ^ 32"

lemma envelope_bytes_facts:
  assumes "\<And>x. length (blake3 x) = 32" "envelope_ok e"
  shows "envelope_bytes blake3 e \<noteq> []" "length (envelope_bytes blake3 e) \<le> MAX_TELEMETRY_ENVELOPE_BYTES"
    "unat (of_nat (length (envelope_bytes blake3 e)) :: u32) = length (envelope_bytes blake3 e)"
proof -
  have "length (envelope_bytes blake3 e) = ENVELOPE_HEADER_BYTES + length (env_tenant e)
      + length (env_routing_metadata e) + length (env_payload e)"
    by (simp add: envelope_bytes_def length_envelope_layout assms(1))
  with assms(2) show "envelope_bytes blake3 e \<noteq> []"
    and le: "length (envelope_bytes blake3 e) \<le> MAX_TELEMETRY_ENVELOPE_BYTES"
    by (auto simp: envelope_ok_def)
  from le show "unat (of_nat (length (envelope_bytes blake3 e)) :: u32) = length (envelope_bytes blake3 e)"
    by (intro unat_of_nat_u32) (simp add: envelope_consts)
qed

lemma decode_partition_entry:
  assumes "\<And>x. length (blake3 x) = 32" "partition_ok p" "cur_rest s = partition_entry blake3 p @ r"
  shows "rmap (apfst fst) (decode_partition blake3 fmts s) = Inr (p, cur_adv (length (partition_entry blake3 p)) s)"
proof -
  let ?e = "envelope_bytes blake3 (npa_envelope p)" and ?t = "transient_bytes p"
  note env = envelope_bytes_facts [OF assms(1), of "npa_envelope p"]
  have ok: "envelope_ok (npa_envelope p)" "length ?t < 2 ^ 32"
    using assms(2) by (auto simp: partition_ok_def)
  have dec: "envelope_decode blake3 ?e = Inr (npa_envelope p)"
    using assms(1,2) unfolding envelope_bytes_def by (intro envelope_decode_layout) (auto simp: partition_ok_def)
  have len: "cursor_bytes (cur_adv 24 s) (length ?e) ''telemetry envelope'' = Inr (?e, cur_adv (length ?e) (cur_adv 24 s))"
    using assms(3) env(1) [OF ok(1)]
    by (intro cursor_bytes_append [where r = "u32_le (of_nat (length ?t)) @ ?t @ r"])
       (simp_all add: partition_entry_def cur.rest_adv)
  have tlen: "unat (of_nat (length ?t) :: u32) = length ?t" "of_nat (length ?t) = (0 :: u32) \<longleftrightarrow> ?t = []"
    by (simp_all add: unat_of_nat_u32 [OF ok(2)] of_nat_u32_eq_0 [OF ok(2)])
  have tr: "?t \<noteq> [] \<Longrightarrow> cursor_bytes (cur_adv (28 + length ?e) s) (length ?t) ''transient context''
      = Inr (?t, cur_adv (length ?t) (cur_adv (28 + length ?e) s))"
    using assms(3) by (intro cursor_bytes_append [where r = r]) (simp_all add: partition_entry_def cur.rest_adv)
  have ctx: "npa_transient_context p = (if ?t = [] then None else Some ?t)"
    using assms(2) by (cases "npa_transient_context p") (auto simp: transient_bytes_def partition_ok_def)
  have n: "length (partition_entry blake3 p) = 28 + length ?e + length ?t"
    by (simp add: partition_entry_def)
  have rest: "cur_rest s = u128_le (topic_id (npa_topic_partition p)) @ u32_le (partition_id (npa_topic_partition p))
      @ u32_le (of_nat (length ?e)) @ ?e @ u32_le (of_nat (length ?t)) @ ?t @ r"
    using assms(3) by (simp add: partition_entry_def)
  have sig: "topic_id (npa_topic_partition p) = signal_topic_id (env_signal (npa_envelope p))"
    using assms(2) by (simp add: partition_ok_def)
  have "\<exists>ranges. decode_partition_with fmts (envelope_decode blake3) env_signal s
      = Inr (((npa_topic_partition p, npa_envelope p, npa_transient_context p), ranges),
          cur_adv (length (partition_entry blake3 p)) s)"
    unfolding decode_partition_with_def n ctx
    using len tr by (simp add: cursor_fixed_eq rest dec env(3) [OF ok(1)] tlen cur.rest_adv cur.adv_adv
      sig [symmetric] Let_def)
  then show ?thesis by (cases p) (auto simp: decode_partition_def)
qed

lemma decode_partition_sound:
  assumes "decode_partition blake3 fmts s = Inr ((p, ranges), s')"
  shows "partition_ok p \<and> s' = cur_adv (length (partition_entry blake3 p)) s
    \<and> (\<exists>r. cur_rest s = partition_entry blake3 p @ r)"
proof -
  from assms obtain t pid el c1 c2 c3 eb c4 e tl c5 tr where
    steps: "cursor_u128 s ''telemetry topic ID'' = Inr (t, c1)" "cursor_u32 c1 ''telemetry partition ID'' = Inr (pid, c2)"
      "cursor_u32 c2 ''telemetry envelope length'' = Inr (el, c3)"
    and eb: "cursor_bytes c3 (unat el) ''telemetry envelope'' = Inr (eb, c4)" "envelope_decode blake3 eb = Inr e"
    and tl: "cursor_u32 c4 ''transient context length'' = Inr (tl, c5)"
    and tr: "(if tl = 0 then Inr (None, c5) else rbind (cursor_bytes c5 (unat tl) ''transient context'')
        (\<lambda>(t, c). Inr (Some t, c))) = Inr (tr, s')"
    and p: "p = \<lparr>npa_topic_partition = TopicPartition t pid, npa_envelope = e, npa_transient_context = tr\<rparr>"
      "t = signal_topic_id (env_signal e)"
    by (auto simp: decode_partition_def decode_partition_with_def result_simps Let_def split: if_splits)
  note sound = u128_codec.get_sound [OF steps(1)] u32_codec.get_sound [OF steps(2)] u32_codec.get_sound [OF steps(3)]
    cursor_bytes_Inr [OF eb(1)] u32_codec.get_sound [OF tl]
  note rest = u128_codec.get_rest [OF steps(1)] u32_codec.get_rest [OF steps(2)] u32_codec.get_rest [OF steps(3)]
    u32_codec.get_rest [OF tl]
  from envelope_decode_Inr [OF eb(2)] have e: "envelope_ok e" "utf8_valid (env_tenant e)" "eb = envelope_bytes blake3 e"
    by (auto simp: envelope_bytes_def)
  have tb: "partition_ok p \<and> u32_le (of_nat (length (transient_bytes p))) = u32_le tl
      \<and> s' = cur_adv (length (transient_bytes p)) c5 \<and> cur_rest c5 = transient_bytes p @ cur_rest s'"
  proof (cases "tl = 0")
    case True
    with tr p e show ?thesis by (auto simp: partition_ok_def transient_bytes_def cur.adv_zero)
  next
    case False
    with tr obtain tb where tb: "cursor_bytes c5 (unat tl) ''transient context'' = Inr (tb, s')" "tr = Some tb"
      by (auto simp: result_simps)
    with cursor_bytes_Inr [OF tb(1)] False p e unsigned_less [of tl] show ?thesis
      by (auto simp: partition_ok_def transient_bytes_def unat_eq_0)
  qed
  have "cur_rest c3 = eb @ cur_rest c4" "u32_le (of_nat (length eb)) = u32_le el" using sound(4) by auto
  with rest tb e have "cur_rest s = partition_entry blake3 p @ cur_rest s'"
    by (simp add: partition_entry_def p(1))
  moreover have "s' = cur_adv (length (partition_entry blake3 p)) s"
    using sound tb e by (simp add: partition_entry_def p(1) cur.adv_adv)
  ultimately show ?thesis using tb by blast
qed

lemma partition_codec:
  assumes "\<And>x. length (blake3 x) = 32"
  shows "wire_codec cur_rest cur_adv (partition_entry blake3)
    (\<lambda>c. rmap (apfst fst) (decode_partition blake3 fmts c)) partition_ok"
proof (unfold_locales, goal_cases)
  case (1 p s r)
  then show ?case by (intro decode_partition_entry [OF assms])
next
  case (2 s p s')
  then obtain ranges where "decode_partition blake3 fmts s = Inr ((p, ranges), s')"
    by (auto simp: result_simps)
  then show ?case by (rule decode_partition_sound)
qed

section \<open>Whole batches\<close>

text \<open>The loop with duplicate detection is the plain loop plus distinctness of the partitions.\<close>

lemma get_many_unseen:
  "get_many n (decode_unseen tp step) (c, seen) = Inr (ps, c', seen') \<longleftrightarrow>
   get_many n step c = Inr (ps, c') \<and>
   (case seen of None \<Rightarrow> seen' = None
    | Some S \<Rightarrow> distinct (map (tp \<circ> fst) ps) \<and> set (map (tp \<circ> fst) ps) \<inter> S = {}
        \<and> seen' = Some (S \<union> set (map (tp \<circ> fst) ps)))"
proof (induction n arbitrary: c seen ps)
  case 0
  then show ?case by (auto split: option.splits)
next
  case (Suc n)
  show ?case
  proof (cases "step c")
    case (Inr x)
    obtain p rs c1 where x: "x = ((p, rs), c1)" by (metis prod.exhaust)
    have step: "decode_unseen tp step (c, sn) = (case sn of None \<Rightarrow> Inr ((p, rs), (c1, None))
       | Some S \<Rightarrow> if tp p \<in> S
           then Inl (NativeProtocolError ''native telemetry batch contains a duplicate partition'')
           else Inr ((p, rs), (c1, Some (insert (tp p) S))))" for sn
      by (auto simp: decode_unseen_def seen_insert_def Inr x Let_def split: option.splits)
    show ?thesis
      by (cases seen) (auto simp: step Inr x result_simps Suc.IH simp del: set_map, metis prod.exhaust)
  qed (simp add: decode_unseen_def)
qed

lemma slice_header: "length m = 4 \<Longrightarrow> slice 4 6 (m @ u16_le n @ 0 # 0 # r) = u16_le n"
  "length m = 4 \<Longrightarrow> slice 6 8 (m @ u16_le n @ 0 # 0 # r) = [0, 0]"
  by (simp_all add: slice_def)

lemma header_split:
  assumes "8 \<le> length payload" "slice 6 8 payload = [0, 0]"
  shows "payload = take 4 payload @ u16_le (from_le (slice 4 6 payload)) @ [0, 0] @ drop 8 payload"
proof -
  have "payload = take 4 payload @ slice 4 6 payload @ slice 6 8 payload @ drop 8 payload"
    by (simp add: slice_drop append_assoc [symmetric] slice_join flip: slice_zero)
  then show ?thesis using assms by (simp add: le_bytes_from_le)
qed

definition batch_frame :: "nat \<Rightarrow> bytes \<Rightarrow> bytes" where
  "batch_frame n body = TELEMETRY_BATCH_MAGIC @ u16_le (of_nat n) @ [0, 0] @ body"

lemma length_magics [simp]: "length TELEMETRY_BATCH_MAGIC = 4" "length TELEMETRY_ACK_MAGIC = 4"
  by (simp_all add: TELEMETRY_BATCH_MAGIC_def TELEMETRY_ACK_MAGIC_def)

lemma decode_partitions_Inr:
  "decode_partitions tp step payload = Inr ps \<longleftrightarrow>
   (\<exists>body c. payload = batch_frame (length ps) body \<and> 0 < length ps \<and> length ps \<le> 256
     \<and> get_many (length ps) step (cursor_at payload 8) = Inr (ps, c)
     \<and> cur_offset c = length (cur_bytes c) \<and> distinct (map (tp \<circ> fst) ps))"
  (is "?l \<longleftrightarrow> ?r")
proof
  assume ?l
  then obtain c S where hd: "8 \<le> length payload" "take 4 payload = TELEMETRY_BATCH_MAGIC" "slice 6 8 payload = [0, 0]"
    and n: "0 < unat (from_le (slice 4 6 payload) :: u16)" "unat (from_le (slice 4 6 payload) :: u16) \<le> 256"
    and loop: "get_many (unat (from_le (slice 4 6 payload) :: u16)) (decode_unseen tp step)
       (cursor_at payload 8, seen_new (unat (from_le (slice 4 6 payload) :: u16))) = Inr (ps, c, S)"
    and fin: "cur_offset c = length (cur_bytes c)"
    by (auto simp: decode_partitions_def batch_header_def result_simps cursor_finish_def split: if_splits)
  let ?n = "unat (from_le (slice 4 6 payload) :: u16)"
  from loop have g: "get_many ?n step (cursor_at payload 8) = Inr (ps, c)"
    and d: "?n > 1 \<Longrightarrow> distinct (map (tp \<circ> fst) ps)"
    by (auto simp: get_many_unseen seen_new_def split: if_splits)
  have len: "length ps = ?n" using length_get_many [OF g] by simp
  have "distinct (map (tp \<circ> fst) ps)"
  proof (cases "?n > 1")
    case False
    with n len have "length ps = 1" by linarith
    then show ?thesis by (cases ps) auto
  qed (rule d)
  moreover have "payload = batch_frame (length ps) (drop 8 payload)"
    using header_split [OF hd(1,3)] hd(2) by (simp add: batch_frame_def len)
  ultimately show ?r using n g fin len by auto
next
  assume ?r
  then obtain body c where b: "payload = batch_frame (length ps) body" "0 < length ps" "length ps \<le> 256"
    and g: "get_many (length ps) step (cursor_at payload 8) = Inr (ps, c)"
    and fin: "cur_offset c = length (cur_bytes c)" and d: "distinct (map (tp \<circ> fst) ps)" by auto
  have "unat (of_nat (length ps) :: u16) = length ps" using b(3) by (simp add: unat_of_nat)
  then have hd: "batch_header payload = Inr (length ps)" "slice 6 8 payload = [0, 0]"
    by (simp_all add: b(1) batch_header_def batch_frame_def slice_header)
  have "get_many (length ps) (decode_unseen tp step) (cursor_at payload 8, seen_new (length ps))
     = Inr (ps, c, if length ps > 1 then Some (set (map (tp \<circ> fst) ps)) else None)"
    using g d by (auto simp: get_many_unseen seen_new_def)
  with hd b(2,3) fin show ?l by (simp add: decode_partitions_def cursor_finish_def)
qed

text \<open>Which partitions encode, and what \<open>rfold\<close> of the writer produces.\<close>

definition partition_encodes :: "native_partition_append \<Rightarrow> bool" where
  "partition_encodes p \<longleftrightarrow> envelope_ok (npa_envelope p)
     \<and> topic_id (npa_topic_partition p) = signal_topic_id (env_signal (npa_envelope p))
     \<and> length (transient_bytes p) < 2 ^ 32"

lemma encode_partition_Inr:
  assumes "\<And>x. length (blake3 x) = 32"
  shows "encode_partition blake3 fmts p (seen, acc) = Inr (seen', acc') \<longleftrightarrow>
    partition_encodes p \<and> seen_insert (npa_topic_partition p) seen = (True, seen')
    \<and> acc' = acc @ partition_entry blake3 p"
proof -
  have enc: "envelope_encode blake3 (npa_envelope p) = Inr b \<longleftrightarrow>
      envelope_ok (npa_envelope p) \<and> b = envelope_bytes blake3 (npa_envelope p)" for b
    by (auto simp: envelope_encode_eq envelope_bytes_def envelope_ok_def)
  have len: "envelope_ok (npa_envelope p) \<Longrightarrow>
      usize_to_u32 (length (envelope_bytes blake3 (npa_envelope p))) = Some (of_nat (length (envelope_bytes blake3 (npa_envelope p))))"
    using envelope_bytes_facts(2) [of blake3 "npa_envelope p", OF assms]
    by (auto simp: usize_to_u32_def envelope_consts)
  show ?thesis
    using len
    by (auto simp: encode_partition_def Let_def result_simps enc partition_encodes_def usize_to_u32_def
        partition_entry_def transient_bytes_def split: if_splits prod.splits)
qed

lemma rfold_encode_partition:
  assumes "\<And>x. length (blake3 x) = 32"
  shows "rfold (encode_partition blake3 fmts) ps (seen, acc) = Inr (seen', acc') \<longleftrightarrow>
    (\<forall>p \<in> set ps. partition_encodes p) \<and> acc' = acc @ concat (map (partition_entry blake3) ps)
    \<and> (case seen of None \<Rightarrow> seen' = None
       | Some S \<Rightarrow> distinct (map npa_topic_partition ps) \<and> set (map npa_topic_partition ps) \<inter> S = {}
           \<and> seen' = Some (S \<union> set (map npa_topic_partition ps)))"
proof (induction ps arbitrary: seen acc)
  case Nil
  then show ?case by (auto split: option.splits)
next
  case (Cons p ps)
  show ?case
    by (cases seen) (auto simp: result_simps encode_partition_Inr [OF assms] Cons.IH seen_insert_def)
qed

lemma batch_encode_Inr:
  assumes "\<And>x. length (blake3 x) = 32"
  shows "batch_encode blake3 fmts b = Inr bs \<longleftrightarrow>
    (let ps = nb_partitions b in 0 < length ps \<and> length ps \<le> 256 \<and> (\<forall>p \<in> set ps. partition_encodes p)
     \<and> distinct (map npa_topic_partition ps) \<and> bs = batch_frame (length ps) (concat (map (partition_entry blake3) ps))
     \<and> length bs \<le> MAX_NATIVE_FRAME_BYTES)"
proof -
  have one: "distinct (map npa_topic_partition ps)" if "\<not> 1 < length ps" for ps
    using that by (cases ps rule: remdups_adj.cases) auto
  show ?thesis
    using one [of "nb_partitions b"]
    by (auto simp: batch_encode_def Let_def result_simps rfold_encode_partition [OF assms] seen_new_def
        batch_frame_def split: if_splits)
qed

lemma batch_frame_rest: "cur_rest (cursor_at (batch_frame n body) 8) = body"
  by (simp add: cur_rest_def cursor_at_def batch_frame_def)

lemma batch_decode_Inr:
  assumes "\<And>x. length (blake3 x) = 32"
  shows "batch_decode blake3 fmts bs = Inr b \<longleftrightarrow>
    (let ps = nb_partitions b in 0 < length ps \<and> length ps \<le> 256 \<and> (\<forall>p \<in> set ps. partition_ok p)
     \<and> distinct (map npa_topic_partition ps)
     \<and> bs = batch_frame (length ps) (concat (map (partition_entry blake3) ps)))"
    (is "?l \<longleftrightarrow> ?r")
proof
  note codec = partition_codec [of blake3 fmts, OF assms]
  assume ?l
  then obtain xs body c where b: "b = \<lparr>nb_partitions = map fst xs\<rparr>" and f: "bs = batch_frame (length xs) body"
    and n: "0 < length xs" "length xs \<le> 256" and d: "distinct (map (npa_topic_partition \<circ> fst) xs)"
    and g: "get_many (length xs) (decode_partition blake3 fmts) (cursor_at bs 8) = Inr (xs, c)"
    and fin: "cur_offset c = length (cur_bytes c)"
    by (auto simp: batch_decode_def batch_decode_impl_def result_simps decode_partitions_Inr)
  have "get_many (length xs) (\<lambda>c. rmap (apfst fst) (decode_partition blake3 fmts c)) (cursor_at bs 8) = Inr (map fst xs, c)"
    by (simp add: get_many_rmap g)
  from wire_codec.get_many_sound [OF codec this] obtain r where ok: "\<forall>p \<in> set (map fst xs). partition_ok p"
    and c: "c = cur_adv (length (concat (map (partition_entry blake3) (map fst xs)))) (cursor_at bs 8)"
    and body: "body = concat (map (partition_entry blake3) (map fst xs)) @ r"
    by (auto simp: f batch_frame_rest)
  have "r = []" using fin by (simp add: c cursor_at_def f batch_frame_def body)
  with b f n d ok body show ?r by (simp add: Let_def)
next
  note codec = partition_codec [of blake3 fmts, OF assms]
  assume r: ?r
  let ?ps = "nb_partitions b" and ?body = "concat (map (partition_entry blake3) (nb_partitions b))"
  have ok: "\<forall>p \<in> set ?ps. partition_ok p" and bs: "bs = batch_frame (length ?ps) ?body"
    and n: "0 < length ?ps" "length ?ps \<le> 256" "distinct (map npa_topic_partition ?ps)"
    using r by (auto simp: Let_def)
  have "get_many (length ?ps) (\<lambda>c. rmap (apfst fst) (decode_partition blake3 fmts c)) (cursor_at bs 8)
     = Inr (?ps, cur_adv (length ?body) (cursor_at bs 8))"
    by (rule wire_reader.get_many_enc [OF wire_codec.axioms(1) [OF codec] ok, where r = "[]"]) (simp add: bs batch_frame_rest)
  then obtain xs where xs: "get_many (length ?ps) (decode_partition blake3 fmts) (cursor_at bs 8)
      = Inr (xs, cur_adv (length ?body) (cursor_at bs 8))" "map fst xs = ?ps"
    by (cases "get_many (length ?ps) (decode_partition blake3 fmts) (cursor_at bs 8)") (auto simp: get_many_rmap)
  have len: "length ?ps = length xs" using xs(2) by (metis length_map)
  have "distinct (map (npa_topic_partition \<circ> fst) xs)" using n(3) xs(2) by (metis map_map)
  with xs(1) bs n(1,2) have "decode_partitions npa_topic_partition (decode_partition blake3 fmts) bs = Inr xs"
    unfolding decode_partitions_Inr len
    by (intro exI [of _ ?body] exI [of _ "cur_adv (length ?body) (cursor_at bs 8)"])
       (simp add: cursor_at_def batch_frame_def)
  then show ?l by (simp add: batch_decode_def batch_decode_impl_def xs(2))
qed

text \<open>The borrowed decoder against the owned one.\<close>

lemma decode_unseen_rmap:
  assumes "\<And>x. tp' (g x) = tp x"
  shows "decode_unseen tp' (\<lambda>c. rmap (apfst (apfst g)) (step c)) st
    = rmap (apfst (apfst g)) (decode_unseen tp step st)"
  by (cases "step (fst st)") (auto simp: decode_unseen_def assms split: prod.splits)

lemma decode_partitions_rmap:
  assumes "\<And>x. tp' (g x) = tp x"
  shows "decode_partitions tp' (\<lambda>c. rmap (apfst (apfst g)) (step c)) payload
    = rmap (map (apfst g)) (decode_partitions tp step payload)"
proof -
  have "get_many n (decode_unseen tp' (\<lambda>c. rmap (apfst (apfst g)) (step c))) st
      = rmap (apfst (map (apfst g))) (get_many n (decode_unseen tp step) st)" for n st
    by (simp add: decode_unseen_rmap [of tp' g tp, OF assms, abs_def] get_many_rmap)
  then show ?thesis
    unfolding decode_partitions_def rmap_rbind
    by (intro rbind_cong) (auto simp: rmap_rbind rbind_rmap intro!: rbind_cong)
qed

lemma decode_partition_range:
  assumes "decode_partition blake3 fmts c = Inr ((p, (s, e), t), c')"
  shows "cur_bytes c' = cur_bytes c \<and> s \<le> e \<and> e \<le> length (cur_bytes c)
    \<and> envelope_decode blake3 (slice s e (cur_bytes c)) = Inr (npa_envelope p)
    \<and> npa_transient_context p = map_option (\<lambda>(a, b). slice a b (cur_bytes c)) t"
  using assms
  by (auto simp: decode_partition_def decode_partition_with_def result_simps Let_def cursor_fixed_eq
      cursor_bytes_def split: if_splits)

lemma decode_partitions_ranges:
  "get_many n (decode_partition blake3 fmts) c = Inr (xs, c') \<Longrightarrow>
   list_all (\<lambda>(p, (s, e), t). s \<le> e \<and> e \<le> length (cur_bytes c)
     \<and> envelope_decode blake3 (slice s e (cur_bytes c)) = Inr (npa_envelope p)
     \<and> npa_transient_context p = map_option (\<lambda>(a, b). slice a b (cur_bytes c)) t) xs"
proof (induction n arbitrary: c xs)
  case (Suc n)
  then obtain p s e t c1 ys where p: "decode_partition blake3 fmts c = Inr ((p, (s, e), t), c1)"
    and ys: "get_many n (decode_partition blake3 fmts) c1 = Inr (ys, c')" "xs = (p, (s, e), t) # ys"
    by (auto simp: result_simps)
  with Suc.IH [OF ys(1)] decode_partition_range [OF p] show ?case by simp
qed simp

definition drop_empty_context :: "native_partition_append \<Rightarrow> native_partition_append" where
  "drop_empty_context p = (if npa_transient_context p = Some [] then p\<lparr>npa_transient_context := None\<rparr> else p)"

lemma drop_empty_context_simps [simp]:
  "npa_topic_partition (drop_empty_context p) = npa_topic_partition p"
  "npa_envelope (drop_empty_context p) = npa_envelope p"
  "transient_bytes (drop_empty_context p) = transient_bytes p"
  "npa_transient_context (drop_empty_context p) \<noteq> Some []"
  by (simp_all add: drop_empty_context_def transient_bytes_def)

lemma drop_empty_context_entry [simp]: "partition_entry blake3 (drop_empty_context p) = partition_entry blake3 p"
  by (simp add: partition_entry_def)

lemma decode_partitions_single:
  "decode_partitions tp step payload = Inr [x] \<longleftrightarrow>
      (\<exists>c. batch_header payload = Inr 1 \<and> slice 6 8 payload = [0, 0]
        \<and> step (cursor_at payload 8) = Inr (x, c) \<and> cursor_finish c = Inr ())"
  by (cases x) (auto simp: decode_partitions_def result_simps seen_new_def decode_unseen_def seen_insert_def
        get_many_single split: if_splits)

lemma batch_decodes_back:
  assumes "\<And>x. length (blake3 x) = 32"
    and "\<forall>p \<in> set (nb_partitions b). utf8_valid (env_tenant (npa_envelope p))"
    and "batch_encode blake3 fmts b = Inr bs"
  shows "batch_decode blake3 fmts bs = Inr \<lparr>nb_partitions = map drop_empty_context (nb_partitions b)\<rparr>"
proof -
  have "npa_topic_partition \<circ> drop_empty_context = npa_topic_partition"
    "partition_entry blake3 \<circ> drop_empty_context = partition_entry blake3"
    by (simp_all add: fun_eq_iff)
  then show ?thesis
    using assms(2,3) unfolding batch_decode_Inr [of blake3, OF assms(1)] batch_encode_Inr [of blake3, OF assms(1)]
    by (auto simp: Let_def partition_ok_def partition_encodes_def)
qed

lemma append_decodes_back:
  assumes "\<And>x. length (blake3 x) = 32"
    and "\<forall>p \<in> set (nb_partitions b). utf8_valid (env_tenant (npa_envelope p))"
    and "encode_native_append blake3 fmts b = Inr bs"
  shows "decode_native_append blake3 fmts bs = Inr \<lparr>nb_partitions = map drop_empty_context (nb_partitions b)\<rparr>"
  using assms(3) batch_decodes_back [of blake3, OF assms(1,2)]
  by (simp add: encode_native_append_def decode_native_append_def split: if_splits)

text \<open>A two-partition batch used as a concrete instance.\<close>

definition plain_formats :: core_formats where
  "plain_formats = \<lparr>fmt_shard_id = \<lambda>s. dec_digits (unat s), fmt_logical_offset = \<lambda>l. dec_digits (unat l),
     fmt_topic_partition = \<lambda>p. dec_digits (unat (partition_id p))\<rparr>"

definition sample_batch :: native_telemetry_batch where
  "sample_batch = \<lparr>nb_partitions =
     [\<lparr>npa_topic_partition = TopicPartition LOGS_TOPIC_ID 3,
       npa_envelope = \<lparr>env_signal = Logs, env_tenant = [0x61], env_item_count = 2,
         env_routing_metadata = [7], env_payload = [1, 2]\<rparr>, npa_transient_context = None\<rparr>,
      \<lparr>npa_topic_partition = TopicPartition METRICS_TOPIC_ID 0,
       npa_envelope = \<lparr>env_signal = Metrics, env_tenant = [0x62], env_item_count = 1,
         env_routing_metadata = [], env_payload = [3]\<rparr>, npa_transient_context = Some [9, 9]\<rparr>]\<rparr>"

definition sample_hash :: "bytes \<Rightarrow> bytes" where
  "sample_hash x = replicate 32 (of_nat (length x))"

definition sample_wire :: bytes where
  "sample_wire = batch_frame (length (nb_partitions sample_batch)) (concat (map (partition_entry sample_hash) (nb_partitions sample_batch)))"

lemma length_sample_hash: "length (sample_hash x) = 32" by (simp add: sample_hash_def)

lemma length_sample_wire: "length sample_wire = 200"
  by (simp add: sample_wire_def sample_batch_def batch_frame_def partition_entry_def envelope_bytes_def
      length_envelope_layout sample_hash_def transient_bytes_def envelope_consts)

lemma sample_batch_encodes: "batch_encode sample_hash fmts sample_batch = Inr sample_wire"
  using length_sample_wire
  by (subst batch_encode_Inr [OF length_sample_hash])
     (simp add: Let_def sample_wire_def sample_batch_def partition_encodes_def envelope_ok_def
       transient_bytes_def envelope_consts frame_consts LOGS_TOPIC_ID_def METRICS_TOPIC_ID_def)

lemma sample_batch_decodes: "batch_decode sample_hash fmts sample_wire = Inr sample_batch"
  by (subst batch_decode_Inr [OF length_sample_hash])
     (simp add: Let_def sample_wire_def sample_batch_def partition_ok_def envelope_ok_def
       transient_bytes_def envelope_consts LOGS_TOPIC_ID_def METRICS_TOPIC_ID_def)

lemma sample_batch_ranges:
  "\<exists>ranges. decode_with_envelope_ranges sample_hash fmts sample_wire = Inr (sample_batch, ranges)"
  using sample_batch_decodes [of fmts]
  by (auto simp: batch_decode_def batch_decode_impl_def decode_with_envelope_ranges_def result_simps)

section \<open>Properties\<close>

text \<open>
  C29: a batch survives the wire. Every batch that encodes decodes to the same partitions in the same
  order, an empty transient context being the same as none.
\<close>

theorem batch_roundtrip:
  assumes "\<And>x. length (blake3 x) = 32"
    and "\<forall>p \<in> set (nb_partitions b). utf8_valid (env_tenant (npa_envelope p))"
    and "batch_encode blake3 fmts b = Inr bs"
  shows "batch_decode blake3 fmts bs = Inr \<lparr>nb_partitions = map drop_empty_context (nb_partitions b)\<rparr>"
  using batch_decodes_back [of blake3, OF assms] .

theorem batch_roundtrip_witness:
  "\<exists>bs. batch_encode sample_hash plain_formats sample_batch = Inr bs
     \<and> batch_decode sample_hash plain_formats bs = Inr sample_batch"
proof -
  have "batch_decode sample_hash plain_formats sample_wire
      = Inr \<lparr>nb_partitions = map drop_empty_context (nb_partitions sample_batch)\<rparr>"
    by (rule batch_roundtrip [OF length_sample_hash _ sample_batch_encodes]) (simp add: sample_batch_def)
  then show ?thesis
    using sample_batch_encodes by (auto simp: sample_batch_def drop_empty_context_def)
qed

text \<open>
  C31: the batch format is canonical. A payload within the frame limit that decodes is exactly what the
  encoder produces for the decoded batch; in particular its partitions are distinct, between one and
  256, and each carries the topic of its envelope's signal.
\<close>

theorem batch_canonical:
  assumes "\<And>x. length (blake3 x) = 32" and "length bs \<le> MAX_NATIVE_FRAME_BYTES"
    and "batch_decode blake3 fmts bs = Inr b"
  shows "batch_encode blake3 fmts b = Inr bs \<and> distinct (map npa_topic_partition (nb_partitions b))
    \<and> length (nb_partitions b) \<in> {1..256}
    \<and> list_all (\<lambda>p. topic_id (npa_topic_partition p) = signal_topic_id (env_signal (npa_envelope p))) (nb_partitions b)"
  using assms(2,3) unfolding batch_decode_Inr [of blake3, OF assms(1)] batch_encode_Inr [of blake3, OF assms(1)]
  by (auto simp: Let_def partition_ok_def partition_encodes_def list_all_iff Suc_le_eq)

theorem batch_canonical_witness:
  "batch_encode sample_hash plain_formats sample_batch = Inr sample_wire
     \<and> length (nb_partitions sample_batch) \<in> {1..256}"
proof -
  have "length sample_wire \<le> MAX_NATIVE_FRAME_BYTES" by (simp add: length_sample_wire frame_consts)
  from batch_canonical [OF length_sample_hash this sample_batch_decodes] show ?thesis by blast
qed

text \<open>
  The zero-copy decoders agree with the owning ones. The multi-partition view decoder returns, for
  every payload and with the same errors, the views and ranges of the owned batch; the single-append view
  decoder accepts exactly the one-partition batches, with the same view and ranges.
\<close>

lemma views_agree:
  "decode_native_append_views_with_ranges blake3 fmts payload
     = rmap (apfst (\<lambda>b. map append_view (nb_partitions b))) (decode_with_envelope_ranges blake3 fmts payload)
   \<and> (decode_native_append_view_with_ranges blake3 fmts payload = Inr (v, ranges) \<longleftrightarrow>
       (\<exists>p. decode_with_envelope_ranges blake3 fmts payload = Inr (\<lparr>nb_partitions = [p]\<rparr>, [ranges])
          \<and> v = append_view p))"
proof
  have tp: "npv_topic_partition (append_view x) = npa_topic_partition x" for x by (simp add: append_view_def)
  show "decode_native_append_views_with_ranges blake3 fmts payload
     = rmap (apfst (\<lambda>b. map append_view (nb_partitions b))) (decode_with_envelope_ranges blake3 fmts payload)"
    unfolding decode_native_append_views_with_ranges_def decode_partition_view_eq [abs_def]
      decode_partitions_rmap [of npv_topic_partition append_view npa_topic_partition, OF tp]
      decode_with_envelope_ranges_def batch_decode_impl_def
    by (cases "decode_partitions npa_topic_partition (decode_partition blake3 fmts) payload") auto
  have "decode_native_append_view_with_ranges blake3 fmts payload = Inr (v, ranges) \<longleftrightarrow>
      (\<exists>c p. batch_header payload = Inr 1 \<and> slice 6 8 payload = [0, 0] \<and> cursor_finish c = Inr ()
        \<and> decode_partition blake3 fmts (cursor_at payload 8) = Inr ((p, ranges), c) \<and> v = append_view p)"
    by (cases ranges)
       (auto simp: decode_native_append_view_with_ranges_def result_simps decode_partition_view_eq split: if_splits)
  also have "\<dots> \<longleftrightarrow> (\<exists>p. decode_partitions npa_topic_partition (decode_partition blake3 fmts) payload = Inr [(p, ranges)]
       \<and> v = append_view p)"
    unfolding decode_partitions_single by blast
  also have "\<dots> \<longleftrightarrow> (\<exists>p. decode_with_envelope_ranges blake3 fmts payload = Inr (\<lparr>nb_partitions = [p]\<rparr>, [ranges])
       \<and> v = append_view p)"
    by (cases ranges)
       (auto simp: decode_with_envelope_ranges_def batch_decode_impl_def result_simps map_eq_Cons_conv)
  finally show "decode_native_append_view_with_ranges blake3 fmts payload = Inr (v, ranges) \<longleftrightarrow>
       (\<exists>p. decode_with_envelope_ranges blake3 fmts payload = Inr (\<lparr>nb_partitions = [p]\<rparr>, [ranges])
          \<and> v = append_view p)" .
qed



text \<open>
  Acknowledgements are exact: a byte string decodes to an acknowledgement if and only if it is that
  acknowledgement's encoding.
\<close>

lemma ack_exact: "ack_decode bs = Inr a \<longleftrightarrow> ack_encode a = Inr bs"
proof
  assume "ack_decode bs = Inr a"
  then obtain c where hd: "8 \<le> length bs" "take 4 bs = TELEMETRY_ACK_MAGIC" "slice 6 8 bs = [0, 0]"
    and n: "unat (from_le (slice 4 6 bs) :: u16) \<le> 256" "length bs = 8 + unat (from_le (slice 4 6 bs) :: u16) * 36"
    and g: "get_many (unat (from_le (slice 4 6 bs) :: u16)) decode_ack_entry (cursor_at bs 8) = Inr (ack_partitions a, c)"
    by (auto simp: ack_decode_def Let_def result_simps split: if_splits)
  from ack_codec.get_many_sound [OF g] obtain r where len: "length (ack_partitions a) = unat (from_le (slice 4 6 bs) :: u16)"
    and r: "drop 8 bs = concat (map ack_entry (ack_partitions a)) @ r"
    by (auto simp: cur_rest_def cursor_at_def)
  from arg_cong [OF r, of length] n(2) have "r = []" by (simp add: length_ack_entries len)
  with r header_split [OF hd(1,3)] hd(2) n(1) show "ack_encode a = Inr bs"
    by (simp add: ack_encode_def len)
next
  assume enc: "ack_encode a = Inr bs"
  let ?ps = "ack_partitions a"
  from enc have n: "length ?ps \<le> 256" and bs: "bs = TELEMETRY_ACK_MAGIC @ u16_le (of_nat (length ?ps)) @ 0 # 0 # concat (map ack_entry ?ps)"
    by (auto simp: ack_encode_def split: if_splits)
  have u: "unat (of_nat (length ?ps) :: u16) = length ?ps" using n by (simp add: unat_of_nat)
  have "get_many (length ?ps) decode_ack_entry (cursor_at bs 8)
      = Inr (?ps, cur_adv (length (concat (map ack_entry ?ps))) (cursor_at bs 8))"
    by (rule ack_codec.get_many_enc [where r = "[]"]) (simp_all add: bs cur_rest_def cursor_at_def)
  then show "ack_decode bs = Inr a"
    using n by (simp add: ack_decode_def bs slice_header u length_ack_entries cursor_finish_def Let_def)
       (simp add: cursor_at_def length_ack_entries)
qed

end
