(* ===== verification/NativeQuery.thy ===== *)
theory NativeQuery
  imports NativeWire
begin

text \<open>
  Query messages of the native protocol (\<^verbatim>\<open>src/src/native_protocol/query_codec.rs\<close> and
  \<^verbatim>\<open>validate_query\<close> of \<^verbatim>\<open>wire.rs\<close>): the indexed log query with its own layout, and the tagged
  MessagePack messages. MessagePack itself (crate \<^verbatim>\<open>rmp_serde\<close>) is a pair of arguments, a writer and a
  reader; their errors are the texts they print.
\<close>

definition QUERY_MAGIC :: bytes where "QUERY_MAGIC = [0x53, 0x54, 0x51, 0x31]"
definition METRIC_QUERY_MAGIC :: bytes where "METRIC_QUERY_MAGIC = [0x53, 0x54, 0x51, 0x32]"
definition TRACE_QUERY_MAGIC :: bytes where "TRACE_QUERY_MAGIC = [0x53, 0x54, 0x51, 0x33]"
definition METRIC_QUERY_RESULT_MAGIC :: bytes where "METRIC_QUERY_RESULT_MAGIC = [0x53, 0x54, 0x52, 0x32]"
definition TRACE_QUERY_RESULT_MAGIC :: bytes where "TRACE_QUERY_RESULT_MAGIC = [0x53, 0x54, 0x52, 0x33]"
definition CAPABILITIES_MAGIC :: bytes where "CAPABILITIES_MAGIC = [0x53, 0x54, 0x43, 0x31]"
definition QUERY_HEADER_BYTES :: nat where "QUERY_HEADER_BYTES = 32"
definition MAX_LABELS_PER_STREAM :: nat where "MAX_LABELS_PER_STREAM = 256"
definition MAX_QUERY_TERMS :: nat where "MAX_QUERY_TERMS = 256"
definition MAX_QUERY_LIMIT :: u32 where "MAX_QUERY_LIMIT = 1000000"

lemmas query_consts = QUERY_MAGIC_def QUERY_HEADER_BYTES_def MAX_LABELS_PER_STREAM_def
  MAX_QUERY_TERMS_def MAX_QUERY_LIMIT_def

section \<open>Tagged MessagePack messages\<close>

definition encode_messagepack ::
  "('a \<Rightarrow> string + bytes) \<Rightarrow> bytes \<Rightarrow> 'a \<Rightarrow> string \<Rightarrow> native_error + bytes" where
  "encode_messagepack write magic value kind =
     rbind (map_err (\<lambda>e. NativeProtocolError (''native '' @ kind @ '' encoding failed: '' @ e)) (write value)) (\<lambda>body.
       let payload = magic @ body in
       if length payload > MAX_NATIVE_FRAME_BYTES
       then Inl (NativeProtocolError (''native '' @ kind @ '' exceeds the frame limit''))
       else Inr payload)"

definition decode_messagepack ::
  "(bytes \<Rightarrow> string + 'a) \<Rightarrow> bytes \<Rightarrow> bytes \<Rightarrow> string \<Rightarrow> native_error + 'a" where
  "decode_messagepack read magic payload kind =
     (if take (length magic) payload \<noteq> magic then Inl (NativeProtocolError (''invalid native '' @ kind @ '' magic''))
      else map_err (\<lambda>e. NativeProtocolError (''invalid native '' @ kind @ '': '' @ e)) (read (drop (length magic) payload)))"

definition encode_native_metric_query where
  "encode_native_metric_query write q = encode_messagepack write METRIC_QUERY_MAGIC q ''metric query''"
definition decode_native_metric_query where
  "decode_native_metric_query read p = decode_messagepack read METRIC_QUERY_MAGIC p ''metric query''"
definition encode_native_metric_query_result where
  "encode_native_metric_query_result write r = encode_messagepack write METRIC_QUERY_RESULT_MAGIC r ''metric query result''"
definition decode_native_metric_query_result where
  "decode_native_metric_query_result read p = decode_messagepack read METRIC_QUERY_RESULT_MAGIC p ''metric query result''"
definition encode_native_trace_query where
  "encode_native_trace_query write q = encode_messagepack write TRACE_QUERY_MAGIC q ''trace query''"
definition decode_native_trace_query where
  "decode_native_trace_query read p = decode_messagepack read TRACE_QUERY_MAGIC p ''trace query''"
definition encode_native_trace_query_result where
  "encode_native_trace_query_result write r = encode_messagepack write TRACE_QUERY_RESULT_MAGIC r ''trace query result''"
definition decode_native_trace_query_result where
  "decode_native_trace_query_result read p = decode_messagepack read TRACE_QUERY_RESULT_MAGIC p ''trace query result''"
definition encode_native_capabilities where
  "encode_native_capabilities write c = encode_messagepack write CAPABILITIES_MAGIC c ''capabilities''"
definition decode_native_capabilities where
  "decode_native_capabilities read p = decode_messagepack read CAPABILITIES_MAGIC p ''capabilities''"

section \<open>Indexed log queries\<close>

datatype native_query_direction = OldestFirst | NewestFirst

record native_query =
  nq_tenant :: bytes
  nq_labels :: "(bytes, bytes) btree"
  nq_terms :: "bytes list"
  nq_start :: "u64 option"
  nq_end :: "u64 option"
  nq_limit :: u32
  nq_direction :: native_query_direction

definition validate_label :: "bytes \<times> bytes \<Rightarrow> unit \<Rightarrow> native_error + unit" where
  "validate_label kv _ =
     (if fst kv = [] then Inl (NativeProtocolError ''native query label keys must not be empty'')
      else rbind (validate_string16 (fst kv) ''query label key'') (\<lambda>_.
           validate_string16 (snd kv) ''query label value''))"

definition validate_term :: "bytes \<Rightarrow> unit \<Rightarrow> native_error + unit" where
  "validate_term t _ =
     (if t = [] then Inl (NativeProtocolError ''native query terms must not be empty'')
      else validate_string16 t ''query term'')"

definition validate_query :: "native_query \<Rightarrow> native_error + unit" where
  "validate_query q =
     rbind (validate_tenant (nq_tenant q)) (\<lambda>_.
     if length (nq_labels q) > MAX_LABELS_PER_STREAM then
       Inl (NativeProtocolError ''native query contains too many labels'')
     else if length (nq_terms q) > MAX_QUERY_TERMS then
       Inl (NativeProtocolError ''native query contains too many terms'')
     else if nq_limit q = 0 \<or> nq_limit q > MAX_QUERY_LIMIT then
       Inl (NativeProtocolError (''native query limit must be in 1..='' @ dec_digits (unat MAX_QUERY_LIMIT)))
     else if (case (nq_start q, nq_end q) of (Some s, Some e) \<Rightarrow> s \<ge> e | _ \<Rightarrow> False) then
       Inl (NativeProtocolError ''native query timestamp range must be nonempty'')
     else rbind (rfold validate_label (nq_labels q) ()) (\<lambda>_.
          rfold validate_term (nq_terms q) ()))"

definition put_label :: "string \<Rightarrow> string \<Rightarrow> bytes \<times> bytes \<Rightarrow> bytes \<Rightarrow> native_error + bytes" where
  "put_label kfield vfield kv encoded =
     rbind (put_string16 encoded (fst kv) kfield) (\<lambda>encoded. put_string16 encoded (snd kv) vfield)"

definition put_term :: "bytes \<Rightarrow> bytes \<Rightarrow> native_error + bytes" where
  "put_term t encoded = put_string16 encoded t ''query term''"

fun direction_byte :: "native_query_direction \<Rightarrow> u8" where
  "direction_byte OldestFirst = 0"
| "direction_byte NewestFirst = 1"

definition encode_native_query :: "native_query \<Rightarrow> native_error + bytes" where
  "encode_native_query q =
     rbind (validate_query q) (\<lambda>_.
     rbind (put_u16 QUERY_MAGIC (length (nq_tenant q)) ''query tenant'') (\<lambda>encoded.
     rbind (put_u16 encoded (length (nq_labels q)) ''query label count'') (\<lambda>encoded.
     rbind (put_u16 encoded (length (nq_terms q)) ''query term count'') (\<lambda>encoded.
     let encoded = encoded @ [direction_byte (nq_direction q)] @ [0] @ u32_le (nq_limit q)
           @ u64_le (case nq_start q of None \<Rightarrow> u64_max | Some s \<Rightarrow> s)
           @ u64_le (case nq_end q of None \<Rightarrow> u64_max | Some e \<Rightarrow> e) @ nq_tenant q in
     rbind (rfold (put_label ''query label key'' ''query label value'') (nq_labels q) encoded) (\<lambda>encoded.
     rfold put_term (nq_terms q) encoded)))))"

text \<open>
  The label loop, which three message formats share: every pair is read, empty keys and keys that are
  already present are refused.
\<close>

fun decode_labels ::
  "string \<Rightarrow> string \<Rightarrow> string \<Rightarrow> nat \<Rightarrow> cursor \<Rightarrow> (bytes, bytes) btree
   \<Rightarrow> native_error + (bytes, bytes) btree \<times> cursor" where
  "decode_labels kfield vfield err 0 c m = Inr (m, c)"
| "decode_labels kfield vfield err (Suc n) c m =
     rbind (cursor_string16 c kfield) (\<lambda>(k, c).
     rbind (cursor_string16 c vfield) (\<lambda>(v, c).
     if k = [] \<or> map_of m k \<noteq> None then Inl (NativeProtocolError err)
     else decode_labels kfield vfield err n c (btree_insert k v m)))"

definition decode_term :: "cursor \<Rightarrow> native_error + bytes \<times> cursor" where
  "decode_term c =
     rbind (cursor_string16 c ''query term'') (\<lambda>(t, c).
       if t = [] then Inl (NativeProtocolError ''native query terms must not be empty'') else Inr (t, c))"

definition decode_native_query :: "bytes \<Rightarrow> native_error + native_query" where
  "decode_native_query payload =
     (if length payload < QUERY_HEADER_BYTES \<or> take 4 payload \<noteq> QUERY_MAGIC then
        Inl (NativeProtocolError ''invalid native query header'')
      else
      let tenant_len = unat (from_le (slice 4 6 payload) :: u16);
          label_count = unat (from_le (slice 6 8 payload) :: u16);
          term_count = unat (from_le (slice 8 10 payload) :: u16) in
      rbind (if payload ! 10 = 0 then Inr OldestFirst else if payload ! 10 = 1 then Inr NewestFirst
             else Inl (NativeProtocolError (''unsupported native query direction '' @ dec_digits (unat (payload ! 10)))))
        (\<lambda>direction.
      if payload ! 11 \<noteq> 0 then Inl (NativeProtocolError ''native query reserved byte must be zero'')
      else
      let limit = from_le (slice 12 16 payload) :: u32;
          start = from_le (slice 16 24 payload) :: u64;
          end = from_le (slice 24 32 payload) :: u64 in
      rbind (cursor_string (cursor_at payload QUERY_HEADER_BYTES) tenant_len ''query tenant'') (\<lambda>(tenant, c).
      rbind (decode_labels ''query label key'' ''query label value''
               ''native query contains an empty or duplicate label'' label_count c []) (\<lambda>(labels, c).
      rbind (get_many term_count decode_term c) (\<lambda>(terms, c).
      rbind (cursor_finish c) (\<lambda>_.
      let query = \<lparr>nq_tenant = tenant, nq_labels = labels, nq_terms = terms,
            nq_start = (if start \<noteq> u64_max then Some start else None),
            nq_end = (if end \<noteq> u64_max then Some end else None),
            nq_limit = limit, nq_direction = direction\<rparr> in
      rbind (validate_query query) (\<lambda>_. Inr query)))))))"

section \<open>Label maps on the wire\<close>

abbreviation label_enc :: "bytes \<times> bytes \<Rightarrow> bytes" where "label_enc \<equiv> enc_pair string16 string16"

definition labels_ok :: "(bytes, bytes) btree \<Rightarrow> bool" where
  "labels_ok m \<longleftrightarrow> btree_ok m \<and> (\<forall>kv \<in> set m. fst kv \<noteq> [] \<and> string16_ok (fst kv) \<and> string16_ok (snd kv))"

lemma put_label_Inr:
  "put_label kf vf kv acc = Inr acc' \<longleftrightarrow>
     length (fst kv) < 2 ^ 16 \<and> length (snd kv) < 2 ^ 16 \<and> acc' = acc @ label_enc kv"
  by (auto simp: put_label_def put_string16_eq enc_pair_def result_simps)

lemma rfold_put_label:
  "rfold (put_label kf vf) m acc = Inr acc' \<longleftrightarrow>
     (\<forall>kv \<in> set m. length (fst kv) < 2 ^ 16 \<and> length (snd kv) < 2 ^ 16)
     \<and> acc' = acc @ concat (map label_enc m)"
  by (induction m arbitrary: acc) (auto simp: result_simps put_label_Inr simp del: One_nat_def)

lemma rfold_put_term:
  "rfold put_term ts acc = Inr acc' \<longleftrightarrow>
     (\<forall>t \<in> set ts. length t < 2 ^ 16) \<and> acc' = acc @ concat (map string16 ts)"
  by (induction ts arbitrary: acc) (auto simp: result_simps put_term_def put_string16_eq)

lemma decode_labels_pair:
  "decode_labels kf vf err (Suc n) c m =
     rbind (get_pair (\<lambda>c. cursor_string16 c kf) (\<lambda>c. cursor_string16 c vf) c) (\<lambda>((k, v), c).
       if k = [] \<or> map_of m k \<noteq> None then Inl (NativeProtocolError err)
       else decode_labels kf vf err n c (btree_insert k v m))"
  by (cases "cursor_string16 c kf") (auto simp: get_pair_def rbind_assoc intro!: rbind_cong)

lemma labels_ok_split:
  assumes "labels_ok (m1 @ (k, v) # m2)"
  shows "k \<noteq> [] \<and> string16_ok k \<and> string16_ok v \<and> map_of m1 k = None \<and> btree_insert k v m1 = m1 @ [(k, v)]"
proof -
  have lt: "\<forall>k' \<in> fst ` set m1. k' < k"
    using assms by (auto simp: labels_ok_def btree_ok_def sorted_wrt_append)
  then have "map_of m1 k = None" by (auto simp: map_of_eq_None_iff)
  with lt assms show ?thesis by (simp add: labels_ok_def btree_insert_last)
qed

lemma decode_labels_enc:
  assumes "labels_ok (m1 @ m2)" "cur_rest c = concat (map label_enc m2) @ r"
  shows "decode_labels kf vf err (length m2) c m1
     = Inr (m1 @ m2, cur_adv (length (concat (map label_enc m2))) c)"
  using assms
proof (induction m2 arbitrary: m1 c)
  case Nil
  then show ?case by (simp add: cur.adv_zero)
next
  case (Cons kv m2)
  obtain k v where kv: "kv = (k, v)" by (cases kv)
  note ok = labels_ok_split [OF Cons.prems(1) [unfolded kv]]
  have get: "get_pair (\<lambda>c. cursor_string16 c kf) (\<lambda>c. cursor_string16 c vf) c
      = Inr ((k, v), cur_adv (length (label_enc (k, v))) c)"
    using ok Cons.prems(2) kv by (intro label_codec.pair.get_enc) auto
  have "decode_labels kf vf err (length m2) (cur_adv (length (label_enc kv)) c) (m1 @ [kv])
      = Inr ((m1 @ [kv]) @ m2, cur_adv (length (concat (map label_enc m2))) (cur_adv (length (label_enc kv)) c))"
    using Cons.prems by (intro Cons.IH) (auto simp: cur.rest_adv)
  with get ok show ?case by (simp add: decode_labels_pair kv cur.adv_adv del: decode_labels.simps(2))
qed

lemma labels_ok_insert:
  assumes "labels_ok m" "k \<noteq> []" "string16_ok k" "string16_ok v"
  shows "labels_ok (btree_insert k v m)"
proof -
  have "set (btree_insert k v m) \<subseteq> insert (k, v) (set m)"
    by (induction k v m rule: btree_insert.induct) auto
  with assms show ?thesis by (fastforce simp: labels_ok_def)
qed

lemma length_btree_insert: "map_of m k = None \<Longrightarrow> length (btree_insert k v m) = Suc (length m)"
  by (induction k v m rule: btree_insert.induct) (auto split: if_splits)

lemma decode_labels_sound:
  "decode_labels kf vf err n c m = Inr (m', c') \<Longrightarrow> labels_ok m \<Longrightarrow>
   labels_ok m' \<and> length m' = length m + n"
proof (induction n arbitrary: c m)
  case (Suc n)
  then obtain k v c1 c2 where k: "cursor_string16 c kf = Inr (k, c1)" and v: "cursor_string16 c1 vf = Inr (v, c2)"
    and new: "k \<noteq> []" "map_of m k = None"
    and rest: "decode_labels kf vf err n c2 (btree_insert k v m) = Inr (m', c')"
    by (auto simp: result_simps split: if_splits)
  have "string16_ok k" "string16_ok v"
    using string16_codec.get_sound [OF k] string16_codec.get_sound [OF v] by auto
  with Suc.IH [OF rest] Suc.prems(2) new show ?case
    by (auto simp: labels_ok_insert length_btree_insert)
qed simp

interpretation term_codec: wire_codec cur_rest cur_adv string16 decode_term
    "\<lambda>t. string16_ok t \<and> t \<noteq> []"
proof (unfold_locales, goal_cases)
  case (1 t s r)
  then show ?case using string16_codec.get_enc [of t s r "''query term''"] by (simp add: decode_term_def)
next
  case (2 s t s')
  then have "cursor_string16 s ''query term'' = Inr (t, s')" "t \<noteq> []"
    by (auto simp: decode_term_def result_simps split: if_splits)
  with string16_codec.get_sound [OF this(1)] show ?case by simp
qed

section \<open>The query codec\<close>

definition query_text_ok :: "native_query \<Rightarrow> bool" where
  "query_text_ok q \<longleftrightarrow> utf8_valid (nq_tenant q) \<and> btree_ok (nq_labels q)
     \<and> (\<forall>kv \<in> set (nq_labels q). utf8_valid (fst kv) \<and> utf8_valid (snd kv)) \<and> (\<forall>t \<in> set (nq_terms q). utf8_valid t)"

definition drop_max :: "u64 option \<Rightarrow> u64 option" where
  "drop_max v = (if v = Some u64_max then None else v)"

definition query_layout :: "native_query \<Rightarrow> bytes" where
  "query_layout q = QUERY_MAGIC @ u16_le (of_nat (length (nq_tenant q))) @ u16_le (of_nat (length (nq_labels q)))
     @ u16_le (of_nat (length (nq_terms q))) @ [direction_byte (nq_direction q), 0] @ u32_le (nq_limit q)
     @ u64_le (case nq_start q of None \<Rightarrow> u64_max | Some s \<Rightarrow> s)
     @ u64_le (case nq_end q of None \<Rightarrow> u64_max | Some e \<Rightarrow> e) @ nq_tenant q
     @ concat (map label_enc (nq_labels q)) @ concat (map string16 (nq_terms q))"

lemma rfold_validate_label:
  "rfold validate_label m () = Inr () \<longleftrightarrow>
     (\<forall>kv \<in> set m. fst kv \<noteq> [] \<and> length (fst kv) < 2 ^ 16 \<and> length (snd kv) < 2 ^ 16)"
  by (induction m) (auto simp: result_simps validate_label_def validate_string16_def usize_to_u16_def)

lemma rfold_validate_term:
  "rfold validate_term ts () = Inr () \<longleftrightarrow> (\<forall>t \<in> set ts. t \<noteq> [] \<and> length t < 2 ^ 16)"
  by (induction ts) (auto simp: result_simps validate_term_def validate_string16_def usize_to_u16_def)

lemma validate_query_ok:
  "validate_query q = Inr () \<longleftrightarrow> nq_tenant q \<noteq> [] \<and> length (nq_tenant q) \<le> 1024
     \<and> length (nq_labels q) \<le> 256 \<and> length (nq_terms q) \<le> 256 \<and> nq_limit q \<noteq> 0 \<and> nq_limit q \<le> MAX_QUERY_LIMIT
     \<and> (\<forall>s e. nq_start q = Some s \<longrightarrow> nq_end q = Some e \<longrightarrow> s < e)
     \<and> (\<forall>kv \<in> set (nq_labels q). fst kv \<noteq> [] \<and> length (fst kv) < 2 ^ 16 \<and> length (snd kv) < 2 ^ 16)
     \<and> (\<forall>t \<in> set (nq_terms q). t \<noteq> [] \<and> length t < 2 ^ 16)"
  by (cases "nq_start q"; cases "nq_end q")
     (auto simp: validate_query_def validate_tenant_def result_simps rfold_validate_label rfold_validate_term
       frame_consts MAX_LABELS_PER_STREAM_def MAX_QUERY_TERMS_def split: if_splits)

lemma encode_native_query_eq:
  "encode_native_query q = rbind (validate_query q) (\<lambda>_. Inr (query_layout q))"
proof (cases "validate_query q")
  case (Inr u)
  then have ok: "validate_query q = Inr ()" by simp
  have fits: "length (nq_tenant q) < 2 ^ 16" "length (nq_labels q) < 2 ^ 16" "length (nq_terms q) < 2 ^ 16"
    using ok by (auto simp: validate_query_ok)
  have labels: "rfold (put_label kf vf) (nq_labels q) acc = Inr (acc @ concat (map label_enc (nq_labels q)))" for kf vf acc
    using ok unfolding rfold_put_label validate_query_ok by blast
  have terms: "rfold put_term (nq_terms q) acc = Inr (acc @ concat (map string16 (nq_terms q)))" for acc
    using ok unfolding rfold_put_term validate_query_ok by blast
  show ?thesis
    using fits by (simp add: encode_native_query_def ok put_u16_def usize_to_u16_def labels terms query_layout_def Let_def)
qed (simp add: encode_native_query_def)

lemma query_layout_slices:
  "take 4 (query_layout q) = QUERY_MAGIC" "32 \<le> length (query_layout q)"
  "slice 4 6 (query_layout q) = u16_le (of_nat (length (nq_tenant q)))"
  "slice 6 8 (query_layout q) = u16_le (of_nat (length (nq_labels q)))"
  "slice 8 10 (query_layout q) = u16_le (of_nat (length (nq_terms q)))"
  "query_layout q ! 10 = direction_byte (nq_direction q)" "query_layout q ! 11 = 0"
  "slice 12 16 (query_layout q) = u32_le (nq_limit q)"
  "slice 16 24 (query_layout q) = u64_le (case nq_start q of None \<Rightarrow> u64_max | Some s \<Rightarrow> s)"
  "slice 24 32 (query_layout q) = u64_le (case nq_end q of None \<Rightarrow> u64_max | Some e \<Rightarrow> e)"
  "drop 32 (query_layout q) = nq_tenant q @ concat (map label_enc (nq_labels q)) @ concat (map string16 (nq_terms q))"
  by (simp_all add: query_layout_def QUERY_MAGIC_def slice_def nth_append)

lemma query_body_decodes:
  assumes "validate_query q = Inr ()" "query_text_ok q"
  defines "c0 \<equiv> cursor_at (query_layout q) 32"
  defines "c1 \<equiv> cur_adv (length (nq_tenant q)) c0"
  defines "c2 \<equiv> cur_adv (length (concat (map label_enc (nq_labels q)))) c1"
  defines "c3 \<equiv> cur_adv (length (concat (map string16 (nq_terms q)))) c2"
  shows "cursor_string c0 (length (nq_tenant q)) ''query tenant'' = Inr (nq_tenant q, c1)"
    "decode_labels kf vf err (length (nq_labels q)) c1 [] = Inr (nq_labels q, c2)"
    "get_many (length (nq_terms q)) decode_term c2 = Inr (nq_terms q, c3)" "cursor_finish c3 = Inr ()"
proof -
  let ?l = "concat (map label_enc (nq_labels q))" and ?t = "concat (map string16 (nq_terms q))"
  note v = assms(1) [unfolded validate_query_ok] and t = assms(2) [unfolded query_text_ok_def]
  have r0: "cur_rest c0 = nq_tenant q @ ?l @ ?t"
    by (simp add: c0_def cur_rest_def cursor_at_def query_layout_slices)
  have r1: "cur_rest c1 = ?l @ ?t" and r2: "cur_rest c2 = ?t @ []"
    by (simp_all add: c1_def c2_def cur.rest_adv r0)
  have "cursor_bytes c0 (length (nq_tenant q)) ''query tenant'' = Inr (nq_tenant q, c1)"
    unfolding c1_def using v by (intro cursor_bytes_append [OF r0]) simp
  then show "cursor_string c0 (length (nq_tenant q)) ''query tenant'' = Inr (nq_tenant q, c1)"
    using t by (simp add: cursor_string_def)
  have "labels_ok ([] @ nq_labels q)" using v t by (auto simp: labels_ok_def string16_ok_def)
  from decode_labels_enc [OF this r1] show "decode_labels kf vf err (length (nq_labels q)) c1 [] = Inr (nq_labels q, c2)"
    by (simp add: c2_def)
  have "\<forall>x \<in> set (nq_terms q). string16_ok x \<and> x \<noteq> []" using v t by (simp add: string16_ok_def)
  from term_codec.get_many_enc [OF this r2] show "get_many (length (nq_terms q)) decode_term c2 = Inr (nq_terms q, c3)"
    by (simp add: c3_def)
  have "length (query_layout q) = 32 + length (nq_tenant q) + length ?l + length ?t"
    using arg_cong [OF query_layout_slices(11) [of q], of length] query_layout_slices(2) [of q] by simp
  then show "cursor_finish c3 = Inr ()"
    by (simp add: cursor_finish_def c3_def c2_def c1_def c0_def cursor_at_def)
qed

lemma query_roundtrip_aux:
  assumes "validate_query q = Inr ()" "query_text_ok q"
  shows "decode_native_query (query_layout q) = Inr (q\<lparr>nq_start := drop_max (nq_start q), nq_end := drop_max (nq_end q)\<rparr>)"
proof -
  note v = assms(1) [unfolded validate_query_ok]
  let ?q = "q\<lparr>nq_start := drop_max (nq_start q), nq_end := drop_max (nq_end q)\<rparr>"
  have counts: "unat (of_nat (length (nq_tenant q)) :: u16) = length (nq_tenant q)"
    "unat (of_nat (length (nq_labels q)) :: u16) = length (nq_labels q)"
    "unat (of_nat (length (nq_terms q)) :: u16) = length (nq_terms q)"
    using v by (simp_all add: unat_of_nat)
  have dir: "(if direction_byte d = 0 then Inr OldestFirst else if direction_byte d = 1 then Inr NewestFirst
      else Inl (NativeProtocolError e)) = Inr d" for d e by (cases d) simp_all
  have "validate_query ?q = Inr ()" using v by (auto simp: validate_query_ok drop_max_def)
  moreover have "\<lparr>nq_tenant = nq_tenant q, nq_labels = nq_labels q, nq_terms = nq_terms q,
      nq_start = (if (case nq_start q of None \<Rightarrow> u64_max | Some s \<Rightarrow> s) \<noteq> u64_max
        then Some (case nq_start q of None \<Rightarrow> u64_max | Some s \<Rightarrow> s) else None),
      nq_end = (if (case nq_end q of None \<Rightarrow> u64_max | Some s \<Rightarrow> s) \<noteq> u64_max
        then Some (case nq_end q of None \<Rightarrow> u64_max | Some s \<Rightarrow> s) else None),
      nq_limit = nq_limit q, nq_direction = nq_direction q\<rparr> = ?q"
    by (cases q) (auto simp: drop_max_def split: option.splits)
  ultimately show ?thesis
    unfolding decode_native_query_def QUERY_HEADER_BYTES_def Let_def query_layout_slices from_le_bytes counts dir
    using query_layout_slices(2) [of q] by (simp add: query_body_decodes [OF assms])
qed

lemma decode_native_query_sound:
  assumes "decode_native_query bs = Inr q"
  shows "validate_query q = Inr () \<and> query_text_ok q \<and> drop_max (nq_start q) = nq_start q \<and> drop_max (nq_end q) = nq_end q"
proof -
  from assms obtain n1 n2 n3 c0 c1 c2 c3 where
    t: "cursor_string c0 n1 ''query tenant'' = Inr (nq_tenant q, c1)"
    and l: "decode_labels ''query label key'' ''query label value''
        ''native query contains an empty or duplicate label'' n2 c1 [] = Inr (nq_labels q, c2)"
    and ts: "get_many n3 decode_term c2 = Inr (nq_terms q, c3)"
    and v: "validate_query q = Inr ()" and m: "nq_start q \<noteq> Some u64_max" "nq_end q \<noteq> Some u64_max"
    by (auto simp: decode_native_query_def Let_def result_simps split: if_splits)
  have "utf8_valid (nq_tenant q)" using t by (auto simp: cursor_string_def result_simps split: if_splits)
  moreover have "labels_ok (nq_labels q)" using decode_labels_sound [OF l] by (simp add: labels_ok_def)
  moreover have "\<forall>x \<in> set (nq_terms q). string16_ok x \<and> x \<noteq> []" using term_codec.get_many_sound [OF ts] by simp
  ultimately have "query_text_ok q" by (auto simp: query_text_ok_def labels_ok_def string16_ok_def)
  with v m show ?thesis by (simp add: drop_max_def)
qed

definition sample_query :: native_query where
  "sample_query = \<lparr>nq_tenant = [0x74], nq_labels = [([0x61], [0x62]), ([0x63], [])], nq_terms = [[0x78, 0x79]],
     nq_start = Some 5, nq_end = None, nq_limit = 100, nq_direction = NewestFirst\<rparr>"

lemma sample_query_ok: "validate_query sample_query = Inr ()" "query_text_ok sample_query"
  "drop_max (nq_start sample_query) = nq_start sample_query" "drop_max (nq_end sample_query) = nq_end sample_query"
  by (simp_all add: sample_query_def validate_query_ok query_text_ok_def btree_ok_def MAX_QUERY_LIMIT_def drop_max_def)

section \<open>Properties\<close>

text \<open>
  C37: indexed queries survive the wire: what \<open>encode_native_query\<close> produces for a query with valid text
  decodes to the same query, except that a bound equal to the largest timestamp, the wire's mark for
  an absent bound, comes back as no bound.
\<close>

theorem native_query_roundtrip:
  assumes "encode_native_query q = Inr bs" "query_text_ok q"
  shows "decode_native_query bs = Inr (q\<lparr>nq_start := drop_max (nq_start q), nq_end := drop_max (nq_end q)\<rparr>)"
  using assms query_roundtrip_aux [of q] by (auto simp: encode_native_query_eq result_simps)

theorem native_query_roundtrip_witness:
  "\<exists>bs. encode_native_query sample_query = Inr bs \<and> decode_native_query bs = Inr sample_query"
proof -
  have e: "encode_native_query sample_query = Inr (query_layout sample_query)"
    by (simp add: encode_native_query_eq sample_query_ok)
  from native_query_roundtrip [OF e sample_query_ok(2)] e show ?thesis by (simp add: sample_query_ok)
qed

text \<open>
  The decoder only returns queries that satisfy the protocol's limits, and re-encoding such a query
  always succeeds and decodes to the same query.
\<close>

lemma native_query_decode_valid:
  assumes "decode_native_query bs = Inr q"
  shows "validate_query q = Inr () \<and> query_text_ok q
    \<and> (\<exists>bs'. encode_native_query q = Inr bs' \<and> decode_native_query bs' = Inr q)"
  using decode_native_query_sound [OF assms] query_roundtrip_aux [of q]
  by (simp add: encode_native_query_eq)

lemma native_query_decode_valid_witness:
  "decode_native_query (query_layout sample_query) = Inr sample_query \<and> validate_query sample_query = Inr ()"
proof -
  have "decode_native_query (query_layout sample_query) = Inr sample_query"
    using query_roundtrip_aux [OF sample_query_ok(1,2)] by (simp add: sample_query_ok)
  with native_query_decode_valid [OF this] show ?thesis by simp
qed

text \<open>
  Tagged messages. If the MessagePack reader inverts the writer on a value, every tagged message of
  that value decodes back to it, and the other four readers refuse it: the five tags keep the message
  kinds apart.
\<close>

lemma messagepack_tags:
  assumes "write v = Inr body" "read body = Inr v"
    and "encode_native_metric_query write v = Inr bs"
  shows "decode_native_metric_query read bs = Inr v
    \<and> \<not> is_ok (decode_native_trace_query read bs) \<and> \<not> is_ok (decode_native_metric_query_result read bs)
    \<and> \<not> is_ok (decode_native_trace_query_result read bs) \<and> \<not> is_ok (decode_native_capabilities read bs)"
  using assms
  by (auto simp: encode_native_metric_query_def encode_messagepack_def Let_def decode_native_metric_query_def
      decode_native_trace_query_def decode_native_metric_query_result_def decode_native_trace_query_result_def
      decode_native_capabilities_def decode_messagepack_def METRIC_QUERY_MAGIC_def TRACE_QUERY_MAGIC_def
      METRIC_QUERY_RESULT_MAGIC_def TRACE_QUERY_RESULT_MAGIC_def CAPABILITIES_MAGIC_def split: if_splits)

lemma messagepack_tags_witness:
  "let write = (\<lambda>b. Inr [if b then 0xC3 else 0xC2]);
       read = (\<lambda>bs. if bs = [0xC3] then Inr True else if bs = [0xC2] then Inr False else Inl ''eof'')
   in decode_native_metric_query read [0x53, 0x54, 0x51, 0x32, 0xC3] = Inr True"
  using messagepack_tags [of "\<lambda>b. Inr [if b then 0xC3 else 0xC2]" True "[0xC3]"
      "\<lambda>bs. if bs = [0xC3] then Inr True else if bs = [0xC2] then Inr False else Inl ''eof''"
      "[0x53, 0x54, 0x51, 0x32, 0xC3]"]
  by (simp add: encode_native_metric_query_def encode_messagepack_def METRIC_QUERY_MAGIC_def frame_consts Let_def)

end
