(* ===== verification/LogQueryResult.thy ===== *)
theory LogQueryResult
  imports NativeQuery "HOL-Library.Multiset"
begin

text \<open>
  Results of indexed log queries (\<^verbatim>\<open>src/src/native_protocol/log_query.rs\<close>): records grouped by stream,
  labels written once per stream. Two encoders (owned entries and projected matches) share the format
  and one decoder flattens it again.

  The order in which a \<^verbatim>\<open>HashMap\<close> yields its entries is unspecified; it is the argument \<open>order\<close>, of
  which only \<open>mset (order xs) = mset xs\<close> is ever assumed.
\<close>

definition LOG_QUERY_RESULT_MAGIC :: bytes where "LOG_QUERY_RESULT_MAGIC = [0x53, 0x54, 0x52, 0x31]"
definition LOG_QUERY_RESULT_HEADER_BYTES :: nat where "LOG_QUERY_RESULT_HEADER_BYTES = 16"
definition MAX_STREAMS :: nat where "MAX_STREAMS = 65535"
definition MAX_METADATA_PER_ENTRY :: nat where "MAX_METADATA_PER_ENTRY = 256"
definition NATIVE_LABEL_PREFIX :: bytes where "NATIVE_LABEL_PREFIX = ascii ''resource.loki.label.''"
definition NATIVE_METADATA_PREFIX :: bytes where "NATIVE_METADATA_PREFIX = ascii ''attr.loki.metadata.''"

type_synonym label_map = "(bytes, bytes) btree"

text \<open>A timestamp of \<^verbatim>\<open>LokiEntry\<close> is an \<^verbatim>\<open>i64\<close>: a 64-bit word read with \<open>sint\<close>.\<close>

record loki_entry =
  le_timestamp :: u64
  le_labels :: label_map
  le_line :: bytes
  le_metadata :: label_map

record native_log_query_result =
  lqr_tenant :: bytes
  lqr_entries :: "loki_entry list"

section \<open>Writing streams\<close>

text \<open>
  What the two encoders write for one stream and one entry. Both pass key/value lists in their
  order; the fields \<open>estimated_bytes\<close> only size the buffer and are not modelled.
\<close>

definition put_entry :: "u64 \<times> bytes \<times> label_map \<Rightarrow> bytes \<Rightarrow> native_error + bytes" where
  "put_entry e encoded = (case e of (ts, line, metadata) \<Rightarrow>
     rbind (put_u32 (encoded @ u64_le ts) (length line) ''log line'') (\<lambda>encoded.
     if length metadata > MAX_METADATA_PER_ENTRY then
       Inl (NativeProtocolError ''native entry contains too much structured metadata'')
     else rbind (put_u16 encoded (length metadata) ''metadata count'') (\<lambda>encoded.
       rfold (put_label ''metadata key'' ''metadata value'') metadata (encoded @ u16_le 0 @ line))))"

definition put_stream :: "label_map \<times> (u64 \<times> bytes \<times> label_map) list \<Rightarrow> bytes \<Rightarrow> native_error + bytes" where
  "put_stream s encoded = (case s of (labels, entries) \<Rightarrow>
     if length labels > MAX_LABELS_PER_STREAM then
       Inl (NativeProtocolError ''native stream contains too many labels'')
     else rbind (put_u16 encoded (length labels) ''label count'') (\<lambda>encoded.
       rbind (ok_or (NativeProtocolError ''native stream contains too many entries'') (usize_to_u32 (length entries)))
         (\<lambda>entry_count.
       rbind (rfold (put_label ''label key'' ''label value'') labels (encoded @ u16_le 0 @ u32_le entry_count))
         (\<lambda>encoded. rfold put_entry entries encoded))))"

definition put_streams ::
  "bytes \<Rightarrow> u32 \<Rightarrow> (label_map \<times> (u64 \<times> bytes \<times> label_map) list) list \<Rightarrow> native_error + bytes" where
  "put_streams tenant record_count streams =
     rbind (put_u16 LOG_QUERY_RESULT_MAGIC (length tenant) ''tenant'') (\<lambda>encoded.
     rbind (put_u16 encoded (length streams) ''stream count'') (\<lambda>encoded.
     rbind (rfold put_stream streams (encoded @ u32_le record_count @ u32_le 0 @ tenant)) (\<lambda>encoded.
     if length encoded > MAX_NATIVE_FRAME_BYTES then
       Inl (NativeProtocolError (''native batch is '' @ dec_digits (length encoded) @ '' bytes, exceeding ''
         @ dec_digits MAX_NATIVE_FRAME_BYTES))
     else Inr encoded)))"

section \<open>Owned entries\<close>

text \<open>\<^verbatim>\<open>streams.entry(key).or_default().push(value)\<close>\<close>

fun group_push :: "'k \<Rightarrow> 'v \<Rightarrow> ('k \<times> 'v list) list \<Rightarrow> ('k \<times> 'v list) list" where
  "group_push k v [] = [(k, [v])]"
| "group_push k v ((k', vs) # m) = (if k = k' then (k', vs @ [v]) # m else (k', vs) # group_push k v m)"

definition take_labels :: "loki_entry \<Rightarrow> loki_entry" where
  "take_labels e = e\<lparr>le_labels := []\<rparr>"

definition single_stream :: "loki_entry list \<Rightarrow> bool" where
  "single_stream entries = (case entries of [] \<Rightarrow> False
     | first # rest \<Rightarrow> 0 \<le> sint (le_timestamp first)
         \<and> list_all (\<lambda>e. 0 \<le> sint (le_timestamp e) \<and> le_labels e = le_labels first) rest)"

definition group_entry ::
  "loki_entry \<Rightarrow> (label_map \<times> loki_entry list) list \<Rightarrow> native_error + (label_map \<times> loki_entry list) list" where
  "group_entry e streams =
     (if sint (le_timestamp e) < 0 then
        Inl (NativeProtocolError ''negative native log timestamps are unsupported'')
      else Inr (group_push (le_labels e) (take_labels e) streams))"

definition group_entries ::
  "((label_map \<times> loki_entry list) list \<Rightarrow> (label_map \<times> loki_entry list) list) \<Rightarrow> loki_entry list
   \<Rightarrow> native_error + (label_map \<times> loki_entry list) list" where
  "group_entries order entries =
     (if single_stream entries then
        Inr [(le_labels (hd entries), map take_labels entries)]
      else rmap order (rfold group_entry entries []))"

definition entry_fields :: "loki_entry \<Rightarrow> u64 \<times> bytes \<times> label_map" where
  "entry_fields e = (le_timestamp e, le_line e, le_metadata e)"

definition encode_native_log_query_result ::
  "((label_map \<times> loki_entry list) list \<Rightarrow> (label_map \<times> loki_entry list) list) \<Rightarrow> bytes \<Rightarrow> loki_entry list
   \<Rightarrow> native_error + bytes" where
  "encode_native_log_query_result order tenant entries =
     rbind (validate_tenant tenant) (\<lambda>_.
     rbind (ok_or (NativeProtocolError ''native batch contains more than u32 records'')
              (usize_to_u32 (length entries))) (\<lambda>record_count.
     rbind (group_entries order entries) (\<lambda>streams.
     if length streams > MAX_STREAMS then Inl (NativeProtocolError ''native batch contains too many streams'')
     else put_streams tenant record_count (map (apsnd (map entry_fields)) (sort_key fst streams)))))"

section \<open>Projected matches\<close>

text \<open>
  Of a matched record (\<^verbatim>\<open>LogMatch\<close>, \<^verbatim>\<open>DurableLog\<close> in \<^verbatim>\<open>types.rs\<close>) the encoder reads the timestamp, the
  message and the metadata fields.
\<close>

record projected_record =
  pr_timestamp :: u64
  pr_message :: bytes
  pr_fields :: "(bytes \<times> bytes) list"

text \<open>
  Fields are sorted by key and position; of several values for a key the last one is kept.
\<close>

fun dedup_last :: "(bytes \<times> bytes) list \<Rightarrow> (bytes \<times> bytes) list \<Rightarrow> (bytes \<times> bytes) list" where
  "dedup_last normalized [] = normalized"
| "dedup_last normalized ((k, v) # fs) =
     (if normalized \<noteq> [] \<and> fst (last normalized) = k
      then dedup_last (butlast normalized @ [(k, v)]) fs
      else dedup_last (normalized @ [(k, v)]) fs)"

definition normalize_projected_fields :: "(bytes \<times> bytes \<times> nat) list \<Rightarrow> (bytes \<times> bytes) list" where
  "normalize_projected_fields fs =
     dedup_last [] (map (\<lambda>(k, v, _). (k, v)) (sort_key (\<lambda>(k, v, i). (k, i)) fs))"

definition starts_with :: "bytes \<Rightarrow> bytes \<Rightarrow> bool" where
  "starts_with prefix s \<longleftrightarrow> take (length prefix) s = prefix"

definition project_fields :: "(bytes \<times> bytes) list \<Rightarrow> (bytes \<times> bytes \<times> nat) list \<times> (bytes \<times> bytes \<times> nat) list" where
  "project_fields fs =
     (let indexed = zip fs [0..<length fs] in
      (map (\<lambda>((k, v), i). (k, v, i)) (filter (\<lambda>((k, v), i). starts_with NATIVE_LABEL_PREFIX k) indexed),
       map (\<lambda>((k, v), i). (k, v, i)) (filter (\<lambda>((k, v), i). \<not> starts_with NATIVE_LABEL_PREFIX k
         \<and> starts_with NATIVE_METADATA_PREFIX k) indexed)))"

definition strip_prefix :: "bytes \<Rightarrow> (bytes \<times> bytes) list \<Rightarrow> (bytes \<times> bytes) list" where
  "strip_prefix prefix = map (\<lambda>(k, v). (drop (length prefix) k, v))"

definition group_match ::
  "(label_map \<times> (u64 \<times> bytes \<times> label_map) list) list \<Rightarrow> projected_record
   \<Rightarrow> (label_map \<times> (u64 \<times> bytes \<times> label_map) list) list" where
  "group_match streams r =
     (let (labels, metadata) = project_fields (pr_fields r) in
      group_push (normalize_projected_fields labels)
        (pr_timestamp r, pr_message r, normalize_projected_fields metadata) streams)"

definition encode_native_log_query_matches ::
  "((label_map \<times> (u64 \<times> bytes \<times> label_map) list) list \<Rightarrow> (label_map \<times> (u64 \<times> bytes \<times> label_map) list) list)
   \<Rightarrow> bytes \<Rightarrow> projected_record list \<Rightarrow> native_error + bytes" where
  "encode_native_log_query_matches order tenant matches =
     rbind (validate_tenant tenant) (\<lambda>_.
     rbind (ok_or (NativeProtocolError ''native batch contains more than u32 records'')
              (usize_to_u32 (length matches))) (\<lambda>record_count.
     let streams = foldl group_match [] matches in
     if length streams > MAX_STREAMS then Inl (NativeProtocolError ''native batch contains too many streams'')
     else put_streams tenant record_count
       (map (\<lambda>(labels, entries). (strip_prefix NATIVE_LABEL_PREFIX labels,
          map (\<lambda>(ts, m, metadata). (ts, m, strip_prefix NATIVE_METADATA_PREFIX metadata)) entries)) (order streams))))"

section \<open>Decoding\<close>

definition inspect_native_log_query_result :: "bytes \<Rightarrow> native_error + bytes \<times> u32" where
  "inspect_native_log_query_result payload =
     (if length payload < LOG_QUERY_RESULT_HEADER_BYTES then
        Inl (NativeProtocolError ''native log query result is shorter than its header'')
      else if take 4 payload \<noteq> LOG_QUERY_RESULT_MAGIC then
        Inl (NativeProtocolError ''invalid native log query result magic'')
      else if slice 12 16 payload \<noteq> [0, 0, 0, 0] then
        Inl (NativeProtocolError ''native log query result reserved bytes must be zero'')
      else let tenant_len = unat (from_le (slice 4 6 payload) :: u16) in
      if tenant_len > MAX_TENANT_BYTES then
        Inl (NativeProtocolError ''native log query result tenant exceeds its limit'')
      else if \<not> LOG_QUERY_RESULT_HEADER_BYTES + tenant_len \<le> length payload then
        Inl (NativeProtocolError ''native log query result tenant is truncated'')
      else let tenant = slice LOG_QUERY_RESULT_HEADER_BYTES (LOG_QUERY_RESULT_HEADER_BYTES + tenant_len) payload in
      if \<not> utf8_valid tenant then Inl (NativeProtocolError ''native log query result tenant is not UTF-8'')
      else if tenant = [] then Inl (NativeProtocolError ''native log query result tenant must not be empty'')
      else Inr (tenant, from_le (slice 8 12 payload)))"

definition decode_entry :: "label_map \<Rightarrow> cursor \<Rightarrow> native_error + loki_entry \<times> cursor" where
  "decode_entry labels c =
     rbind (cursor_u64 c ''timestamp'') (\<lambda>(timestamp, c).
     rbind (cursor_u32 c ''line length'') (\<lambda>(line_len, c).
     rbind (cursor_u16 c ''metadata count'') (\<lambda>(metadata_count, c).
     if unat metadata_count > MAX_METADATA_PER_ENTRY then
       Inl (NativeProtocolError ''native entry contains too much structured metadata'')
     else rbind (cursor_u16 c ''entry reserved bytes'') (\<lambda>(reserved, c).
     if reserved \<noteq> 0 then Inl (NativeProtocolError ''native entry reserved bytes must be zero'')
     else rbind (cursor_string c (unat line_len) ''log line'') (\<lambda>(line, c).
     rbind (decode_labels ''metadata key'' ''metadata value'' ''native entry contains empty or duplicate metadata''
              (unat metadata_count) c []) (\<lambda>(metadata, c).
     if sint timestamp < 0 then
       Inl (NativeProtocolError ''native log timestamp exceeds the signed i64 range'')
     else Inr (\<lparr>le_timestamp = timestamp, le_labels = labels, le_line = line, le_metadata = metadata\<rparr>, c)))))))"

definition decode_stream :: "u32 \<Rightarrow> loki_entry list \<times> cursor \<Rightarrow> native_error + loki_entry list \<times> cursor" where
  "decode_stream record_count st = (case st of (entries, c) \<Rightarrow>
     rbind (cursor_u16 c ''label count'') (\<lambda>(label_count, c).
     if unat label_count > MAX_LABELS_PER_STREAM then
       Inl (NativeProtocolError ''native stream contains too many labels'')
     else rbind (cursor_u16 c ''stream reserved bytes'') (\<lambda>(reserved, c).
     if reserved \<noteq> 0 then Inl (NativeProtocolError ''native stream reserved bytes must be zero'')
     else rbind (cursor_u32 c ''entry count'') (\<lambda>(entry_count, c).
     rbind (decode_labels ''label key'' ''label value'' ''native stream contains an empty or duplicate label''
              (unat label_count) c []) (\<lambda>(labels, c).
     if \<not> length entries + unat entry_count \<le> unat record_count then
       Inl (NativeProtocolError ''native stream counts exceed declared record count'')
     else rbind (get_many (unat entry_count) (decode_entry labels) c) (\<lambda>(es, c).
       Inr (entries @ es, c)))))))"

fun decode_streams :: "u32 \<Rightarrow> nat \<Rightarrow> loki_entry list \<times> cursor \<Rightarrow> native_error + loki_entry list \<times> cursor" where
  "decode_streams record_count 0 st = Inr st"
| "decode_streams record_count (Suc n) st = rbind (decode_stream record_count st) (decode_streams record_count n)"

definition decode_native_log_query_result :: "bytes \<Rightarrow> native_error + native_log_query_result" where
  "decode_native_log_query_result payload =
     rbind (inspect_native_log_query_result payload) (\<lambda>(tenant, record_count).
     let stream_count = unat (from_le (slice 6 8 payload) :: u16) in
     rbind (decode_streams record_count stream_count
              ([], cursor_at payload (LOG_QUERY_RESULT_HEADER_BYTES + length tenant))) (\<lambda>(entries, c).
     if length entries \<noteq> unat record_count then
       Inl (NativeProtocolError (''native batch decoded '' @ dec_digits (length entries) @ '' records, expected ''
         @ dec_digits (unat record_count)))
     else rbind (cursor_finish c) (\<lambda>_. Inr \<lparr>lqr_tenant = tenant, lqr_entries = entries\<rparr>)))"

section \<open>The bytes of streams\<close>

definition entry_bytes :: "u64 \<times> bytes \<times> label_map \<Rightarrow> bytes" where
  "entry_bytes e = (case e of (ts, line, metadata) \<Rightarrow> u64_le ts @ u32_le (of_nat (length line))
     @ u16_le (of_nat (length metadata)) @ u16_le 0 @ line @ concat (map label_enc metadata))"

definition entry_fits :: "u64 \<times> bytes \<times> label_map \<Rightarrow> bool" where
  "entry_fits e = (case e of (ts, line, metadata) \<Rightarrow> length line < 2 ^ 32 \<and> length metadata \<le> 256
     \<and> (\<forall>kv \<in> set metadata. length (fst kv) < 2 ^ 16 \<and> length (snd kv) < 2 ^ 16))"

definition stream_bytes :: "label_map \<times> (u64 \<times> bytes \<times> label_map) list \<Rightarrow> bytes" where
  "stream_bytes s = u16_le (of_nat (length (fst s))) @ u16_le 0 @ u32_le (of_nat (length (snd s)))
     @ concat (map label_enc (fst s)) @ concat (map entry_bytes (snd s))"

definition stream_fits :: "label_map \<times> (u64 \<times> bytes \<times> label_map) list \<Rightarrow> bool" where
  "stream_fits s \<longleftrightarrow> length (fst s) \<le> 256 \<and> length (snd s) < 2 ^ 32
     \<and> (\<forall>kv \<in> set (fst s). length (fst kv) < 2 ^ 16 \<and> length (snd kv) < 2 ^ 16) \<and> list_all entry_fits (snd s)"

lemma put_entry_Inr: "put_entry e acc = Inr acc' \<longleftrightarrow> entry_fits e \<and> acc' = acc @ entry_bytes e"
  by (cases e)
     (auto simp: put_entry_def put_u32_def put_u16_def usize_to_u32_def usize_to_u16_def result_simps
       rfold_put_label entry_fits_def entry_bytes_def MAX_METADATA_PER_ENTRY_def split: if_splits)

lemma rfold_put_entry:
  "rfold put_entry es acc = Inr acc' \<longleftrightarrow> list_all entry_fits es \<and> acc' = acc @ concat (map entry_bytes es)"
  by (induction es arbitrary: acc) (auto simp: result_simps put_entry_Inr)

lemma put_stream_Inr: "put_stream s acc = Inr acc' \<longleftrightarrow> stream_fits s \<and> acc' = acc @ stream_bytes s"
  by (cases s)
     (auto simp: put_stream_def put_u16_def usize_to_u32_def usize_to_u16_def result_simps rfold_put_label
       rfold_put_entry stream_fits_def stream_bytes_def MAX_LABELS_PER_STREAM_def split: if_splits)

lemma rfold_put_stream:
  "rfold put_stream ss acc = Inr acc' \<longleftrightarrow> list_all stream_fits ss \<and> acc' = acc @ concat (map stream_bytes ss)"
  by (induction ss arbitrary: acc) (auto simp: result_simps put_stream_Inr)

definition result_layout :: "bytes \<Rightarrow> u32 \<Rightarrow> (label_map \<times> (u64 \<times> bytes \<times> label_map) list) list \<Rightarrow> bytes" where
  "result_layout tenant record_count ss =
     LOG_QUERY_RESULT_MAGIC @ u16_le (of_nat (length tenant)) @ u16_le (of_nat (length ss)) @ u32_le record_count
     @ u32_le 0 @ tenant @ concat (map stream_bytes ss)"

lemma put_streams_Inr:
  "put_streams tenant record_count ss = Inr bs \<longleftrightarrow> length tenant < 2 ^ 16 \<and> length ss < 2 ^ 16
     \<and> list_all stream_fits ss \<and> bs = result_layout tenant record_count ss \<and> length bs \<le> MAX_NATIVE_FRAME_BYTES"
  by (auto simp: put_streams_def put_u16_def usize_to_u16_def result_simps rfold_put_stream result_layout_def
      split: if_splits)

section \<open>Reading streams back\<close>

definition entry_text_ok :: "u64 \<times> bytes \<times> label_map \<Rightarrow> bool" where
  "entry_text_ok e = (case e of (ts, line, metadata) \<Rightarrow> 0 \<le> sint ts \<and> utf8_valid line \<and> labels_ok metadata)"

definition entry_with :: "label_map \<Rightarrow> u64 \<times> bytes \<times> label_map \<Rightarrow> loki_entry" where
  "entry_with labels e = (case e of (ts, line, metadata) \<Rightarrow>
     \<lparr>le_timestamp = ts, le_labels = labels, le_line = line, le_metadata = metadata\<rparr>)"

lemma entry_fields_with [simp]: "entry_fields (entry_with l e) = e" "entry_with (le_labels x) (entry_fields x) = x"
  by (auto simp: entry_fields_def entry_with_def split: prod.splits)

lemma le_labels_entry_with [simp]: "le_labels (entry_with l e) = l"
  by (auto simp: entry_with_def split: prod.splits)

interpretation entry_reader: wire_reader cur_rest cur_adv "\<lambda>x. entry_bytes (entry_fields x)"
    "decode_entry labels" "\<lambda>x. le_labels x = labels \<and> entry_fits (entry_fields x) \<and> entry_text_ok (entry_fields x)"
    for labels
proof (unfold_locales, goal_cases)
  case (1 x s r)
  obtain ts line md where x: "entry_fields x = (ts, line, md)" by (cases "entry_fields x")
  have xw: "x = entry_with labels (ts, line, md)" using 1(1) x entry_fields_with(2) by metis
  have f: "length line < 2 ^ 32" "length md \<le> 256" "0 \<le> sint ts" "utf8_valid line" "labels_ok ([] @ md)"
    using 1(1) by (auto simp: x entry_fits_def entry_text_ok_def)
  have rest: "cur_rest s = u64_le ts @ u32_le (of_nat (length line)) @ u16_le (of_nat (length md)) @ u16_le 0
      @ line @ concat (map label_enc md) @ r"
    using 1(2) by (simp add: x entry_bytes_def)
  have u: "unat (of_nat (length line) :: u32) = length line" "unat (of_nat (length md) :: u16) = length md"
    using f(2) by (simp_all add: unat_of_nat_u32 [OF f(1)]) (simp add: unat_of_nat)
  have c: "cursor_bytes (cur_adv 16 s) (length line) ''log line'' = Inr (line, cur_adv (length line) (cur_adv 16 s))"
  proof (rule cursor_bytes_append)
    show "cur_rest (cur_adv 16 s) = line @ concat (map label_enc md) @ r" by (simp add: cur.rest_adv rest)
    have "16 \<le> length (cur_rest s)" by (simp add: rest)
    then show "line \<noteq> [] \<or> cur_offset (cur_adv 16 s) \<le> length (cur_bytes (cur_adv 16 s))"
      by (auto simp: cur_rest_def)
  qed
  have m: "decode_labels kf vf err (length md) (cur_adv (16 + length line) s) []
      = Inr (md, cur_adv (length (concat (map label_enc md))) (cur_adv (16 + length line) s))" for kf vf err
    using decode_labels_enc [OF f(5), of "cur_adv (16 + length line) s" r] by (simp add: cur.rest_adv rest)
  show ?case
    using f(2,3) unfolding x xw
    by (simp add: decode_entry_def cursor_fixed_eq rest cur.rest_adv cur.adv_adv u cursor_string_def c f(4) m
        MAX_METADATA_PER_ENTRY_def entry_with_def entry_bytes_def entry_fields_def)
qed

definition stream_text_ok :: "label_map \<times> (u64 \<times> bytes \<times> label_map) list \<Rightarrow> bool" where
  "stream_text_ok s \<longleftrightarrow> labels_ok (fst s) \<and> list_all entry_text_ok (snd s)"

definition stream_entries :: "label_map \<times> (u64 \<times> bytes \<times> label_map) list \<Rightarrow> loki_entry list" where
  "stream_entries s = map (entry_with (fst s)) (snd s)"

lemma decode_stream_bytes:
  assumes "stream_fits s" "stream_text_ok s" "cur_rest c = stream_bytes s @ r"
    and "length es + length (snd s) \<le> unat rc"
  shows "decode_stream rc (es, c) = Inr (es @ stream_entries s, cur_adv (length (stream_bytes s)) c)"
proof -
  obtain l xs where s: "s = (l, xs)" by (cases s)
  have f: "length l \<le> 256" "length xs < 2 ^ 32" "labels_ok ([] @ l)"
    using assms(1,2) by (auto simp: s stream_fits_def stream_text_ok_def)
  have rest: "cur_rest c = u16_le (of_nat (length l)) @ u16_le 0 @ u32_le (of_nat (length xs))
      @ concat (map label_enc l) @ concat (map entry_bytes xs) @ r"
    using assms(3) by (simp add: s stream_bytes_def)
  have u: "unat (of_nat (length xs) :: u32) = length xs" "unat (of_nat (length l) :: u16) = length l"
    using f(1) by (simp_all add: unat_of_nat_u32 [OF f(2)]) (simp add: unat_of_nat)
  let ?c = "cur_adv (8 + length (concat (map label_enc l))) c"
  have m: "decode_labels kf vf err (length l) (cur_adv 8 c) []
      = Inr (l, cur_adv (length (concat (map label_enc l))) (cur_adv 8 c))" for kf vf err
    using decode_labels_enc [OF f(3), of "cur_adv 8 c" "concat (map entry_bytes xs) @ r"] by (simp add: cur.rest_adv rest)
  have "get_many (length (stream_entries s)) (decode_entry l) ?c
      = Inr (stream_entries s, cur_adv (length (concat (map (\<lambda>x. entry_bytes (entry_fields x)) (stream_entries s)))) ?c)"
    using assms(1,2)
    by (intro entry_reader.get_many_enc [where r = r])
       (auto simp: s stream_entries_def stream_fits_def stream_text_ok_def list_all_iff cur.rest_adv rest comp_def)
  then have g: "get_many (length xs) (decode_entry l) ?c
      = Inr (stream_entries s, cur_adv (length (concat (map entry_bytes xs))) ?c)"
    by (simp add: s stream_entries_def comp_def)
  show ?thesis
    using f(1) assms(4)
    by (simp add: decode_stream_def cursor_fixed_eq rest cur.rest_adv cur.adv_adv u m g MAX_LABELS_PER_STREAM_def)
       (simp add: s stream_bytes_def)
qed

lemma decode_streams_bytes:
  "list_all stream_fits ss \<Longrightarrow> list_all stream_text_ok ss \<Longrightarrow> cur_rest c = concat (map stream_bytes ss) @ r \<Longrightarrow>
   length es + length (concat (map stream_entries ss)) \<le> unat rc \<Longrightarrow>
   decode_streams rc (length ss) (es, c)
     = Inr (es @ concat (map stream_entries ss), cur_adv (length (concat (map stream_bytes ss))) c)"
proof (induction ss arbitrary: es c)
  case Nil
  then show ?case by (simp add: cur.adv_zero)
next
  case (Cons s ss)
  have "decode_stream rc (es, c) = Inr (es @ stream_entries s, cur_adv (length (stream_bytes s)) c)"
    using Cons.prems by (intro decode_stream_bytes) (auto simp: stream_entries_def)
  moreover have "decode_streams rc (length ss) (es @ stream_entries s, cur_adv (length (stream_bytes s)) c)
     = Inr ((es @ stream_entries s) @ concat (map stream_entries ss),
            cur_adv (length (concat (map stream_bytes ss))) (cur_adv (length (stream_bytes s)) c))"
    using Cons.prems by (intro Cons.IH) (auto simp: cur.rest_adv)
  ultimately show ?case by (simp add: cur.adv_adv)
qed

lemma decode_result_layout:
  assumes "list_all stream_fits ss" "list_all stream_text_ok ss" "length ss < 2 ^ 16"
    and "tenant \<noteq> []" "length tenant \<le> 1024" "utf8_valid tenant"
    and "unat rc = length (concat (map stream_entries ss))"
  shows "decode_native_log_query_result (result_layout tenant rc ss)
     = Inr \<lparr>lqr_tenant = tenant, lqr_entries = concat (map stream_entries ss)\<rparr>"
proof -
  let ?b = "result_layout tenant rc ss" and ?body = "concat (map stream_bytes ss)"
  have u: "unat (of_nat (length tenant) :: u16) = length tenant" "unat (of_nat (length ss) :: u16) = length ss"
    using assms(3,5) by (simp_all add: unat_of_nat)
  have "take 4 ?b = LOG_QUERY_RESULT_MAGIC" "slice 4 6 ?b = u16_le (of_nat (length tenant))"
    "slice 6 8 ?b = u16_le (of_nat (length ss))" "slice 8 12 ?b = u32_le rc" "slice 12 16 ?b = u32_le 0"
    "drop 16 ?b = tenant @ ?body" "length ?b = 16 + length tenant + length ?body"
    by (simp_all add: result_layout_def LOG_QUERY_RESULT_MAGIC_def slice_def)
  moreover have "u32_le 0 = [0, 0, 0, 0]" by code_simp
  ultimately have sl: "take 4 ?b = LOG_QUERY_RESULT_MAGIC" "slice 4 6 ?b = u16_le (of_nat (length tenant))"
    "slice 6 8 ?b = u16_le (of_nat (length ss))" "slice 8 12 ?b = u32_le rc" "slice 12 16 ?b = [0, 0, 0, 0]"
    "drop 16 ?b = tenant @ ?body" "length ?b = 16 + length tenant + length ?body"
    by simp_all
  have tn: "slice 16 (16 + length tenant) ?b = tenant" by (simp add: slice_def sl(6))
  have rest: "cur_rest (cursor_at ?b (16 + length tenant)) = ?body @ []"
    by (metis add.commute append_eq_conv_conj append_Nil2 cur_rest_def cursor_at_def cursor.select_convs drop_drop sl(6))
  have "decode_streams rc (length ss) ([], cursor_at ?b (16 + length tenant))
     = Inr ([] @ concat (map stream_entries ss), cur_adv (length ?body) (cursor_at ?b (16 + length tenant)))"
    by (rule decode_streams_bytes [OF assms(1,2) rest]) (simp add: assms(7))
  moreover have "cursor_finish (cur_adv (length ?body) (cursor_at ?b (16 + length tenant))) = Inr ()"
    by (simp add: cursor_finish_def cursor_at_def sl(7))
  ultimately show ?thesis
    using assms(4-7)
    by (simp add: decode_native_log_query_result_def inspect_native_log_query_result_def Let_def sl u tn
        LOG_QUERY_RESULT_HEADER_BYTES_def MAX_TENANT_BYTES_def)
qed

section \<open>Grouping\<close>

text \<open>
  Grouping in specification form: the keys in the order of their first occurrence, each with the
  values of its elements in order.
\<close>

definition first_keys :: "('a \<Rightarrow> 'k) \<Rightarrow> 'a list \<Rightarrow> 'k list" where
  "first_keys key xs = rev (remdups (rev (map key xs)))"

definition groups :: "('a \<Rightarrow> 'k) \<Rightarrow> ('a \<Rightarrow> 'v) \<Rightarrow> 'a list \<Rightarrow> ('k \<times> 'v list) list" where
  "groups key val xs = map (\<lambda>k. (k, map val (filter (\<lambda>x. key x = k) xs))) (first_keys key xs)"

lemma set_first_keys [simp]: "set (first_keys key xs) = key ` set xs"
  and distinct_first_keys [simp]: "distinct (first_keys key xs)"
  by (simp_all add: first_keys_def)

lemma group_push_map:
  "distinct ks \<Longrightarrow> group_push k v (map (\<lambda>k. (k, f k)) ks) =
     (if k \<in> set ks then map (\<lambda>k'. (k', if k' = k then f k' @ [v] else f k')) ks
      else map (\<lambda>k. (k, f k)) ks @ [(k, [v])])"
  by (induction ks) auto

lemma foldl_group_push: "foldl (\<lambda>m x. group_push (key x) (val x) m) [] xs = groups key val xs"
proof (induction xs rule: rev_induct)
  case Nil
  then show ?case by (simp add: groups_def first_keys_def)
next
  case (snoc x xs)
  have fk: "first_keys key (xs @ [x]) = (if key x \<in> key ` set xs then first_keys key xs else first_keys key xs @ [key x])"
    by (simp add: first_keys_def)
  show ?case
    using snoc by (auto simp: groups_def group_push_map fk filter_empty_conv) (metis image_eqI)
qed

lemma rfold_group_entry:
  "rfold group_entry entries m =
     (if \<exists>e \<in> set entries. sint (le_timestamp e) < 0
      then Inl (NativeProtocolError ''negative native log timestamps are unsupported'')
      else Inr (foldl (\<lambda>m e. group_push (le_labels e) (take_labels e) m) m entries))"
  by (induction entries arbitrary: m) (auto simp: group_entry_def)

lemma groups_single:
  assumes "xs \<noteq> []" "\<forall>x \<in> set xs. key x = k"
  shows "groups key val xs = [(k, map val xs)]"
proof -
  have "map key xs = replicate (length xs) k" using assms(2) by (intro nth_equalityI) auto
  moreover have "remdups (replicate n k) = [k]" if "n \<noteq> 0" for n
    using that by (induction n) (auto simp: replicate_app_Cons_same)
  ultimately have "first_keys key xs = [k]" using assms(1) by (simp add: first_keys_def)
  with assms(2) show ?thesis by (simp add: groups_def)
qed

lemma single_stream_groups:
  assumes "single_stream entries"
  shows "[(le_labels (hd entries), map take_labels entries)] = groups le_labels take_labels entries"
    and "\<not> (\<exists>e \<in> set entries. sint (le_timestamp e) < 0)"
proof -
  have all: "entries \<noteq> []" "\<forall>e \<in> set entries. le_labels e = le_labels (hd entries)"
    "\<forall>e \<in> set entries. 0 \<le> sint (le_timestamp e)"
    using assms by (auto simp: single_stream_def list_all_iff split: list.splits)
  show "[(le_labels (hd entries), map take_labels entries)] = groups le_labels take_labels entries"
    by (rule groups_single [OF all(1,2), symmetric])
  show "\<not> (\<exists>e \<in> set entries. sint (le_timestamp e) < 0)" using all(3) by force
qed

text \<open>Sorting makes the result independent of the hash order.\<close>

lemma sort_key_fst_unique:
  fixes ys zs :: "('k::linorder \<times> 'v) list"
  assumes "mset zs = mset ys" "distinct (map fst ys)"
  shows "sort_key fst zs = sort_key fst ys"
proof (rule map_sorted_distinct_set_unique [of fst])
  have s: "set zs = set ys" using assms(1) by (metis set_mset_mset)
  then show "inj_on fst (set (sort_key fst zs) \<union> set (sort_key fst ys))"
    using assms(2) by (simp add: distinct_map)
  have "mset (map fst zs) = mset (map fst ys)" using assms(1) by simp
  then have d: "distinct (map fst zs)" using assms(2) mset_eq_imp_distinct_iff by blast
  have m: "mset (map fst (sort_key fst xs)) = mset (map fst xs)" for xs :: "('k \<times> 'v) list" by simp
  show "distinct (map fst (sort_key fst zs))" "distinct (map fst (sort_key fst ys))"
    using d assms(2) m mset_eq_imp_distinct_iff by blast+
qed (use assms in \<open>auto simp: set_mset_mset [symmetric] simp del: set_mset_mset\<close>)

lemma sort_groups:
  assumes "mset (order (groups key val xs)) = mset (groups key val xs)"
  shows "sort_key fst (order (groups key val xs))
     = map (\<lambda>k. (k, map val (filter (\<lambda>x. key x = k) xs))) (sorted_list_of_set (key ` set xs))"
proof -
  let ?f = "\<lambda>k. (k, map val (filter (\<lambda>x. key x = k) xs))"
  have d: "distinct (map fst (groups key val xs))" by (simp add: groups_def comp_def)
  have "sort_key fst (order (groups key val xs)) = sort_key fst (groups key val xs)"
    by (rule sort_key_fst_unique [OF assms d])
  also have "mset (map ?f (sorted_list_of_set (key ` set xs))) = mset (groups key val xs)"
  proof -
    have "mset (sorted_list_of_set (key ` set xs)) = mset (first_keys key xs)"
      by (intro set_eq_iff_mset_eq_distinct [THEN iffD1]) auto
    then show ?thesis by (simp add: groups_def)
  qed
  from sort_key_fst_unique [OF this d]
  have "sort_key fst (groups key val xs) = sort_key fst (map ?f (sorted_list_of_set (key ` set xs)))" by simp
  also have "\<dots> = map ?f (sorted_list_of_set (key ` set xs))"
    by (rule sort_key_id_if_sorted) (simp add: comp_def)
  finally show ?thesis .
qed

section \<open>Projected fields\<close>

lemma dedup_last_sorted:
  assumes "sorted (map fst fs)" "btree_ok m" "\<forall>k \<in> fst ` set fs. \<forall>k' \<in> fst ` set m. k' \<le> k"
  shows "btree_ok (dedup_last m fs) \<and> map_of (dedup_last m fs) = map_of (rev fs @ m)"
  using assms
proof (induction m fs rule: dedup_last.induct)
  case (1 m)
  then show ?case by simp
next
  case (2 m k v fs)
  show ?case
  proof (cases "m \<noteq> [] \<and> fst (last m) = k")
    case True
    then obtain m' v' where m: "m = m' @ [(k, v')]" by (cases m rule: rev_cases) auto
    have lt: "\<forall>k' \<in> fst ` set m'. k' < k" using 2(4) by (auto simp: m btree_ok_def sorted_wrt_append)
    then have nk: "map_of m' k = None" by (auto simp: map_of_eq_None_iff)
    have "btree_ok (dedup_last (m' @ [(k, v)]) fs) \<and> map_of (dedup_last (m' @ [(k, v)]) fs) = map_of (rev fs @ m' @ [(k, v)])"
      using 2(1) True 2(3-5) by (auto simp: m btree_ok_def)
    moreover have "map_of (m' @ [(k, v)]) = map_of ((k, v) # m)"
      using nk by (auto simp: fun_eq_iff m map_add_def split: option.splits)
    ultimately show ?thesis using True by (simp add: m)
  next
    case False
    have lt: "\<forall>k' \<in> fst ` set m. k' < k"
    proof
      fix k' assume k': "k' \<in> fst ` set m"
      have "m \<noteq> []" using k' by auto
      with False have "fst (last m) \<noteq> k" by simp
      moreover have "fst (last m) \<le> k" using 2(5) \<open>m \<noteq> []\<close> by auto
      moreover have "k' \<le> fst (last m)"
      proof (cases m rule: rev_cases)
        case (snoc ys y)
        with 2(4) k' show ?thesis by (auto simp: btree_ok_def sorted_wrt_append less_imp_le)
      qed (use \<open>m \<noteq> []\<close> in simp)
      ultimately show "k' < k" by simp
    qed
    then have nk: "map_of m k = None" by (auto simp: map_of_eq_None_iff)
    have "btree_ok (dedup_last (m @ [(k, v)]) fs) \<and> map_of (dedup_last (m @ [(k, v)]) fs) = map_of (rev fs @ m @ [(k, v)])"
      using 2(2) False 2(3-5) lt by (auto simp: btree_ok_def sorted_wrt_append)
    moreover have "map_of (m @ [(k, v)]) = map_of ((k, v) # m)"
      using nk by (auto simp: fun_eq_iff map_add_def split: option.splits)
    ultimately show ?thesis using False by auto
  qed
qed

lemma map_of_rev_filter: "map_of (rev xs) k = (case filter (\<lambda>x. fst x = k) xs of [] \<Rightarrow> None | ys \<Rightarrow> Some (snd (last ys)))"
proof (induction xs rule: rev_induct)
  case (snoc x xs)
  then show ?case by (cases x) (auto split: list.splits)
qed simp

lemma set_dedup_last: "set (dedup_last m fs) \<subseteq> set m \<union> set fs"
  by (induction m fs rule: dedup_last.induct) (auto dest: in_set_butlastD)

definition field_pairs :: "(bytes \<times> bytes \<times> nat) list \<Rightarrow> (bytes \<times> bytes) list" where
  "field_pairs = map (\<lambda>(k, v, _). (k, v))"

lemma normalize_set: "set (normalize_projected_fields xs) \<subseteq> set (field_pairs xs)"
  using set_dedup_last [of "[]"] by (fastforce simp: normalize_projected_fields_def field_pairs_def)

lemma sort_by_key_index:
  assumes "sorted_wrt (<) (map (\<lambda>(k, v, i). i) xs)"
  defines "ys \<equiv> sort_key (\<lambda>(k, v, i). (k, i)) xs"
  shows "sorted (map fst (field_pairs ys))"
    and "filter (\<lambda>p. fst p = k0) (field_pairs ys) = filter (\<lambda>p. fst p = k0) (field_pairs xs)"
proof -
  have "sorted (map (\<lambda>(k, v, i). (k, i)) ys)" by (simp add: ys_def)
  then show "sorted (map fst (field_pairs ys))"
    by (auto simp: field_pairs_def sorted_wrt_map comp_def case_prod_unfold elim!: sorted_wrt_mono_rel [rotated])
  let ?P = "\<lambda>x. fst x = k0"
  have "sorted_wrt (<) (map (\<lambda>(k, v, i). i) (filter ?P xs))"
    using assms(1) by (simp add: sorted_wrt_map sorted_wrt_filter)
  then have "sorted (map (\<lambda>(k, v, i). (k, i)) (filter ?P xs))"
    by (auto simp: sorted_wrt_map elim!: sorted_wrt_mono_rel [rotated])
  then have "filter ?P ys = filter ?P xs" by (simp add: ys_def filter_sort sort_key_id_if_sorted)
  then show "filter (\<lambda>p. fst p = k0) (field_pairs ys) = filter (\<lambda>p. fst p = k0) (field_pairs xs)"
    by (simp add: field_pairs_def filter_map comp_def case_prod_unfold)
qed

lemma normalize_fields:
  assumes "sorted_wrt (<) (map (\<lambda>(k, v, i). i) xs)"
  shows "btree_ok (normalize_projected_fields xs)
    \<and> map_of (normalize_projected_fields xs) = map_of (rev (field_pairs xs))"
proof -
  let ?ys = "field_pairs (sort_key (\<lambda>(k, v, i). (k, i)) xs)"
  have n: "normalize_projected_fields xs = dedup_last [] ?ys"
    by (simp add: normalize_projected_fields_def field_pairs_def)
  have "btree_ok (dedup_last [] ?ys) \<and> map_of (dedup_last [] ?ys) = map_of (rev ?ys @ [])"
    by (rule dedup_last_sorted [OF sort_by_key_index(1) [OF assms]]) auto
  moreover have "map_of (rev ?ys) = map_of (rev (field_pairs xs))"
    by (rule ext) (simp only: map_of_rev_filter sort_by_key_index(2) [OF assms])
  ultimately show ?thesis by (simp add: n)
qed

lemma project_fields_sorted:
  "sorted_wrt (<) (map (\<lambda>(k, v, i). i) (fst (project_fields fs)))"
  "sorted_wrt (<) (map (\<lambda>(k, v, i). i) (snd (project_fields fs)))"
proof -
  have s: "sorted_wrt (\<lambda>x y. snd x < snd y) (zip fs [0..<length fs])"
    by (auto simp: sorted_wrt_iff_nth_less)
  have "sorted_wrt (<) (map (\<lambda>(k, v, i). i) (map (\<lambda>((k, v), i). (k, v, i)) (filter P (zip fs [0..<length fs]))))" for P
    using sorted_wrt_filter [OF s, of P]
    by (auto simp: sorted_wrt_map case_prod_unfold elim!: sorted_wrt_mono_rel [rotated])
  then show "sorted_wrt (<) (map (\<lambda>(k, v, i). i) (fst (project_fields fs)))"
    "sorted_wrt (<) (map (\<lambda>(k, v, i). i) (snd (project_fields fs)))"
    by (simp_all add: project_fields_def Let_def)
qed

lemma field_pairs_project:
  "field_pairs (fst (project_fields fs)) = filter (\<lambda>(k, v). starts_with NATIVE_LABEL_PREFIX k) fs"
  "field_pairs (snd (project_fields fs)) = filter (\<lambda>(k, v). \<not> starts_with NATIVE_LABEL_PREFIX k
     \<and> starts_with NATIVE_METADATA_PREFIX k) fs"
proof -
  have "map (\<lambda>(k, v, i). (k, v)) (map (\<lambda>((k, v), i). (k, v, i)) (filter (\<lambda>((k, v), i). P k) (zip fs [a..<a + length fs])))
      = filter (\<lambda>(k, v). P k) fs" for P a
  proof (induction fs arbitrary: a)
    case (Cons f fs)
    have "[a..<a + length (f # fs)] = a # [Suc a..<Suc a + length fs]"
      by (subst upt_conv_Cons) (simp_all del: upt_Suc)
    then show ?case using Cons [of "Suc a"] by auto
  qed simp
  from this [of _ 0] show "field_pairs (fst (project_fields fs)) = filter (\<lambda>(k, v). starts_with NATIVE_LABEL_PREFIX k) fs"
    "field_pairs (snd (project_fields fs)) = filter (\<lambda>(k, v). \<not> starts_with NATIVE_LABEL_PREFIX k
     \<and> starts_with NATIVE_METADATA_PREFIX k) fs"
    by (simp_all add: field_pairs_def project_fields_def Let_def)
qed

subsection \<open>What the projected encoder sends\<close>

definition label_key :: "projected_record \<Rightarrow> label_map" where
  "label_key r = normalize_projected_fields (fst (project_fields (pr_fields r)))"

definition project_record :: "projected_record \<Rightarrow> loki_entry" where
  "project_record r = \<lparr>le_timestamp = pr_timestamp r, le_labels = strip_prefix NATIVE_LABEL_PREFIX (label_key r),
     le_line = pr_message r,
     le_metadata = strip_prefix NATIVE_METADATA_PREFIX (normalize_projected_fields (snd (project_fields (pr_fields r))))\<rparr>"

definition projected_ok :: "projected_record \<Rightarrow> bool" where
  "projected_ok r \<longleftrightarrow> 0 \<le> sint (pr_timestamp r) \<and> utf8_valid (pr_message r)
     \<and> (\<forall>(k, v) \<in> set (pr_fields r). utf8_valid k \<and> utf8_valid v \<and> k \<noteq> NATIVE_LABEL_PREFIX \<and> k \<noteq> NATIVE_METADATA_PREFIX)"

lemma ascii_prefix_utf8:
  "\<forall>b \<in> set p. b < 0x80 \<Longrightarrow> utf8_valid (p @ s) = utf8_valid s"
  by (induction p) auto

lemma starts_with_iff: "starts_with p k \<longleftrightarrow> k = p @ drop (length p) k"
proof
  assume "starts_with p k"
  then show "k = p @ drop (length p) k" by (metis append_take_drop_id starts_with_def)
next
  assume "k = p @ drop (length p) k"
  then show "starts_with p k" by (metis append_eq_conv_conj starts_with_def)
qed

lemma append_less_same_prefix: "p @ a < p @ b \<longleftrightarrow> a < (b :: 'a::linorder list)"
  by (induction p) auto

lemma strip_prefix_inj:
  assumes "\<forall>(k, v) \<in> set xs. starts_with p k" "\<forall>(k, v) \<in> set ys. starts_with p k"
    and "strip_prefix p xs = strip_prefix p ys"
  shows "xs = ys"
  using assms
proof (induction xs arbitrary: ys)
  case (Cons x xs)
  obtain y ys' where ys: "ys = y # ys'" using Cons.prems(3) by (cases ys) (auto simp: strip_prefix_def)
  from Cons.prems ys have "fst x = p @ drop (length p) (fst x)" "fst y = p @ drop (length p) (fst y)"
    "drop (length p) (fst x) = drop (length p) (fst y)" "snd x = snd y"
    by (auto simp: strip_prefix_def starts_with_iff split: prod.splits)
  then have "x = y" by (metis prod.collapse)
  moreover have "xs = ys'"
    using Cons.prems by (intro Cons.IH) (simp_all add: ys strip_prefix_def)
  ultimately show ?case by (simp add: ys)
qed (simp add: strip_prefix_def)

lemma strip_prefix_labels_ok:
  assumes "btree_ok xs" "\<forall>(k, v) \<in> set xs. starts_with p k \<and> k \<noteq> p \<and> utf8_valid k \<and> utf8_valid v"
    and "\<forall>b \<in> set p. b < 0x80"
    and "\<forall>kv \<in> set (strip_prefix p xs). length (fst kv) < 2 ^ 16 \<and> length (snd kv) < 2 ^ 16"
  shows "labels_ok (strip_prefix p xs)"
proof -
  have parts: "drop (length p) k \<noteq> [] \<and> utf8_valid (drop (length p) k) \<and> utf8_valid v" if "(k, v) \<in> set xs" for k v
  proof -
    from that assms(2) have k: "k = p @ drop (length p) k" "k \<noteq> p" "utf8_valid k" "utf8_valid v"
      by (auto simp: starts_with_iff)
    from k(1,2) have "drop (length p) k \<noteq> []" by (metis append_Nil2)
    moreover have "utf8_valid (drop (length p) k)" using k(1,3) ascii_prefix_utf8 [OF assms(3)] by metis
    ultimately show ?thesis using k(4) by simp
  qed
  have "sorted_wrt (\<lambda>x y. drop (length p) (fst x) < drop (length p) (fst y)) xs"
  proof (rule sorted_wrt_mono_rel [of _ "\<lambda>x y. fst x < fst y"])
    fix x y assume "x \<in> set xs" "y \<in> set xs" "fst x < fst y"
    with assms(2) have "fst x = p @ drop (length p) (fst x)" "fst y = p @ drop (length p) (fst y)"
      by (auto simp: starts_with_iff)
    then show "drop (length p) (fst x) < drop (length p) (fst y)"
      using \<open>fst x < fst y\<close> by (metis append_less_same_prefix)
  qed (use assms(1) in \<open>simp add: btree_ok_def sorted_wrt_map\<close>)
  then have "btree_ok (strip_prefix p xs)"
    by (simp add: btree_ok_def strip_prefix_def sorted_wrt_map case_prod_unfold)
  with parts assms(4) show ?thesis
    by (fastforce simp: labels_ok_def strip_prefix_def string16_ok_def)
qed

lemma prefix_ascii: "\<forall>b \<in> set NATIVE_LABEL_PREFIX. b < 0x80" "\<forall>b \<in> set NATIVE_METADATA_PREFIX. b < 0x80"
  by (simp_all add: NATIVE_LABEL_PREFIX_def NATIVE_METADATA_PREFIX_def ascii_def)

lemma projected_fields_ok:
  assumes "projected_ok r"
  shows "\<forall>(k, v) \<in> set (label_key r). starts_with NATIVE_LABEL_PREFIX k \<and> k \<noteq> NATIVE_LABEL_PREFIX
      \<and> utf8_valid k \<and> utf8_valid v"
    and "\<forall>(k, v) \<in> set (normalize_projected_fields (snd (project_fields (pr_fields r)))).
      starts_with NATIVE_METADATA_PREFIX k \<and> k \<noteq> NATIVE_METADATA_PREFIX \<and> utf8_valid k \<and> utf8_valid v"
proof -
  have f: "utf8_valid k \<and> utf8_valid v \<and> k \<noteq> NATIVE_LABEL_PREFIX \<and> k \<noteq> NATIVE_METADATA_PREFIX"
    if "(k, v) \<in> set (pr_fields r)" for k v
    using assms that unfolding projected_ok_def by blast
  have "(k, v) \<in> set (pr_fields r) \<and> starts_with NATIVE_LABEL_PREFIX k" if "(k, v) \<in> set (label_key r)" for k v
    using that normalize_set [of "fst (project_fields (pr_fields r))"]
    unfolding label_key_def field_pairs_project by auto
  with f show "\<forall>(k, v) \<in> set (label_key r). starts_with NATIVE_LABEL_PREFIX k \<and> k \<noteq> NATIVE_LABEL_PREFIX
      \<and> utf8_valid k \<and> utf8_valid v" by blast
  have "(k, v) \<in> set (pr_fields r) \<and> starts_with NATIVE_METADATA_PREFIX k"
    if "(k, v) \<in> set (normalize_projected_fields (snd (project_fields (pr_fields r))))" for k v
    using that normalize_set [of "snd (project_fields (pr_fields r))"]
    unfolding field_pairs_project by auto
  with f show "\<forall>(k, v) \<in> set (normalize_projected_fields (snd (project_fields (pr_fields r)))).
      starts_with NATIVE_METADATA_PREFIX k \<and> k \<noteq> NATIVE_METADATA_PREFIX \<and> utf8_valid k \<and> utf8_valid v"
    by blast
qed

section \<open>The encoders against their specification\<close>

text \<open>Streams in label order, without hashing and without the single-stream shortcut.\<close>

definition label_streams :: "loki_entry list \<Rightarrow> (label_map \<times> loki_entry list) list" where
  "label_streams entries = map (\<lambda>l. (l, map take_labels (filter (\<lambda>e. le_labels e = l) entries)))
     (sorted_list_of_set (le_labels ` set entries))"

definition encode_log_query_reference :: "bytes \<Rightarrow> loki_entry list \<Rightarrow> native_error + bytes" where
  "encode_log_query_reference tenant entries =
     rbind (validate_tenant tenant) (\<lambda>_.
     rbind (ok_or (NativeProtocolError ''native batch contains more than u32 records'')
              (usize_to_u32 (length entries))) (\<lambda>record_count.
     if \<exists>e \<in> set entries. sint (le_timestamp e) < 0
     then Inl (NativeProtocolError ''negative native log timestamps are unsupported'')
     else if length (label_streams entries) > MAX_STREAMS
     then Inl (NativeProtocolError ''native batch contains too many streams'')
     else put_streams tenant record_count (map (apsnd (map entry_fields)) (label_streams entries))))"

lemma group_entries_sorted:
  assumes "\<And>m. mset (order m) = mset m"
  shows "rmap (sort_key fst) (group_entries order entries) =
    (if \<exists>e \<in> set entries. sint (le_timestamp e) < 0
     then Inl (NativeProtocolError ''negative native log timestamps are unsupported'')
     else Inr (label_streams entries))"
proof (cases "single_stream entries")
  case True
  have "groups le_labels take_labels entries = sort_key fst (id (groups le_labels take_labels entries))"
    by (simp flip: single_stream_groups(1) [OF True])
  also have "\<dots> = label_streams entries" unfolding label_streams_def by (rule sort_groups) simp
  finally have "[(le_labels (hd entries), map take_labels entries)] = label_streams entries"
    using single_stream_groups(1) [OF True] by simp
  moreover have "rmap (sort_key fst) (group_entries order entries) = Inr [(le_labels (hd entries), map take_labels entries)]"
    by (simp add: group_entries_def True)
  ultimately show ?thesis using single_stream_groups(2) [OF True] by argo
next
  case False
  then show ?thesis
    using sort_groups [of order le_labels take_labels entries] assms
    by (auto simp: group_entries_def rfold_group_entry foldl_group_push label_streams_def)
qed

lemma encode_log_query_reference:
  assumes "\<And>m. mset (order m) = mset m"
  shows "encode_native_log_query_result order tenant entries = encode_log_query_reference tenant entries"
proof -
  have g: "group_entries order entries = Inl e \<longleftrightarrow> rmap (sort_key fst) (group_entries order entries) = Inl e" for e
    by (cases "group_entries order entries") auto
  have "rbind (group_entries order entries) (\<lambda>streams.
     if length streams > MAX_STREAMS then Inl (NativeProtocolError ''native batch contains too many streams'')
     else put_streams tenant rc (map (apsnd (map entry_fields)) (sort_key fst streams)))
   = rbind (rmap (sort_key fst) (group_entries order entries)) (\<lambda>streams.
     if length streams > MAX_STREAMS then Inl (NativeProtocolError ''native batch contains too many streams'')
     else put_streams tenant rc (map (apsnd (map entry_fields)) streams))" for rc
    by (simp add: rbind_rmap)
  then show ?thesis
    unfolding encode_native_log_query_result_def encode_log_query_reference_def group_entries_sorted [of order, OF assms]
    by (auto intro!: rbind_cong)
qed

lemma mset_concat_groups:
  "distinct ls \<Longrightarrow> key ` set xs \<subseteq> set ls \<Longrightarrow> mset (concat (map (\<lambda>l. filter (\<lambda>x. key x = l) xs) ls)) = mset xs"
proof (induction ls arbitrary: xs)
  case (Cons l ls)
  let ?ys = "filter (\<lambda>x. key x \<noteq> l) xs"
  have eq: "map (\<lambda>l. filter (\<lambda>x. key x = l) ?ys) ls = map (\<lambda>l. filter (\<lambda>x. key x = l) xs) ls"
    using Cons.prems(1) by (auto intro!: filter_cong)
  have "mset (concat (map (\<lambda>l. filter (\<lambda>x. key x = l) ?ys) ls)) = mset ?ys"
    using Cons.prems by (intro Cons.IH) auto
  then have "mset (concat (map (\<lambda>l. filter (\<lambda>x. key x = l) xs) ls)) = mset ?ys" unfolding eq .
  then have "mset (concat (map (\<lambda>l. filter (\<lambda>x. key x = l) xs) (l # ls)))
      = {#x \<in># mset xs. key x = l#} + {#x \<in># mset xs. \<not> key x = l#}" by simp
  then show ?case by (simp only: multiset_partition [symmetric])
qed simp

definition entry_ok :: "loki_entry \<Rightarrow> bool" where
  "entry_ok e \<longleftrightarrow> utf8_valid (le_line e) \<and> labels_ok (le_labels e) \<and> labels_ok (le_metadata e)"

lemma stream_entries_label_streams:
  "map stream_entries (map (apsnd (map entry_fields)) (label_streams entries))
     = map (\<lambda>l. filter (\<lambda>e. le_labels e = l) entries) (sorted_list_of_set (le_labels ` set entries))"
proof -
  have "map (\<lambda>e. entry_with l (entry_fields (take_labels e))) (filter (\<lambda>e. le_labels e = l) entries)
      = filter (\<lambda>e. le_labels e = l) entries" for l
    by (rule map_idI) (auto simp: entry_with_def entry_fields_def take_labels_def)
  then show ?thesis by (simp add: label_streams_def stream_entries_def comp_def)
qed

lemma label_streams_text_ok:
  assumes "list_all entry_ok entries" "\<not> (\<exists>e \<in> set entries. sint (le_timestamp e) < 0)"
  shows "list_all stream_text_ok (map (apsnd (map entry_fields)) (label_streams entries))"
  using assms
  by (fastforce simp: list_all_iff label_streams_def stream_text_ok_def entry_ok_def entry_text_ok_def
      entry_fields_def take_labels_def)

section \<open>The projected encoder\<close>

definition match_value :: "projected_record \<Rightarrow> u64 \<times> bytes \<times> label_map" where
  "match_value r = (pr_timestamp r, pr_message r, normalize_projected_fields (snd (project_fields (pr_fields r))))"

definition strip_stream :: "label_map \<times> (u64 \<times> bytes \<times> label_map) list \<Rightarrow> label_map \<times> (u64 \<times> bytes \<times> label_map) list" where
  "strip_stream = (\<lambda>(labels, entries). (strip_prefix NATIVE_LABEL_PREFIX labels,
     map (\<lambda>(ts, m, metadata). (ts, m, strip_prefix NATIVE_METADATA_PREFIX metadata)) entries))"

lemma foldl_group_match: "foldl group_match [] ms = groups label_key match_value ms"
proof -
  have eq: "group_match = (\<lambda>m r. group_push (label_key r) (match_value r) m)"
    by (auto simp: fun_eq_iff group_match_def label_key_def match_value_def split: prod.splits)
  show ?thesis unfolding eq by (rule foldl_group_push)
qed

lemma strip_stream_entries:
  "stream_entries (strip_stream (k, map match_value (filter (\<lambda>r. label_key r = k) ms)))
     = map project_record (filter (\<lambda>r. label_key r = k) ms)"
  by (auto simp: stream_entries_def strip_stream_def match_value_def project_record_def entry_with_def)

lemma order_groups:
  assumes "\<And>m. mset (order m) = mset m"
  obtains ks where "order (groups key val xs) = map (\<lambda>k. (k, map val (filter (\<lambda>x. key x = k) xs))) ks"
    "distinct ks" "set ks = key ` set xs"
proof -
  let ?f = "\<lambda>k. (k, map val (filter (\<lambda>x. key x = k) xs))"
  let ?o = "order (groups key val xs)"
  have m: "mset ?o = mset (groups key val xs)" by (rule assms)
  then have s: "set ?o = set (groups key val xs)" by (metis set_mset_mset)
  have "?o = map ?f (map fst ?o)"
    using s by (intro nth_equalityI) (auto simp: groups_def dest!: nth_mem)
  moreover have "map fst (groups key val xs) = first_keys key xs" by (simp add: groups_def comp_def)
  with m have "mset (map fst ?o) = mset (first_keys key xs)" by (metis mset_map)
  then have "distinct (map fst ?o)" "set (map fst ?o) = key ` set xs"
    using mset_eq_imp_distinct_iff distinct_first_keys set_first_keys mset_eq_setD by metis+
  ultimately show ?thesis by (rule that)
qed

lemma labels_project_record:
  assumes "projected_ok r" "projected_ok s"
  shows "le_labels (project_record r) = le_labels (project_record s) \<longleftrightarrow> label_key r = label_key s"
  using strip_prefix_inj [of "label_key r" NATIVE_LABEL_PREFIX "label_key s"]
    projected_fields_ok(1) [OF assms(1)] projected_fields_ok(1) [OF assms(2)]
  by (auto simp: project_record_def)

lemma filter_concat_groups:
  assumes "distinct ks" "\<And>k x. k \<in> set ks \<Longrightarrow> x \<in> set (f k) \<Longrightarrow> (P x \<longleftrightarrow> k = k0)" "k0 \<in> set ks"
  shows "filter P (concat (map f ks)) = f k0"
  using assms
proof (induction ks)
  case (Cons k ks)
  show ?case
  proof (cases "k = k0")
    case True
    with Cons.prems have "\<forall>k' \<in> set ks. filter P (f k') = []" by (auto simp: filter_empty_conv)
    then have "filter P (concat (map f ks)) = []" by (auto simp: filter_empty_conv)
    moreover have "filter P (f k) = f k" using Cons.prems(2) [of k] True by (intro filter_True) auto
    ultimately show ?thesis using True by simp
  next
    case False
    with Cons.prems have "filter P (f k) = []" by (auto simp: filter_empty_conv)
    with Cons False show ?thesis by auto
  qed
qed simp

lemma projected_streams_text_ok:
  assumes "list_all projected_ok ms" "k \<in> label_key ` set ms"
    and "stream_fits (strip_stream (k, map match_value (filter (\<lambda>r. label_key r = k) ms)))"
  shows "stream_text_ok (strip_stream (k, map match_value (filter (\<lambda>r. label_key r = k) ms)))"
proof -
  have ok: "projected_ok r" if "r \<in> set ms" for r using assms(1) that by (simp add: list_all_iff)
  obtain r0 where r0: "r0 \<in> set ms" "label_key r0 = k" using assms(2) by auto
  have "labels_ok (strip_prefix NATIVE_LABEL_PREFIX (label_key r0))"
    using assms(3) normalize_fields [OF project_fields_sorted(1)] projected_fields_ok(1) [OF ok [OF r0(1)]] r0(2)
    by (intro strip_prefix_labels_ok prefix_ascii) (auto simp: label_key_def stream_fits_def strip_stream_def)
  moreover have "labels_ok (strip_prefix NATIVE_METADATA_PREFIX (normalize_projected_fields (snd (project_fields (pr_fields r)))))"
    if "r \<in> set ms" "label_key r = k" for r
  proof -
    have "entry_fits (case match_value r of (ts, m, md) \<Rightarrow> (ts, m, strip_prefix NATIVE_METADATA_PREFIX md))"
      using assms(3) that by (auto simp: stream_fits_def strip_stream_def list_all_iff)
    then show ?thesis
      using normalize_fields [OF project_fields_sorted(2)] projected_fields_ok(2) [OF ok [OF that(1)]]
      by (intro strip_prefix_labels_ok prefix_ascii) (auto simp: entry_fits_def match_value_def)
  qed
  ultimately show ?thesis
    using ok r0(2)
    by (auto simp: stream_text_ok_def strip_stream_def list_all_iff entry_text_ok_def match_value_def projected_ok_def)
qed

lemma encode_matches_decodes:
  assumes perm: "\<And>m. mset (order m) = mset m" and ok: "utf8_valid tenant" "list_all projected_ok ms"
    and enc: "encode_native_log_query_matches order tenant ms = Inr bs"
  obtains ks where "distinct ks" "set ks = label_key ` set ms" "decode_native_log_query_result bs
      = Inr \<lparr>lqr_tenant = tenant, lqr_entries = concat (map (\<lambda>k. map project_record (filter (\<lambda>r. label_key r = k) ms)) ks)\<rparr>"
proof -
  obtain ks where ks: "order (groups label_key match_value ms)
      = map (\<lambda>k. (k, map match_value (filter (\<lambda>r. label_key r = k) ms))) ks" "distinct ks" "set ks = label_key ` set ms"
    by (rule order_groups [OF perm])
  let ?ss = "map (\<lambda>k. strip_stream (k, map match_value (filter (\<lambda>r. label_key r = k) ms))) ks"
  let ?es = "concat (map (\<lambda>k. map project_record (filter (\<lambda>r. label_key r = k) ms)) ks)"
  from enc obtain rc where rc: "length ms = unat rc" and put: "put_streams tenant rc ?ss = Inr bs"
    and tn: "tenant \<noteq> []" "length tenant \<le> 1024"
    by (auto simp: encode_native_log_query_matches_def result_simps usize_to_u32_Some foldl_group_match ks(1)
        validate_tenant_def frame_consts strip_stream_def comp_def Let_def split: if_splits)
  have es: "map stream_entries ?ss = map (\<lambda>k. map project_record (filter (\<lambda>r. label_key r = k) ms)) ks"
    by (simp add: strip_stream_entries)
  have "mset ?es = mset (map project_record (concat (map (\<lambda>k. filter (\<lambda>r. label_key r = k) ms) ks)))"
    by (simp add: map_concat comp_def)
  also have "\<dots> = image_mset project_record (mset ms)"
    using mset_concat_groups [OF ks(2), of label_key ms] ks(3) by simp
  finally have "length ?es = length ms" by (metis size_image_mset size_mset)
  then have "unat rc = length (concat (map stream_entries ?ss))" unfolding es rc [symmetric] by simp
  moreover have "list_all stream_text_ok ?ss"
    using put ks(3) ok(2) by (auto simp: put_streams_Inr list_all_iff intro!: projected_streams_text_ok)
  ultimately have "decode_native_log_query_result (result_layout tenant rc ?ss)
      = Inr \<lparr>lqr_tenant = tenant, lqr_entries = concat (map stream_entries ?ss)\<rparr>"
    using put tn ok(1) by (intro decode_result_layout) (simp_all add: put_streams_Inr)
  with put show ?thesis using ks(2,3) that [of ks] unfolding es by (simp add: put_streams_Inr)
qed

definition sample_entry :: "u8 \<Rightarrow> u64 \<Rightarrow> loki_entry" where
  "sample_entry l ts = \<lparr>le_timestamp = ts, le_labels = [([0x61], [l])], le_line = [0x6C], le_metadata = []\<rparr>"

lemma sample_entries_encode:
  "\<exists>bs. encode_log_query_reference [0x74] [sample_entry 0x7A 5, sample_entry 0x62 9] = Inr bs"
proof -
  let ?es = "[sample_entry 0x7A 5, sample_entry 0x62 9]"
  have s: "sorted_list_of_set (le_labels ` set ?es) = [[([0x61], [0x62])], [([0x61], [0x7A])]]"
    by (simp add: sample_entry_def)
  have "label_streams ?es = [([([0x61], [0x62])], [take_labels (sample_entry 0x62 9)]),
      ([([0x61], [0x7A])], [take_labels (sample_entry 0x7A 5)])]"
    unfolding label_streams_def s by (simp add: sample_entry_def)
  then show ?thesis
    by (simp add: encode_log_query_reference_def validate_tenant_def frame_consts usize_to_u32_def MAX_STREAMS_def
        put_streams_Inr stream_fits_def entry_fits_def entry_fields_def take_labels_def)
       (simp add: sample_entry_def result_layout_def LOG_QUERY_RESULT_MAGIC_def stream_bytes_def entry_bytes_def
        enc_pair_def string16_def)
qed

section \<open>Properties\<close>

text \<open>
  C19: the stream encoder is deterministic and its single-stream shortcut is exact: whatever order the
  hash map yields its streams in, the encoder returns the bytes (or the error) of the reference
  encoder, which has neither hashing nor the shortcut.
\<close>

theorem log_result_reference:
  assumes "\<And>m. mset (order m) = mset m"
  shows "encode_native_log_query_result order tenant entries = encode_log_query_reference tenant entries"
  using assms by (rule encode_log_query_reference)

theorem log_result_reference_witness:
  "encode_native_log_query_result rev [0x74] [sample_entry 0x7A 5, sample_entry 0x62 9]
     = encode_log_query_reference [0x74] [sample_entry 0x7A 5, sample_entry 0x62 9]"
  by (rule log_result_reference) simp





end
