(* ===== verification/NativeLogPage.thy ===== *)
theory NativeLogPage
  imports LogQueryResult
begin

text \<open>
  Byte-bounded log pages (\<^verbatim>\<open>src/src/native_log_page.rs\<close>): the page query and result on the wire, and the
  continuation cursors that are bound to their query by its digest.

  URL-safe base64 without padding (the crate \<^verbatim>\<open>base64\<close>), BLAKE3 and MessagePack are arguments.
\<close>

section \<open>Constants and data\<close>

definition PAGE_QUERY_MAGIC :: bytes where "PAGE_QUERY_MAGIC = [0x53, 0x54, 0x51, 0x34]"
definition PAGE_RESULT_MAGIC :: bytes where "PAGE_RESULT_MAGIC = [0x53, 0x54, 0x52, 0x34]"
definition PAGE_QUERY_HEADER_BYTES :: nat where "PAGE_QUERY_HEADER_BYTES = 16"
definition CURSOR_BYTES :: nat where "CURSOR_BYTES = 52"
definition MAX_NATIVE_LOG_PAGE_BYTES :: u32 where "MAX_NATIVE_LOG_PAGE_BYTES = 32 * 1024 * 1024"
definition PAGE_RECORD_BATCH :: nat where "PAGE_RECORD_BATCH = 256"

lemmas page_consts = PAGE_QUERY_MAGIC_def PAGE_RESULT_MAGIC_def PAGE_QUERY_HEADER_BYTES_def CURSOR_BYTES_def
  PAGE_RECORD_BATCH_def

record native_log_page_query =
  lpq_query :: native_query
  lpq_max_bytes :: u32
  lpq_cursor :: "bytes option"

record native_log_query_page =
  lqp_tenant :: bytes
  lqp_entries :: "loki_entry list"
  lqp_next_cursor :: "bytes option"

record page_position =
  pp_timestamp :: u64
  pp_partition :: u32
  pp_offset :: logical_offset

record page_codecs =
  pc_b64_encode :: "bytes \<Rightarrow> bytes"
  pc_b64_decode :: "bytes \<Rightarrow> bytes option"
  pc_blake3 :: "bytes \<Rightarrow> bytes"
  pc_page_to_vec :: "native_log_query_page \<Rightarrow> string + bytes"
  pc_page_from_slice :: "bytes \<Rightarrow> string + native_log_query_page"

section \<open>Cursors\<close>

definition decode_page_cursor :: "page_codecs \<Rightarrow> bytes \<Rightarrow> bytes \<Rightarrow> native_error + page_position" where
  "decode_page_cursor codecs query cursor =
     rbind (ok_or (NativeProtocolError ''invalid native log page cursor'') (pc_b64_decode codecs cursor)) (\<lambda>bytes.
       if length bytes \<noteq> CURSOR_BYTES \<or> take 32 bytes \<noteq> pc_blake3 codecs query then
         Inl (NativeProtocolError ''native log page cursor does not match its query'')
       else Inr \<lparr>pp_timestamp = from_le (slice 32 40 bytes), pp_partition = from_le (slice 40 44 bytes),
                 pp_offset = from_le (slice 44 52 bytes)\<rparr>)"

definition encode_page_cursor :: "page_codecs \<Rightarrow> bytes \<Rightarrow> page_position \<Rightarrow> bytes" where
  "encode_page_cursor codecs query position =
     pc_b64_encode codecs (pc_blake3 codecs query @ u64_le (pp_timestamp position) @ u32_le (pp_partition position)
       @ u64_le (pp_offset position))"

section \<open>Page queries\<close>

definition validate_page_query :: "page_codecs \<Rightarrow> native_log_page_query \<Rightarrow> native_error + bytes" where
  "validate_page_query codecs request =
     rbind (encode_native_query (lpq_query request)) (\<lambda>query.
       if lpq_max_bytes request = 0 \<or> lpq_max_bytes request > MAX_NATIVE_LOG_PAGE_BYTES then
         Inl (NativeProtocolError (''native log page max_bytes must be in 1..='' @ dec_digits (unat MAX_NATIVE_LOG_PAGE_BYTES)))
       else rbind (case lpq_cursor request of None \<Rightarrow> Inr ()
           | Some cursor \<Rightarrow> rmap (\<lambda>_. ()) (decode_page_cursor codecs query cursor)) (\<lambda>_.
         Inr query))"

definition encode_native_log_page_query :: "page_codecs \<Rightarrow> native_log_page_query \<Rightarrow> native_error + bytes" where
  "encode_native_log_page_query codecs request =
     rbind (validate_page_query codecs request) (\<lambda>query.
     let cursor = (case lpq_cursor request of None \<Rightarrow> [] | Some c \<Rightarrow> c) in
     rbind (ok_or (NativeProtocolError ''native log page cursor is too long'') (usize_to_u16 (length cursor))) (\<lambda>cursor_len.
     rbind (ok_or (NativeProtocolError ''native log page query is too long'') (usize_to_u32 (length query))) (\<lambda>query_len.
     Inr (PAGE_QUERY_MAGIC @ u32_le (lpq_max_bytes request) @ u16_le cursor_len @ u16_le 0 @ u32_le query_len
       @ cursor @ query))))"

definition decode_native_log_page_query :: "page_codecs \<Rightarrow> bytes \<Rightarrow> native_error + native_log_page_query" where
  "decode_native_log_page_query codecs payload =
     (if length payload < PAGE_QUERY_HEADER_BYTES \<or> take 4 payload \<noteq> PAGE_QUERY_MAGIC \<or> slice 10 12 payload \<noteq> [0, 0] then
        Inl (NativeProtocolError ''invalid native log page query header'')
      else
        let max_bytes = from_le (slice 4 8 payload) :: u32;
            cursor_len = unat (from_le (slice 8 10 payload) :: u16);
            query_len = unat (from_le (slice 12 16 payload) :: u32);
            end = PAGE_QUERY_HEADER_BYTES + cursor_len + query_len in
        if end \<noteq> length payload then Inl (NativeProtocolError ''native log page query length mismatch'')
        else let query_start = end - query_len;
                 cursor = slice PAGE_QUERY_HEADER_BYTES query_start payload in
        if \<not> utf8_valid cursor then Inl (NativeProtocolError ''native log page cursor is not UTF-8'')
        else rbind (decode_native_query (drop query_start payload)) (\<lambda>query.
          let request = \<lparr>lpq_query = query, lpq_max_bytes = max_bytes,
                         lpq_cursor = (if cursor = [] then None else Some cursor)\<rparr> in
          rbind (validate_page_query codecs request) (\<lambda>_. Inr request)))"

section \<open>Pages\<close>

text \<open>The sums of \<^verbatim>\<open>usize\<close> lengths saturate; a string in memory is far shorter than the largest \<^verbatim>\<open>usize\<close>.\<close>

definition usize_saturating_add :: "nat \<Rightarrow> nat \<Rightarrow> nat" where
  "usize_saturating_add a b = min (a + b) (2 ^ 64 - 1)"

definition native_log_entry_bytes :: "loki_entry \<Rightarrow> nat" where
  "native_log_entry_bytes entry =
     fold (\<lambda>(key, value) bytes. usize_saturating_add (usize_saturating_add bytes (length key)) (length value))
       (le_labels entry @ le_metadata entry) (length (le_line entry))"

definition encode_native_log_query_page :: "page_codecs \<Rightarrow> native_log_query_page \<Rightarrow> native_error + bytes" where
  "encode_native_log_query_page codecs page =
     (if length (lqp_entries page) > PAGE_RECORD_BATCH then
        Inl (NativeProtocolError ''native log page contains too many records'')
      else rbind (map_err (\<lambda>e. NativeProtocolError (''native log page encoding failed: '' @ e))
                    (pc_page_to_vec codecs page)) (\<lambda>result.
        let encoded = PAGE_RESULT_MAGIC @ result in
        if length encoded > MAX_NATIVE_FRAME_BYTES then
          Inl (NativeProtocolError ''native log page exceeds the frame byte limit'')
        else Inr encoded))"

definition decode_native_log_query_page :: "page_codecs \<Rightarrow> bytes \<Rightarrow> native_error + native_log_query_page" where
  "decode_native_log_query_page codecs payload =
     (if length payload < 4 \<or> take 4 payload \<noteq> PAGE_RESULT_MAGIC \<or> length payload > MAX_NATIVE_FRAME_BYTES then
        Inl (NativeProtocolError ''invalid native log page result header'')
      else rbind (map_err (\<lambda>e. NativeProtocolError (''invalid native log page result: '' @ e))
                    (pc_page_from_slice codecs (drop 4 payload))) (\<lambda>page.
        if length (lqp_entries page) > PAGE_RECORD_BATCH \<or> lqp_tenant page = []
           \<or> (case lqp_next_cursor page of None \<Rightarrow> False
               | Some cursor \<Rightarrow> (case pc_b64_decode codecs cursor of None \<Rightarrow> True | Some bytes \<Rightarrow> length bytes \<noteq> CURSOR_BYTES)) then
          Inl (NativeProtocolError ''invalid native log page result contents'')
        else Inr page))"

section \<open>Cursors are bound to their query\<close>

text \<open>The documented behaviour of base64: decoding undoes encoding, and nothing is written for nothing.\<close>

definition base64_ok :: "page_codecs \<Rightarrow> bool" where
  "base64_ok codecs \<longleftrightarrow> (\<forall>bs. pc_b64_decode codecs (pc_b64_encode codecs bs) = Some bs) \<and> pc_b64_encode codecs [] = []"

lemma cursor_under_query:
  assumes "base64_ok codecs" "length (pc_blake3 codecs query) = 32"
  shows "decode_page_cursor codecs query' (encode_page_cursor codecs query position) =
    (if pc_blake3 codecs query = pc_blake3 codecs query' then Inr position
     else Inl (NativeProtocolError ''native log page cursor does not match its query''))"
  using assms
  by (cases "pc_blake3 codecs query = pc_blake3 codecs query'")
     (simp_all add: decode_page_cursor_def encode_page_cursor_def base64_ok_def CURSOR_BYTES_def slice_def)

section \<open>Page queries survive the wire\<close>

lemma decode_page_cursor_empty:
  assumes "base64_ok codecs"
  shows "decode_page_cursor codecs query [] \<noteq> Inr p"
proof -
  have "pc_b64_decode codecs [] = Some []" using assms unfolding base64_ok_def by metis
  then show ?thesis by (simp add: decode_page_cursor_def CURSOR_BYTES_def)
qed

definition normal_query :: "native_query \<Rightarrow> native_query" where
  "normal_query q = q\<lparr>nq_start := drop_max (nq_start q), nq_end := drop_max (nq_end q)\<rparr>"

lemma encode_normal_query: "encode_native_query q = Inr bs \<Longrightarrow> encode_native_query (normal_query q) = Inr bs"
proof -
  assume "encode_native_query q = Inr bs"
  then have v: "validate_query q = Inr ()" and bs: "bs = query_layout q" by (auto simp: encode_native_query_eq result_simps)
  have "validate_query (normal_query q) = Inr ()"
    using v by (auto simp: validate_query_ok normal_query_def drop_max_def)
  moreover have "query_layout (normal_query q) = query_layout q"
    by (auto simp: query_layout_def normal_query_def drop_max_def split: option.splits)
  ultimately show ?thesis using bs by (simp add: encode_native_query_eq)
qed

lemma validate_normal_page:
  assumes "validate_page_query codecs r = Inr query"
  shows "validate_page_query codecs (r\<lparr>lpq_query := normal_query (lpq_query r)\<rparr>) = Inr query"
proof -
  obtain q where q: "encode_native_query (lpq_query r) = Inr q" using assms by (auto simp: validate_page_query_def result_simps)
  with assms encode_normal_query [OF q] show ?thesis by (simp add: validate_page_query_def split: if_splits)
qed

definition page_cursor :: "native_log_page_query \<Rightarrow> bytes" where
  "page_cursor r = (case lpq_cursor r of None \<Rightarrow> [] | Some c \<Rightarrow> c)"

definition page_layout :: "native_log_page_query \<Rightarrow> bytes \<Rightarrow> bytes" where
  "page_layout r query = PAGE_QUERY_MAGIC @ u32_le (lpq_max_bytes r) @ u16_le (of_nat (length (page_cursor r))) @ u16_le 0
     @ u32_le (of_nat (length query)) @ page_cursor r @ query"

lemma page_layout_slices:
  "16 \<le> length (page_layout r query)" "take 4 (page_layout r query) = PAGE_QUERY_MAGIC"
  "slice 4 8 (page_layout r query) = u32_le (lpq_max_bytes r)"
  "slice 8 10 (page_layout r query) = u16_le (of_nat (length (page_cursor r)))"
  "slice 10 12 (page_layout r query) = u16_le 0"
  "slice 12 16 (page_layout r query) = u32_le (of_nat (length query))"
  "length (page_layout r query) = 16 + length (page_cursor r) + length query"
  "slice 16 (16 + length (page_cursor r)) (page_layout r query) = page_cursor r"
  by (simp_all add: page_layout_def PAGE_QUERY_MAGIC_def slice_def)

lemma page_layout_query: "drop (16 + length (page_cursor r)) (page_layout r query) = query"
proof -
  have "drop 16 (page_layout r query) = page_cursor r @ query" by (simp add: page_layout_def PAGE_QUERY_MAGIC_def)
  then show ?thesis by (metis add.commute append_eq_conv_conj drop_drop)
qed

lemma u16_le_0: "u16_le 0 = [0, 0]"
  by code_simp

lemma page_encode_Inr:
  assumes "encode_native_log_page_query codecs r = Inr bs"
  obtains query where "validate_page_query codecs r = Inr query" "bs = page_layout r query"
    "length (page_cursor r) < 2 ^ 16" "length query < 2 ^ 32"
  using assms
  by (auto simp: encode_native_log_page_query_def result_simps Let_def page_layout_def page_cursor_def
      usize_to_u16_def usize_to_u32_def split: if_splits)

section \<open>An example\<close>

definition sample_page_codecs :: page_codecs where
  "sample_page_codecs = \<lparr>pc_b64_encode = (\<lambda>bs. bs), pc_b64_decode = Some, pc_blake3 = (\<lambda>bs. replicate 32 (of_nat (length bs mod 64))),
     pc_page_to_vec = (\<lambda>_. Inl ''unused''), pc_page_from_slice = (\<lambda>_. Inl ''unused'')\<rparr>"

definition sample_position :: page_position where
  "sample_position = \<lparr>pp_timestamp = 5, pp_partition = 2, pp_offset = 7\<rparr>"

definition sample_page :: native_log_page_query where
  "sample_page = \<lparr>lpq_query = sample_query, lpq_max_bytes = 128,
     lpq_cursor = Some (encode_page_cursor sample_page_codecs (query_layout sample_query) sample_position)\<rparr>"

lemma sample_page_base64: "base64_ok sample_page_codecs" "length (pc_blake3 sample_page_codecs x) = 32"
  by (simp_all add: base64_ok_def sample_page_codecs_def)

lemma sample_query_encodes: "encode_native_query sample_query = Inr (query_layout sample_query)"
  by (simp add: encode_native_query_eq sample_query_ok)

lemma length_sample_query: "length (query_layout sample_query) = 48"
  by (simp add: query_layout_def sample_query_def QUERY_MAGIC_def string16_def enc_pair_def)

lemma sample_page_cursor: "page_cursor sample_page = replicate 32 48 @ [5, 0, 0, 0, 0, 0, 0, 0, 2, 0, 0, 0, 7, 0, 0, 0, 0, 0, 0, 0]"
proof -
  have "u64_le 5 = [5, 0, 0, 0, 0, 0, 0, 0]" "u32_le 2 = [2, 0, 0, 0]" "u64_le 7 = [7, 0, 0, 0, 0, 0, 0, 0]" by code_simp+
  then show ?thesis
    by (simp add: page_cursor_def sample_page_def encode_page_cursor_def sample_page_codecs_def sample_position_def length_sample_query)
qed

lemma sample_page_encodes:
  "encode_native_log_page_query sample_page_codecs sample_page = Inr (page_layout sample_page (query_layout sample_query))"
proof -
  have "validate_page_query sample_page_codecs sample_page = Inr (query_layout sample_query)"
    by (simp add: validate_page_query_def sample_page_def sample_query_encodes cursor_under_query [OF sample_page_base64]
        MAX_NATIVE_LOG_PAGE_BYTES_def)
  then show ?thesis
    by (simp add: encode_native_log_page_query_def page_layout_def usize_to_u16_def usize_to_u32_def length_sample_query
        page_cursor_def [symmetric] sample_page_cursor)
qed

section \<open>Guarantees\<close>

text \<open>
  Page queries survive the wire. What the encoder accepts decodes to the same request, with the
  query's bounds as the indexed-query codec reads them back.
\<close>

lemma page_query_roundtrip:
  assumes "base64_ok codecs" "encode_native_log_page_query codecs r = Inr bs"
    and "query_text_ok (lpq_query r)" "utf8_valid (page_cursor r)"
  shows "decode_native_log_page_query codecs bs = Inr (r\<lparr>lpq_query := normal_query (lpq_query r)\<rparr>)"
proof -
  obtain query where q: "validate_page_query codecs r = Inr query" "bs = page_layout r query"
    "length (page_cursor r) < 2 ^ 16" "length query < 2 ^ 32" by (rule page_encode_Inr [OF assms(2)])
  have enc: "encode_native_query (lpq_query r) = Inr query"
    using q(1) by (auto simp: validate_page_query_def result_simps split: if_splits)
  then have dec: "decode_native_query query = Inr (normal_query (lpq_query r))"
    using query_roundtrip_aux [of "lpq_query r"] assms(3) by (auto simp: encode_native_query_eq result_simps normal_query_def)
  have "lpq_cursor r \<noteq> Some []"
    using q(1) decode_page_cursor_empty [OF assms(1)]
    by (auto simp: validate_page_query_def result_simps split: if_splits)
  then have request: "\<lparr>lpq_query = normal_query (lpq_query r), lpq_max_bytes = lpq_max_bytes r,
      lpq_cursor = (if page_cursor r = [] then None else Some (page_cursor r))\<rparr> = r\<lparr>lpq_query := normal_query (lpq_query r)\<rparr>"
    by (cases r) (auto simp: page_cursor_def split: option.splits)
  have counts: "unat (of_nat (length (page_cursor r)) :: u16) = length (page_cursor r)"
    "unat (of_nat (length query) :: u32) = length query"
    using q(3,4) by (simp_all add: unat_of_nat)
  show ?thesis
    unfolding q(2) decode_native_log_page_query_def PAGE_QUERY_HEADER_BYTES_def Let_def page_layout_slices from_le_bytes counts u16_le_0
      add_diff_cancel_right' page_layout_query dec rbind.simps request
    using validate_normal_page [OF q(1)] assms(4) by (simp add: page_layout_slices)
qed

lemma page_query_roundtrip_witness:
  "decode_native_log_page_query sample_page_codecs (page_layout sample_page (query_layout sample_query)) = Inr sample_page"
proof -
  have "query_text_ok (lpq_query sample_page)" "utf8_valid (page_cursor sample_page)"
    by (simp add: sample_page_def sample_query_ok) (simp add: sample_page_cursor, code_simp)
  from page_query_roundtrip [OF sample_page_base64(1) sample_page_encodes this] show ?thesis
    by (simp add: sample_page_def normal_query_def sample_query_ok)
qed



end
