(* ===== verification/NativeClient.thy ===== *)
theory NativeClient
  imports NativeBatch NativeLogPage
begin

text \<open>
  The native client (\<^verbatim>\<open>src/src/native_client.rs\<close>): its configuration, the exchange of one request and its
  response over a byte stream, the pool of connections and the client's operations.

  A connection's other end is a function from everything the client has written to everything the
  server has sent by then. The network, the deadlines and the operating system appear as faults: a
  fault names the operation that fails and the text of its error.
\<close>

section \<open>Errors and configuration\<close>

record native_client_error =
  nce_message :: string
  nce_status :: "native_status option"

definition client_error :: "string \<Rightarrow> native_client_error" where
  "client_error message = \<lparr>nce_message = message, nce_status = None\<rparr>"

definition server_error :: "native_status \<Rightarrow> string \<Rightarrow> native_client_error" where
  "server_error status message = \<lparr>nce_message = message, nce_status = Some status\<rparr>"

fun from_protocol :: "native_error \<Rightarrow> native_client_error" where
  "from_protocol (NativeProtocolError message) = client_error message"

text \<open>Of the endpoint the client reads whether its address is a loopback address; a duration is in nanoseconds.\<close>

record native_client_config =
  cc_loopback :: bool
  cc_auth_token :: "bytes option"
  cc_max_frame_bytes :: nat
  cc_request_timeout :: nat
  cc_max_connections :: nat
  cc_allow_insecure_remote :: bool

definition client_config_new :: "bool \<Rightarrow> native_client_config" where
  "client_config_new loopback = \<lparr>cc_loopback = loopback, cc_auth_token = None, cc_max_frame_bytes = MAX_NATIVE_FRAME_BYTES,
     cc_request_timeout = 30 * 10 ^ 9, cc_max_connections = 1, cc_allow_insecure_remote = False\<rparr>"

definition with_auth_token :: "bytes \<Rightarrow> native_client_config \<Rightarrow> native_client_config" where
  "with_auth_token token c = c\<lparr>cc_auth_token := Some token\<rparr>"

definition with_max_frame_bytes :: "nat \<Rightarrow> native_client_config \<Rightarrow> native_client_config" where
  "with_max_frame_bytes n c = c\<lparr>cc_max_frame_bytes := n\<rparr>"

definition with_request_timeout :: "nat \<Rightarrow> native_client_config \<Rightarrow> native_client_config" where
  "with_request_timeout t c = c\<lparr>cc_request_timeout := t\<rparr>"

definition with_max_connections :: "nat \<Rightarrow> native_client_config \<Rightarrow> native_client_config" where
  "with_max_connections n c = c\<lparr>cc_max_connections := n\<rparr>"

definition with_insecure_remote :: "native_client_config \<Rightarrow> native_client_config" where
  "with_insecure_remote c = c\<lparr>cc_allow_insecure_remote := True\<rparr>"

definition client_config_validate :: "native_client_config \<Rightarrow> native_client_error + unit" where
  "client_config_validate c =
     (if cc_max_frame_bytes c = 0 \<or> cc_max_frame_bytes c > MAX_NATIVE_FRAME_BYTES then
        Inl (client_error (''native client max_frame_bytes must be in 1..='' @ dec_digits MAX_NATIVE_FRAME_BYTES))
      else if cc_request_timeout c = 0 then Inl (client_error ''native client request_timeout must be nonzero'')
      else if cc_max_connections c = 0 then Inl (client_error ''native client max_connections must be nonzero'')
      else if \<not> cc_allow_insecure_remote c \<and> \<not> cc_loopback c then
        Inl (client_error ''plaintext native transport is restricted to loopback; use a TLS tunnel or explicitly opt in to insecure remote transport'')
      else if cc_auth_token c = Some [] then Inl (client_error ''native client authentication token must not be empty'')
      else Inr ())"

section \<open>Streams\<close>

record stream =
  st_server :: "bytes \<Rightarrow> bytes"
  st_sent :: bytes
  st_received :: bytes

type_synonym net_fault = "string \<Rightarrow> string option"

definition net_io :: "net_fault \<Rightarrow> string \<Rightarrow> string \<Rightarrow> native_client_error + unit" where
  "net_io fault operation message = (case fault operation of None \<Rightarrow> Inr () | Some e \<Rightarrow> Inl (client_error (message @ e)))"

definition write_all :: "net_fault \<Rightarrow> string \<Rightarrow> string \<Rightarrow> bytes \<Rightarrow> stream \<Rightarrow> native_client_error + stream" where
  "write_all fault operation message bs s = rbind (net_io fault operation message) (\<lambda>_. Inr (s\<lparr>st_sent := st_sent s @ bs\<rparr>))"

definition pending :: "stream \<Rightarrow> bytes" where
  "pending s = drop (length (st_received s)) (st_server s (st_sent s))"

definition read_exact :: "net_fault \<Rightarrow> string \<Rightarrow> string \<Rightarrow> nat \<Rightarrow> stream \<Rightarrow> native_client_error + bytes \<times> stream" where
  "read_exact fault operation message n s = rbind (net_io fault operation message) (\<lambda>_.
     if length (pending s) < n then Inl (client_error (message @ ''early eof''))
     else Inr (take n (pending s), s\<lparr>st_received := st_received s @ take n (pending s)\<rparr>))"

section \<open>One exchange\<close>

text \<open>An error drops the stream, so only a success returns it.\<close>

definition text_of :: "bytes \<Rightarrow> string" where
  "text_of bs = map (\<lambda>b. char_of (unat b)) bs"

definition exchange ::
  "(bytes \<Rightarrow> bytes) \<Rightarrow> net_fault \<Rightarrow> stream \<Rightarrow> native_frame \<Rightarrow> nat \<Rightarrow> native_client_error + bytes \<times> stream" where
  "exchange blake3 fault s request max_frame_bytes =
     rbind (write_all fault ''write header'' ''native request header write failed: '' (frame_header_encode (fr_header request)) s) (\<lambda>s.
     rbind (write_all fault ''write payload'' ''native request payload write failed: '' (fr_payload request) s) (\<lambda>s.
     rbind (read_exact fault ''read header'' ''native response header read failed: '' NATIVE_FRAME_HEADER_BYTES s) (\<lambda>(encoded_header, s).
     rbind (map_err from_protocol (frame_header_decode encoded_header)) (\<lambda>header.
     if \<not> fh_is_response header \<or> fh_opcode header \<noteq> fh_opcode (fr_header request)
        \<or> fh_request_id header \<noteq> fh_request_id (fr_header request) then
       Inl (client_error ''native response does not match the active request'')
     else if unat (fh_payload_len header) > max_frame_bytes then
       Inl (client_error ''native response exceeds the configured client frame limit'')
     else
     rbind (read_exact fault ''read payload'' ''native response payload read failed: '' (unat (fh_payload_len header)) s) (\<lambda>(payload, s).
     rbind (map_err from_protocol (verify_payload blake3 header payload)) (\<lambda>_.
     if fh_status header \<noteq> StatusOk then
       Inl (server_error (fh_status header) (if utf8_valid payload then text_of payload
         else ''native server returned a non-UTF-8 error payload''))
     else Inr (payload, s)))))))"

section \<open>The client\<close>

record native_client =
  cl_config :: native_client_config
  cl_connections :: "stream option list"
  cl_request_id_prefix :: u64
  cl_next_request_id :: u64
  cl_next_connection :: u64

text \<open>The prefix is a digest of the endpoint, the process, the time and an address.\<close>

definition client_new :: "u64 \<Rightarrow> native_client_config \<Rightarrow> native_client_error + native_client" where
  "client_new prefix config = rbind (client_config_validate config) (\<lambda>_.
     Inr \<lparr>cl_config = config, cl_connections = replicate (cc_max_connections config) None, cl_request_id_prefix = prefix,
          cl_next_request_id = 1, cl_next_connection = 0\<rparr>)"

definition next_request_id :: "native_client \<Rightarrow> u128 \<times> native_client" where
  "next_request_id cl =
     (or (push_bit 64 (ucast (cl_request_id_prefix cl))) (ucast (cl_next_request_id cl)),
      cl\<lparr>cl_next_request_id := cl_next_request_id cl + 1\<rparr>)"

text \<open>The faults of the authentication exchange have names of their own.\<close>

definition auth_fault :: "net_fault \<Rightarrow> net_fault" where
  "auth_fault fault operation = fault (''authenticate: '' @ operation)"

definition authenticate ::
  "(bytes \<Rightarrow> bytes) \<Rightarrow> net_fault \<Rightarrow> stream \<Rightarrow> bytes \<Rightarrow> u128 \<Rightarrow> nat \<Rightarrow> native_client_error + stream" where
  "authenticate blake3 fault s token request_id max_frame_bytes =
     rbind (map_err from_protocol (frame_request blake3 Authenticate request_id token)) (\<lambda>request.
     rbind (if fault ''authentication deadline'' \<noteq> None then Inl (client_error ''native authentication deadline exceeded'')
            else exchange blake3 (auth_fault fault) s request max_frame_bytes) (\<lambda>(response, s).
     if response \<noteq> [] then Inl (client_error ''native authentication returned an unexpected payload'')
     else Inr s))"

definition open_connection ::
  "(bytes \<Rightarrow> bytes) \<Rightarrow> (bytes \<Rightarrow> bytes) \<Rightarrow> net_fault \<Rightarrow> native_client \<Rightarrow> (native_client_error + stream) \<times> native_client" where
  "open_connection blake3 server fault cl =
     (if fault ''connect deadline'' \<noteq> None then (Inl (client_error ''native connection deadline exceeded''), cl)
      else (case rbind (net_io fault ''connect'' ''native connection failed: '') (\<lambda>_. net_io fault ''nodelay'' ''native TCP_NODELAY failed: '') of
          Inl e \<Rightarrow> (Inl e, cl)
        | Inr _ \<Rightarrow>
            let s = \<lparr>st_server = server, st_sent = [], st_received = []\<rparr> in
            (case cc_auth_token (cl_config cl) of
               None \<Rightarrow> (Inr s, cl)
             | Some token \<Rightarrow>
                 let (request_id, cl) = next_request_id cl in
                 (authenticate blake3 fault s token request_id (cc_max_frame_bytes (cl_config cl)), cl))))"

text \<open>
  The connection of a request is leased from the pool in turn; it goes back only when its exchange
  has completed.
\<close>

definition request_connection ::
  "(bytes \<Rightarrow> bytes) \<Rightarrow> (bytes \<Rightarrow> bytes) \<Rightarrow> net_fault \<Rightarrow> nat \<Rightarrow> native_client \<Rightarrow> (native_client_error + stream) \<times> native_client" where
  "request_connection blake3 server fault i cl = (case cl_connections cl ! i of
       Some s \<Rightarrow> (Inr s, cl)
     | None \<Rightarrow> open_connection blake3 server fault cl)"

definition set_connection :: "nat \<Rightarrow> stream option \<Rightarrow> native_client \<Rightarrow> native_client" where
  "set_connection i s cl = cl\<lparr>cl_connections := (cl_connections cl)[i := s]\<rparr>"

definition client_request ::
  "(bytes \<Rightarrow> bytes) \<Rightarrow> (bytes \<Rightarrow> bytes) \<Rightarrow> net_fault \<Rightarrow> native_opcode \<Rightarrow> u128 \<Rightarrow> bytes \<Rightarrow> native_client
   \<Rightarrow> (native_client_error + bytes) \<times> native_client" where
  "client_request blake3 server fault opcode request_id payload cl =
     (case frame_request blake3 opcode request_id payload of
        Inl e \<Rightarrow> (Inl (from_protocol e), cl)
      | Inr request \<Rightarrow>
          let i = unat (cl_next_connection cl) mod length (cl_connections cl);
              cl = cl\<lparr>cl_next_connection := cl_next_connection cl + 1\<rparr> in
          (case request_connection blake3 server fault i cl of
             (Inl e, cl) \<Rightarrow> (Inl e, set_connection i None cl)
           | (Inr s, cl) \<Rightarrow>
               if fault ''deadline'' \<noteq> None then (Inl (client_error ''native request deadline exceeded''), set_connection i None cl)
               else (case exchange blake3 fault s request (cc_max_frame_bytes (cl_config cl)) of
                   Inl e \<Rightarrow> (Inl e, set_connection i None cl)
                 | Inr (response, s) \<Rightarrow> (Inr response, set_connection i (Some s) cl))))"

section \<open>Operations\<close>

text \<open>A payload is encoded, exchanged under a request identifier and decoded.\<close>

definition client_call ::
  "(bytes \<Rightarrow> bytes) \<Rightarrow> (bytes \<Rightarrow> bytes) \<Rightarrow> net_fault \<Rightarrow> native_opcode \<Rightarrow> u128 \<Rightarrow> native_error + bytes \<Rightarrow> (bytes \<Rightarrow> native_client_error + 'a)
   \<Rightarrow> native_client \<Rightarrow> (native_client_error + 'a) \<times> native_client" where
  "client_call blake3 server fault opcode request_id payload decode cl =
     (case payload of
        Inl e \<Rightarrow> (Inl (from_protocol e), cl)
      | Inr payload \<Rightarrow> map_prod (\<lambda>r. rbind r decode) id (client_request blake3 server fault opcode request_id payload cl))"

text \<open>The same under a fresh identifier, which is taken after the payload is encoded.\<close>

definition client_call_fresh ::
  "(bytes \<Rightarrow> bytes) \<Rightarrow> (bytes \<Rightarrow> bytes) \<Rightarrow> net_fault \<Rightarrow> native_opcode \<Rightarrow> native_error + bytes \<Rightarrow> (bytes \<Rightarrow> native_client_error + 'a)
   \<Rightarrow> native_client \<Rightarrow> (native_client_error + 'a) \<times> native_client" where
  "client_call_fresh blake3 server fault opcode payload decode cl =
     (case payload of
        Inl e \<Rightarrow> (Inl (from_protocol e), cl)
      | Inr bs \<Rightarrow> let (request_id, cl) = next_request_id cl in client_call blake3 server fault opcode request_id payload decode cl)"

definition append_with_opcode where
  "append_with_opcode blake3 fmts server fault batch request_id opcode cl =
     client_call blake3 server fault opcode request_id (encode_native_append blake3 fmts batch) (map_err from_protocol \<circ> ack_decode) cl"

definition append_with_request_id where
  "append_with_request_id blake3 fmts server fault batch request_id cl =
     append_with_opcode blake3 fmts server fault batch request_id Append cl"

text \<open>The one-shot append takes its identifier before it encodes the batch.\<close>

definition client_append where
  "client_append blake3 fmts server fault batch cl =
     (let (request_id, cl) = next_request_id cl in append_with_opcode blake3 fmts server fault batch request_id AppendUntracked cl)"

definition query_logs where
  "query_logs blake3 server fault query cl =
     client_call_fresh blake3 server fault Query (encode_native_query query) (map_err from_protocol \<circ> decode_native_log_query_result) cl"

definition check_log_page :: "page_codecs \<Rightarrow> native_log_page_query \<Rightarrow> native_log_query_page \<Rightarrow> native_client_error + native_log_query_page" where
  "check_log_page codecs query page =
     (if lqp_tenant page \<noteq> nq_tenant (lpq_query query) \<or> length (lqp_entries page) > unat (nq_limit (lpq_query query))
         \<or> foldl (\<lambda>total entry. usize_saturating_add total (native_log_entry_bytes entry)) 0 (lqp_entries page) > unat (lpq_max_bytes query) then
        Inl (client_error ''native log page violates its tenant or result bounds'')
      else case lqp_next_cursor page of
        None \<Rightarrow> Inr page
      | Some cursor \<Rightarrow>
          rbind (map_err from_protocol (encode_native_query (lpq_query query))) (\<lambda>encoded_query.
          rbind (map_err from_protocol (decode_page_cursor codecs encoded_query cursor)) (\<lambda>_. Inr page)))"

definition query_logs_page where
  "query_logs_page blake3 codecs server fault query cl =
     client_call_fresh blake3 server fault QueryLogsPage (encode_native_log_page_query codecs query)
       (\<lambda>response. rbind (map_err from_protocol (decode_native_log_query_page codecs response)) (check_log_page codecs query)) cl"

definition query_metrics where
  "query_metrics blake3 write read server fault query cl =
     client_call_fresh blake3 server fault QueryMetrics (encode_native_metric_query write query)
       (map_err from_protocol \<circ> decode_native_metric_query_result read) cl"

definition query_traces where
  "query_traces blake3 write read server fault query cl =
     client_call_fresh blake3 server fault QueryTraces (encode_native_trace_query write query)
       (map_err from_protocol \<circ> decode_native_trace_query_result read) cl"

definition describe where
  "describe blake3 read server fault cl =
     client_call_fresh blake3 server fault Describe (Inr []) (map_err from_protocol \<circ> decode_native_capabilities read) cl"

definition health_check where
  "health_check blake3 server fault cl =
     client_call_fresh blake3 server fault Ping (Inr (ascii ''health''))
       (\<lambda>response. if response \<noteq> ascii ''health''
          then Inl (client_error ''native health response did not echo the request payload'') else Inr ()) cl"

section \<open>An exchange accepts exactly the answer\<close>

definition stream_after :: "stream \<Rightarrow> bytes \<Rightarrow> stream" where
  "stream_after s bs = s\<lparr>st_sent := st_sent s @ bs\<rparr>"

lemma pending_read:
  "pending (s\<lparr>st_received := st_received s @ take n (pending s)\<rparr>) = drop n (pending s)" if "n \<le> length (pending s)"
  using that by (simp add: pending_def add.commute)

lemma write_all_Inr: "write_all fault operation message bs s = Inr s' \<longleftrightarrow> fault operation = None \<and> s' = stream_after s bs"
  by (auto simp: write_all_def net_io_def stream_after_def split: option.splits)

lemma read_exact_Inr:
  "read_exact fault operation message n s = Inr (bs, s') \<longleftrightarrow>
     fault operation = None \<and> n \<le> length (pending s) \<and> bs = take n (pending s) \<and> s' = s\<lparr>st_received := st_received s @ take n (pending s)\<rparr>"
  by (auto simp: read_exact_def net_io_def split: option.splits)

definition answer_header :: "(bytes \<Rightarrow> bytes) \<Rightarrow> native_frame_header \<Rightarrow> native_status \<Rightarrow> bytes \<Rightarrow> native_frame_header" where
  "answer_header blake3 h status payload = \<lparr>fh_opcode = fh_opcode h, fh_request_id = fh_request_id h, fh_status = status,
     fh_is_response = True, fh_payload_len = of_nat (length payload), fh_payload_checksum = payload_checksum blake3 payload\<rparr>"

lemma frame_response_Inr:
  "frame_response blake3 (fh_opcode h) (fh_request_id h) status payload = Inr r \<longleftrightarrow>
     length payload \<le> MAX_NATIVE_FRAME_BYTES \<and> r = \<lparr>fr_header = answer_header blake3 h status payload, fr_payload = payload\<rparr>"
  by (auto simp: frame_response_def frame_header_new_def answer_header_def result_simps usize_to_u32_def frame_consts)

lemma frame_request_Inr:
  "frame_request blake3 opcode request_id payload = Inr r \<Longrightarrow>
     fh_opcode (fr_header r) = opcode \<and> fh_request_id (fr_header r) = request_id \<and> fr_payload r = payload"
  by (auto simp: frame_request_def frame_header_new_def result_simps split: if_splits)

definition net_ok :: "net_fault \<Rightarrow> bool" where
  "net_ok fault \<longleftrightarrow> (\<forall>operation \<in> {''write header'', ''write payload'', ''read header'', ''read payload''}. fault operation = None)"

lemma frame_encode_mk: "frame_encode \<lparr>fr_header = h, fr_payload = p\<rparr> = frame_header_encode h @ p"
  by (simp add: frame_encode_def)

lemma exchange_sound:
  assumes "exchange blake3 fault s request limit = Inr (payload, s')"
  shows "net_ok fault \<and> length payload \<le> limit \<and> (\<exists>r rest. frame_response blake3 (fh_opcode (fr_header request)) (fh_request_id (fr_header request)) StatusOk payload = Inr r
    \<and> pending (stream_after s (frame_encode request)) = frame_encode r @ rest
    \<and> s' = s\<lparr>st_sent := st_sent s @ frame_encode request, st_received := st_received s @ frame_encode r\<rparr>)"
proof -
  let ?s = "stream_after s (frame_encode request)"
  have after: "stream_after (stream_after s a) b = stream_after s (a @ b)" for a b by (simp add: stream_after_def)
  from assms obtain h s1 where
    faults: "net_ok fault" and len: "NATIVE_FRAME_HEADER_BYTES \<le> length (pending ?s)"
    and s1: "s1 = ?s\<lparr>st_received := st_received ?s @ take NATIVE_FRAME_HEADER_BYTES (pending ?s)\<rparr>"
    and h: "frame_header_decode (take NATIVE_FRAME_HEADER_BYTES (pending ?s)) = Inr h"
      "fh_is_response h" "fh_opcode h = fh_opcode (fr_header request)" "fh_request_id h = fh_request_id (fr_header request)"
      "unat (fh_payload_len h) \<le> limit" "fh_status h = StatusOk"
    and p: "unat (fh_payload_len h) \<le> length (pending s1)" "payload = take (unat (fh_payload_len h)) (pending s1)"
      "s' = s1\<lparr>st_received := st_received s1 @ payload\<rparr>" "verify_payload blake3 h payload = Inr ()"
    by (auto simp: exchange_def result_simps write_all_Inr read_exact_Inr after net_ok_def frame_encode_def split: if_splits)
  have rest: "pending s1 = drop NATIVE_FRAME_HEADER_BYTES (pending ?s)" using pending_read [OF len] by (simp add: s1)
  have canon: "unat (fh_payload_len h) \<le> MAX_NATIVE_FRAME_BYTES" "frame_header_encode h = take NATIVE_FRAME_HEADER_BYTES (pending ?s)"
    using frame_header_canonical_aux [OF _ h(1)] len by (simp_all add: NATIVE_FRAME_HEADER_BYTES_def)
  have ver: "length payload = unat (fh_payload_len h)" "fh_payload_checksum h = payload_checksum blake3 payload"
    using p(4) by (auto simp: verify_payload_def verify_payload_and_hash_def payload_checksum_def result_simps Let_def split: if_splits)
  have hdr: "h = answer_header blake3 (fr_header request) StatusOk payload"
    using h ver by (cases h) (simp add: answer_header_def)
  let ?r = "\<lparr>fr_header = h, fr_payload = payload\<rparr>"
  have "frame_encode ?r @ drop (unat (fh_payload_len h)) (pending s1) = pending ?s"
    unfolding frame_encode_mk canon(2) p(2) rest append_assoc append_take_drop_id ..
  moreover have "frame_response blake3 (fh_opcode (fr_header request)) (fh_request_id (fr_header request)) StatusOk payload = Inr ?r"
    using canon(1) ver(1) hdr by (simp add: frame_response_Inr)
  moreover have "s' = s\<lparr>st_sent := st_sent s @ frame_encode request, st_received := st_received s @ frame_encode ?r\<rparr>"
    by (simp add: p(3) s1 frame_encode_def canon(2) stream_after_def)
  moreover have "length payload \<le> limit" using ver(1) h(5) by simp
  ultimately show ?thesis using faults by metis
qed

lemma exchange_complete:
  assumes "net_ok fault" "length payload \<le> limit"
    and r: "frame_response blake3 (fh_opcode (fr_header request)) (fh_request_id (fr_header request)) StatusOk payload = Inr r"
    and pend: "pending (stream_after s (frame_encode request)) = frame_encode r @ rest"
  shows "exchange blake3 fault s request limit = Inr (payload,
    s\<lparr>st_sent := st_sent s @ frame_encode request, st_received := st_received s @ frame_encode r\<rparr>)"
proof -
  let ?s = "stream_after s (frame_encode request)" and ?h = "answer_header blake3 (fr_header request) StatusOk payload"
  have r': "length payload \<le> MAX_NATIVE_FRAME_BYTES" "r = \<lparr>fr_header = ?h, fr_payload = payload\<rparr>" using r by (simp_all add: frame_response_Inr)
  have len: "unat (fh_payload_len ?h) = length payload"
    using r'(1) by (simp add: answer_header_def unat_of_nat_u32 MAX_NATIVE_FRAME_BYTES_def)
  have take: "take NATIVE_FRAME_HEADER_BYTES (pending ?s) = frame_header_encode ?h" "NATIVE_FRAME_HEADER_BYTES \<le> length (pending ?s)"
    by (simp_all add: pend r'(2) frame_encode_mk)
  have dec: "frame_header_decode (frame_header_encode ?h) = Inr ?h"
    using frame_header_roundtrip_aux [of ?h "[]"] len r'(1) by simp
  let ?s1 = "?s\<lparr>st_received := st_received ?s @ frame_header_encode ?h\<rparr>"
  have pend1: "pending ?s1 = payload @ rest" using pending_read [OF take(2)] by (simp add: take pend r'(2) frame_encode_mk)
  have w: "write_all fault ''write header'' m a t = Inr (stream_after t a)" "write_all fault ''write payload'' m a t = Inr (stream_after t a)" for m a t
    using assms(1) by (simp_all add: write_all_Inr net_ok_def)
  have rd: "read_exact fault ''read header'' m NATIVE_FRAME_HEADER_BYTES ?s = Inr (frame_header_encode ?h, ?s1)"
    "read_exact fault ''read payload'' m (length payload) ?s1 = Inr (payload, ?s1\<lparr>st_received := st_received ?s1 @ payload\<rparr>)" for m
    using assms(1) take by (simp_all add: read_exact_Inr net_ok_def pend1)
  have after: "stream_after (stream_after s (frame_header_encode (fr_header request))) (fr_payload request) = ?s"
    by (simp add: stream_after_def frame_encode_def)
  have ver: "verify_payload blake3 ?h payload = Inr ()"
    using len by (simp add: verify_payload_def verify_payload_and_hash_def Let_def) (simp add: answer_header_def payload_checksum_def)
  have hdr: "fh_is_response ?h" "fh_opcode ?h = fh_opcode (fr_header request)" "fh_request_id ?h = fh_request_id (fr_header request)" "fh_status ?h = StatusOk"
    by (simp_all add: answer_header_def)
  show ?thesis
    using assms(2) by (simp add: exchange_def w after rd dec hdr len ver) (simp add: stream_after_def r'(2) frame_encode_def)
qed

section \<open>The pool stays in step with the server\<close>

definition answers :: "(bytes \<Rightarrow> bytes) \<Rightarrow> native_frame \<Rightarrow> native_frame \<Rightarrow> bool" where
  "answers blake3 q a \<longleftrightarrow>
     frame_response blake3 (fh_opcode (fr_header q)) (fh_request_id (fr_header q)) StatusOk (fr_payload a) = Inr a"

definition authenticates :: "(bytes \<Rightarrow> bytes) \<Rightarrow> bytes \<Rightarrow> native_frame \<times> native_frame \<Rightarrow> bool" where
  "authenticates blake3 token x \<longleftrightarrow>
     (\<exists>request_id. frame_request blake3 Authenticate request_id token = Inr (fst x)) \<and> fr_payload (snd x) = []"

definition conversation :: "(bytes \<Rightarrow> bytes) \<Rightarrow> bytes option \<Rightarrow> stream \<Rightarrow> (native_frame \<times> native_frame) list \<Rightarrow> bool" where
  "conversation blake3 token s xs \<longleftrightarrow>
     st_sent s = concat (map (frame_encode \<circ> fst) xs) \<and> st_received s = concat (map (frame_encode \<circ> snd) xs)
     \<and> (\<forall>x \<in> set xs. answers blake3 (fst x) (snd x))
     \<and> (case token of None \<Rightarrow> True | Some t \<Rightarrow> xs \<noteq> [] \<and> authenticates blake3 t (hd xs))"

definition pool_ok :: "(bytes \<Rightarrow> bytes) \<Rightarrow> native_client \<Rightarrow> bool" where
  "pool_ok blake3 cl \<longleftrightarrow> cl_connections cl \<noteq> []
     \<and> (\<forall>s. Some s \<in> set (cl_connections cl) \<longrightarrow> (\<exists>xs. conversation blake3 (cc_auth_token (cl_config cl)) s xs))"

lemma exchange_conversation:
  assumes "exchange blake3 fault s request limit = Inr (payload, s')" "conversation blake3 token s xs"
  shows "\<exists>a. fr_payload a = payload \<and> conversation blake3 token s' (xs @ [(request, a)])"
proof -
  from exchange_sound [OF assms(1)] obtain a where
    a: "frame_response blake3 (fh_opcode (fr_header request)) (fh_request_id (fr_header request)) StatusOk payload = Inr a"
      "s' = s\<lparr>st_sent := st_sent s @ frame_encode request, st_received := st_received s @ frame_encode a\<rparr>" by blast
  then have "fr_payload a = payload" by (simp add: frame_response_Inr)
  with a assms(2) show ?thesis by (auto simp: conversation_def answers_def split: option.splits)
qed

lemma open_connection_conversation:
  assumes "open_connection blake3 server fault cl = (r, cl')"
  shows "(\<exists>n. cl' = cl\<lparr>cl_next_request_id := n\<rparr>)
    \<and> (\<forall>s. r = Inr s \<longrightarrow> (\<exists>xs. conversation blake3 (cc_auth_token (cl_config cl)) s xs))"
proof -
  let ?s = "\<lparr>st_server = server, st_sent = [], st_received = []\<rparr>"
  have empty: "conversation blake3 None ?s []" by (simp add: conversation_def)
  have auth: "\<exists>xs. conversation blake3 (Some token) s xs"
    if run: "authenticate blake3 fault ?s token request_id limit = Inr s" for token request_id limit s
  proof -
    from run obtain request where q: "frame_request blake3 Authenticate request_id token = Inr request"
      "exchange blake3 (auth_fault fault) ?s request limit = Inr ([], s)"
      by (auto simp: authenticate_def result_simps split: if_splits)
    from exchange_conversation [OF q(2) empty] obtain a where "fr_payload a = []" "conversation blake3 None s [(request, a)]" by auto
    with q(1) have "conversation blake3 (Some token) s [(request, a)]" by (auto simp: conversation_def authenticates_def)
    then show ?thesis ..
  qed
  have same: "\<exists>n. cl = cl\<lparr>cl_next_request_id := n\<rparr>" by (rule exI [of _ "cl_next_request_id cl"]) simp
  let ?net = "rbind (net_io fault ''connect'' ''native connection failed: '') (\<lambda>_. net_io fault ''nodelay'' ''native TCP_NODELAY failed: '')"
  show ?thesis
  proof (cases "fault ''connect deadline'' \<noteq> None \<or> \<not> is_ok ?net")
    case True
    then have "(\<exists>e. r = Inl e) \<and> cl' = cl"
      using assms by (cases ?net) (simp_all add: open_connection_def split: if_splits, blast+)
    with same show ?thesis by auto
  next
    case False
    then obtain u where net: "fault ''connect deadline'' = None" "?net = Inr u" unfolding is_ok_iff by auto
    show ?thesis
    proof (cases "cc_auth_token (cl_config cl)")
      case None
      with assms net have "r = Inr ?s" "cl' = cl" by (simp_all add: open_connection_def)
      with None same empty show ?thesis by auto
    next
      case (Some token)
      with assms net have "cl' = cl\<lparr>cl_next_request_id := cl_next_request_id cl + 1\<rparr>"
        "r = authenticate blake3 fault ?s token (fst (next_request_id cl)) (cc_max_frame_bytes (cl_config cl))"
        by (simp_all add: open_connection_def next_request_id_def Let_def)
      with Some auth show ?thesis by auto
    qed
  qed
qed

lemma set_connection_simps [simp]:
  "cl_config (set_connection i s cl) = cl_config cl" "cl_connections (set_connection i s cl) = (cl_connections cl)[i := s]"
  by (simp_all add: set_connection_def)

lemma set_connection_pool:
  assumes "pool_ok blake3 cl" "\<And>t. s = Some t \<Longrightarrow> \<exists>xs. conversation blake3 (cc_auth_token (cl_config cl)) t xs"
  shows "pool_ok blake3 (set_connection i s cl)"
  using assms by (auto simp: pool_ok_def dest!: set_update_subset_insert [THEN subsetD])

lemma request_connection_ok:
  assumes "pool_ok blake3 cl" "i < length (cl_connections cl)" "request_connection blake3 server fault i cl = (r, cl')"
  shows "pool_ok blake3 cl' \<and> cl_config cl' = cl_config cl \<and> cl_connections cl' = cl_connections cl
    \<and> (\<forall>s. r = Inr s \<longrightarrow> (\<exists>xs. conversation blake3 (cc_auth_token (cl_config cl)) s xs))"
proof (cases "cl_connections cl ! i")
  case None
  with assms(3) have "open_connection blake3 server fault cl = (r, cl')" by (simp add: request_connection_def)
  from open_connection_conversation [OF this] assms(1) show ?thesis by (auto simp: pool_ok_def)
next
  case (Some s)
  then have "Some s \<in> set (cl_connections cl)" using assms(2) by (metis nth_mem)
  with Some assms(1,3) show ?thesis by (auto simp: pool_ok_def request_connection_def)
qed

text \<open>What a request leaves in the pool, and what a response says about its connection.\<close>

lemma client_request_pool:
  assumes ok: "pool_ok blake3 cl" and run: "client_request blake3 server fault opcode request_id payload cl = (r, cl')"
  shows "pool_ok blake3 cl' \<and> cl_config cl' = cl_config cl
    \<and> (\<forall>response. r = Inr response \<longrightarrow> (\<exists>q a s xs. frame_request blake3 opcode request_id payload = Inr q \<and> fr_payload a = response
        \<and> Some s \<in> set (cl_connections cl') \<and> conversation blake3 (cc_auth_token (cl_config cl)) s (xs @ [(q, a)])))"
proof (cases "frame_request blake3 opcode request_id payload")
  case (Inl e)
  with assms show ?thesis by (auto simp: client_request_def)
next
  case (Inr q)
  let ?i = "unat (cl_next_connection cl) mod length (cl_connections cl)"
  let ?cl = "cl\<lparr>cl_next_connection := cl_next_connection cl + 1\<rparr>"
  have ok': "pool_ok blake3 ?cl" and i: "?i < length (cl_connections ?cl)" using ok by (auto simp: pool_ok_def)
  obtain c cl1 where c: "request_connection blake3 server fault ?i ?cl = (c, cl1)" by fastforce
  note conn = request_connection_ok [OF ok' i c]
  have failed: "pool_ok blake3 (set_connection ?i None cl1)" using conn by (intro set_connection_pool) auto
  show ?thesis
  proof (cases c)
    case (Inl e)
    with run c failed conn \<open>frame_request _ _ _ _ = Inr q\<close> show ?thesis by (auto simp: client_request_def Let_def)
  next
    case s: (Inr s)
    with conn obtain xs where xs: "conversation blake3 (cc_auth_token (cl_config cl1)) s xs" by auto
    show ?thesis
    proof (cases "fault ''deadline'' = None \<and> is_ok (exchange blake3 fault s q (cc_max_frame_bytes (cl_config cl1)))")
      case False
      then have "(\<exists>e. r = Inl e) \<and> cl' = set_connection ?i None cl1"
        using run c s Inr by (cases "exchange blake3 fault s q (cc_max_frame_bytes (cl_config cl1))") (auto simp: client_request_def Let_def split: if_splits)
      with failed conn show ?thesis by auto
    next
      case True
      then obtain response s' where ex: "exchange blake3 fault s q (cc_max_frame_bytes (cl_config cl1)) = Inr (response, s')"
        by (auto simp: is_ok_iff)
      from exchange_conversation [OF ex xs] obtain a where
        a: "fr_payload a = response" "conversation blake3 (cc_auth_token (cl_config cl1)) s' (xs @ [(q, a)])" by blast
      have r: "r = Inr response" "cl' = set_connection ?i (Some s') cl1"
        using run c s Inr True ex by (auto simp: client_request_def Let_def)
      have "pool_ok blake3 cl'" unfolding r(2) by (rule set_connection_pool) (use conn a(2) in auto)
      moreover have "Some s' \<in> set (cl_connections cl')" using r(2) conn i by (simp add: set_update_memI)
      ultimately show ?thesis using r a conn Inr by fastforce
    qed
  qed
qed

section \<open>Guarantees\<close>

text \<open>The life of a client: requests under any identifiers, with any server behaviour and any faults.\<close>

inductive client_run :: "(bytes \<Rightarrow> bytes) \<Rightarrow> native_client \<Rightarrow> bool" for blake3 where
  created: "client_new prefix config = Inr cl \<Longrightarrow> client_run blake3 cl"
| numbered: "client_run blake3 cl \<Longrightarrow> client_run blake3 (snd (next_request_id cl))"
| requested: "client_run blake3 cl \<Longrightarrow> client_request blake3 server fault opcode request_id payload cl = (r, cl') \<Longrightarrow> client_run blake3 cl'"

lemma client_run_pool: "client_run blake3 cl \<Longrightarrow> pool_ok blake3 cl"
proof (induction rule: client_run.induct)
  case (created prefix config cl)
  then show ?case
    by (auto simp: client_new_def client_config_validate_def result_simps pool_ok_def split: if_splits)
next
  case (numbered cl)
  then show ?case by (simp add: next_request_id_def pool_ok_def)
next
  case (requested cl server fault opcode request_id payload r cl')
  with client_request_pool show ?case by blast
qed

text \<open>A server that answers one request on a fresh connection.\<close>

definition answering :: "native_frame \<Rightarrow> native_frame \<Rightarrow> bytes \<Rightarrow> bytes" where
  "answering q a sent = (if sent = frame_encode q then frame_encode a else [])"

lemma first_request_succeeds:
  assumes "frame_request blake3 opcode request_id payload = Inr q" "answers blake3 q a"
    "length (fr_payload a) \<le> cc_max_frame_bytes (cl_config cl)" "cc_auth_token (cl_config cl) = None"
    "cl_connections cl = [None]"
  shows "client_request blake3 (answering q a) (\<lambda>_. None) opcode request_id payload cl =
    (Inr (fr_payload a), cl\<lparr>cl_next_connection := cl_next_connection cl + 1,
       cl_connections := [Some \<lparr>st_server = answering q a, st_sent = frame_encode q, st_received = frame_encode a\<rparr>]\<rparr>)"
proof -
  let ?s = "\<lparr>st_server = answering q a, st_sent = [], st_received = []\<rparr>"
  have "pending (stream_after ?s (frame_encode q)) = frame_encode a @ []" by (simp add: pending_def stream_after_def answering_def)
  then have "exchange blake3 (\<lambda>_. None) ?s q (cc_max_frame_bytes (cl_config cl)) =
      Inr (fr_payload a, \<lparr>st_server = answering q a, st_sent = frame_encode q, st_received = frame_encode a\<rparr>)"
    using exchange_complete [of "\<lambda>_. None" "fr_payload a" "cc_max_frame_bytes (cl_config cl)" blake3 q a ?s "[]"] assms(2,3)
    by (simp add: net_ok_def answers_def)
  with assms(1,4,5) show ?thesis
    by (simp add: client_request_def request_connection_def open_connection_def net_io_def Let_def set_connection_def)
qed

text \<open>
  An exchange returns exactly the answer to its request. It succeeds with a payload if and only if
  no operation fails, the payload is within the client's limit and the next bytes the server sends are
  the frame that the server's constructor builds for a successful response with this opcode, this
  request identifier and this payload; it reads that frame and nothing more.
\<close>

lemma exchange_exact:
  "exchange blake3 fault s request limit = Inr (payload, s') \<longleftrightarrow>
     net_ok fault \<and> length payload \<le> limit
     \<and> (\<exists>r rest. frame_response blake3 (fh_opcode (fr_header request)) (fh_request_id (fr_header request)) StatusOk payload = Inr r
         \<and> pending (stream_after s (frame_encode request)) = frame_encode r @ rest
         \<and> s' = s\<lparr>st_sent := st_sent s @ frame_encode request, st_received := st_received s @ frame_encode r\<rparr>)"
  using exchange_sound [of blake3 fault s request limit payload s'] exchange_complete [of fault payload limit blake3 request _ s]
  by blast


text \<open>
  C12: an acknowledged append was delivered. When a tracked append returns an acknowledgement, the last
  frame its connection has written is an append under the given identifier whose payload the server's
  decoder reads back as the batch, and the last frame it has read is the encoding of the
  acknowledgement.
\<close>

theorem append_delivered:
  assumes "\<And>x. length (blake3 x) = 32" "\<forall>p \<in> set (nb_partitions batch). utf8_valid (env_tenant (npa_envelope p))"
    and "client_run blake3 cl" "append_with_request_id blake3 fmts server fault batch request_id cl = (Inr acknowledged, cl')"
  shows "\<exists>s q a xs. Some s \<in> set (cl_connections cl') \<and> conversation blake3 (cc_auth_token (cl_config cl)) s (xs @ [(q, a)])
    \<and> fh_opcode (fr_header q) = Append \<and> fh_request_id (fr_header q) = request_id
    \<and> decode_native_append blake3 fmts (fr_payload q) = Inr \<lparr>nb_partitions = map drop_empty_context (nb_partitions batch)\<rparr>
    \<and> ack_encode acknowledged = Inr (fr_payload a)"
proof -
  from assms(4) obtain payload response where p: "encode_native_append blake3 fmts batch = Inr payload"
    "client_request blake3 server fault Append request_id payload cl = (Inr response, cl')" "ack_decode response = Inr acknowledged"
    by (auto simp: append_with_request_id_def append_with_opcode_def client_call_def map_prod_def result_simps split: sum.splits prod.splits)
  from client_request_pool [OF client_run_pool [OF assms(3)] p(2)] obtain q a s xs where
    q: "frame_request blake3 Append request_id payload = Inr q" "fr_payload a = response" "Some s \<in> set (cl_connections cl')"
      "conversation blake3 (cc_auth_token (cl_config cl)) s (xs @ [(q, a)])" by blast
  have "decode_native_append blake3 fmts payload = Inr \<lparr>nb_partitions = map drop_empty_context (nb_partitions batch)\<rparr>"
    by (rule append_decodes_back [OF assms(1,2) p(1)])
  with q frame_request_Inr [OF q(1)] p(3) show ?thesis unfolding ack_exact by blast
qed


section \<open>An example\<close>

definition demo_client :: native_client where
  "demo_client = \<lparr>cl_config = client_config_new True, cl_connections = [None], cl_request_id_prefix = 3,
     cl_next_request_id = 1, cl_next_connection = 0\<rparr>"

definition demo_append :: native_telemetry_batch where
  "demo_append = \<lparr>nb_partitions = [hd (nb_partitions sample_batch)]\<rparr>"

definition demo_append_wire :: bytes where
  "demo_append_wire = batch_frame 1 (partition_entry sample_hash (hd (nb_partitions sample_batch)))"

definition demo_ack :: native_telemetry_append_ack where
  "demo_ack = \<lparr>ack_partitions = []\<rparr>"

lemma demo_client_run: "client_run sample_hash demo_client"
  by (rule client_run.created [of 3 "client_config_new True"])
     (simp add: client_new_def client_config_validate_def client_config_new_def demo_client_def MAX_NATIVE_FRAME_BYTES_def)

lemma demo_append_encodes: "encode_native_append sample_hash plain_formats demo_append = Inr demo_append_wire"
proof -
  have "batch_encode sample_hash plain_formats sample_batch = Inr sample_wire" by (rule sample_batch_encodes)
  then have "\<forall>p \<in> set (nb_partitions sample_batch). partition_encodes p"
    unfolding batch_encode_Inr [of sample_hash, OF length_sample_hash] by (simp add: Let_def)
  moreover have "hd (nb_partitions sample_batch) \<in> set (nb_partitions sample_batch)" by (simp add: sample_batch_def)
  moreover have "length demo_append_wire \<le> MAX_NATIVE_FRAME_BYTES" 
    by (simp add: demo_append_wire_def sample_batch_def batch_frame_def partition_entry_def envelope_bytes_def
      length_envelope_layout sample_hash_def transient_bytes_def envelope_consts frame_consts)
  ultimately show ?thesis
    by (simp add: encode_native_append_def demo_append_def batch_encode_Inr [of sample_hash, OF length_sample_hash] demo_append_wire_def)
qed

definition demo_ack_wire :: bytes where
  "demo_ack_wire = TELEMETRY_ACK_MAGIC @ u16_le 0 @ [0, 0]"

lemma demo_ack_encodes: "ack_encode demo_ack = Inr demo_ack_wire" "length demo_ack_wire = 8"
  by (simp_all add: ack_encode_def demo_ack_def demo_ack_wire_def)

definition demo_request :: "u128 \<Rightarrow> native_frame" where
  "demo_request i = \<lparr>fr_header = \<lparr>fh_opcode = Append, fh_request_id = i, fh_status = StatusOk, fh_is_response = False,
     fh_payload_len = of_nat (length demo_append_wire), fh_payload_checksum = payload_checksum sample_hash demo_append_wire\<rparr>,
     fr_payload = demo_append_wire\<rparr>"

definition demo_answer :: "u128 \<Rightarrow> native_frame" where
  "demo_answer i = \<lparr>fr_header = answer_header sample_hash (fr_header (demo_request i)) StatusOk demo_ack_wire, fr_payload = demo_ack_wire\<rparr>"

definition demo_stream :: "u128 \<Rightarrow> stream" where
  "demo_stream i = \<lparr>st_server = answering (demo_request i) (demo_answer i), st_sent = frame_encode (demo_request i),
     st_received = frame_encode (demo_answer i)\<rparr>"

definition demo_after :: "u128 \<Rightarrow> native_client" where
  "demo_after i = demo_client\<lparr>cl_next_connection := 1, cl_connections := [Some (demo_stream i)]\<rparr>"

lemma demo_requests:
  "frame_request sample_hash Append i demo_append_wire = Inr (demo_request i)" "answers sample_hash (demo_request i) (demo_answer i)"
proof -
  have "length demo_append_wire \<le> MAX_NATIVE_FRAME_BYTES"
    using demo_append_encodes unfolding encode_native_append_def
    by (simp add: demo_append_def batch_encode_Inr [of sample_hash, OF length_sample_hash])
  then show "frame_request sample_hash Append i demo_append_wire = Inr (demo_request i)"
    by (simp add: frame_request_def frame_header_new_def demo_request_def usize_to_u32_def MAX_NATIVE_FRAME_BYTES_def)
  show "answers sample_hash (demo_request i) (demo_answer i)"
    using demo_ack_encodes(2) by (simp add: answers_def frame_response_Inr demo_answer_def MAX_NATIVE_FRAME_BYTES_def)
qed

lemma demo_exchanged:
  "client_request sample_hash (answering (demo_request i) (demo_answer i)) (\<lambda>_. None) Append i demo_append_wire demo_client = (Inr demo_ack_wire, demo_after i)"
proof -
  have "length (fr_payload (demo_answer i)) \<le> cc_max_frame_bytes (cl_config demo_client)"
    using demo_ack_encodes(2) by (simp add: demo_answer_def demo_client_def client_config_new_def MAX_NATIVE_FRAME_BYTES_def)
  from first_request_succeeds [OF demo_requests this] show ?thesis
    by (simp add: demo_after_def demo_client_def demo_stream_def client_config_new_def demo_answer_def)
qed

lemma demo_appended_batch:
  "append_with_request_id sample_hash plain_formats (answering (demo_request i) (demo_answer i)) (\<lambda>_. None) demo_append i demo_client
   = (Inr demo_ack, demo_after i)"
proof -
  have "ack_decode demo_ack_wire = Inr demo_ack" using demo_ack_encodes(1) unfolding ack_exact .
  then show ?thesis
    by (simp add: append_with_request_id_def append_with_opcode_def client_call_def demo_append_encodes demo_exchanged)
qed


theorem append_delivered_witness:
  "\<exists>s q a xs. Some s \<in> set (cl_connections (demo_after 77)) \<and> conversation sample_hash (cc_auth_token (cl_config demo_client)) s (xs @ [(q, a)])
    \<and> decode_native_append sample_hash plain_formats (fr_payload q) = Inr \<lparr>nb_partitions = map drop_empty_context (nb_partitions demo_append)\<rparr>"
proof -
  have "\<forall>p \<in> set (nb_partitions demo_append). utf8_valid (env_tenant (npa_envelope p))" by (simp add: demo_append_def sample_batch_def)
  from append_delivered [OF length_sample_hash this demo_client_run demo_appended_batch] show ?thesis by blast
qed

end
