(* ===== verification/XorChunk.thy ===== *)
theory XorChunk
  imports Telemetry
begin

unbundle bit_operations_syntax

text \<open>
  The Prometheus XOR chunk encoder (\<^verbatim>\<open>src/src/prometheus_xor.rs\<close>) and the reference decoder of the
  same file's tests. An \<^verbatim>\<open>i64\<close> timestamp is a 64-bit word read with \<open>sint\<close>; an \<^verbatim>\<open>f64\<close> is the word
  \<^verbatim>\<open>to_bits\<close> gives, the only view of it the code takes.

  The bit writer is refined to the list of bits it has written, most significant bit first; the
  decoder reads such a list, and the round trip is proved on bit lists.
\<close>

section \<open>The bit writer\<close>

record bit_writer =
  bw_bytes :: bytes
  bw_available :: nat

definition CHUNK_HEADER_BYTES :: nat where "CHUNK_HEADER_BYTES = 2"

definition bw_new :: bit_writer where
  "bw_new = \<lparr>bw_bytes = replicate CHUNK_HEADER_BYTES 0, bw_available = 0\<rparr>"

definition or_last :: "bytes \<Rightarrow> u8 \<Rightarrow> bytes" where
  "or_last bs v = bs[length bs - 1 := (bs ! (length bs - 1)) OR v]"

definition write_bit :: "bit_writer \<Rightarrow> bool \<Rightarrow> bit_writer" where
  "write_bit w value =
     (let w = (if bw_available w = 0 then \<lparr>bw_bytes = bw_bytes w @ [0], bw_available = 8\<rparr> else w);
          w = (if value then w\<lparr>bw_bytes := or_last (bw_bytes w) (push_bit (bw_available w - 1) 1)\<rparr> else w)
      in w\<lparr>bw_available := bw_available w - 1\<rparr>)"

definition write_byte :: "bit_writer \<Rightarrow> u8 \<Rightarrow> bit_writer" where
  "write_byte w value =
     (if bw_available w = 0 then w\<lparr>bw_bytes := bw_bytes w @ [value]\<rparr>
      else w\<lparr>bw_bytes := or_last (bw_bytes w) (drop_bit (8 - bw_available w) value)
               @ [push_bit (bw_available w) value]\<rparr>)"

definition write_bits :: "bit_writer \<Rightarrow> u64 \<Rightarrow> nat \<Rightarrow> bit_writer" where
  "write_bits w value n = foldl (\<lambda>w shift. write_bit w (value AND push_bit shift 1 \<noteq> 0)) w (rev [0..<n])"

function write_uvarint :: "bit_writer \<Rightarrow> u64 \<Rightarrow> bit_writer" where
  "write_uvarint w value =
     (if value \<ge> 0x80 then write_uvarint (write_byte w (ucast value OR 0x80)) (drop_bit 7 value)
      else write_byte w (ucast value))"
  by pat_completeness auto

termination
proof (relation "measure (\<lambda>(w, value). unat value)", simp, clarsimp)
  fix v :: u64 assume "0x80 \<le> v"
  then have "unat v \<ge> 128" by (simp add: word_le_nat_alt)
  then show "unat (drop_bit 7 v) < unat v"
    by (simp add: drop_bit_eq_div unat_div)
qed

declare write_uvarint.simps [simp del]

definition write_varint :: "bit_writer \<Rightarrow> u64 \<Rightarrow> bit_writer" where
  "write_varint w value =
     (let encoded = push_bit 1 value;
          encoded = (if sint value < 0 then NOT encoded else encoded)
      in write_uvarint w encoded)"

section \<open>The chunk encoder\<close>

definition leading_zeros :: "u64 \<Rightarrow> nat" where
  "leading_zeros w = length (takeWhile (\<lambda>i. \<not> bit w i) (rev [0..<64]))"

definition trailing_zeros :: "u64 \<Rightarrow> nat" where
  "trailing_zeros w = length (takeWhile (\<lambda>i. \<not> bit w i) [0..<64])"

definition fits_prometheus_signed_range :: "u64 \<Rightarrow> nat \<Rightarrow> bool" where
  "fits_prometheus_signed_range value n \<longleftrightarrow>
     (let half = 2 ^ (n - 1) in sint value \<ge> - (half - 1) \<and> sint value \<le> half)"

definition write_timestamp_delta :: "bit_writer \<Rightarrow> u64 \<Rightarrow> bit_writer" where
  "write_timestamp_delta w dod =
     (if dod = 0 then write_bit w False
      else if fits_prometheus_signed_range dod 14 then write_bits (write_bits w 0b10 2) dod 14
      else if fits_prometheus_signed_range dod 17 then write_bits (write_bits w 0b110 3) dod 17
      else if fits_prometheus_signed_range dod 20 then write_bits (write_bits w 0b1110 4) dod 20
      else write_bits (write_bits w 0b1111 4) dod 64)"

text \<open>\<^verbatim>\<open>leading\<close> is \<^verbatim>\<open>u8::MAX\<close> until the first changed value has been written.\<close>

definition write_value_delta :: "bit_writer \<Rightarrow> u64 \<Rightarrow> u64 \<Rightarrow> nat \<Rightarrow> nat \<Rightarrow> bit_writer \<times> nat \<times> nat" where
  "write_value_delta w next current leading trailing =
     (let delta = next XOR current in
      if delta = 0 then (write_bit w False, leading, trailing)
      else let w = write_bit w True;
               next_leading = min (leading_zeros delta) 31;
               next_trailing = trailing_zeros delta in
      if leading \<noteq> 255 \<and> next_leading \<ge> leading \<and> next_trailing \<ge> trailing then
        (write_bits (write_bit w False) (drop_bit trailing delta) (64 - leading - trailing), leading, trailing)
      else let w = write_bits (write_bit w True) (of_nat next_leading) 5;
               significant = 64 - next_leading - next_trailing in
        (write_bits (write_bits w (of_nat significant) 6) (drop_bit next_trailing delta) significant,
         next_leading, next_trailing))"

record xor_state =
  xs_writer :: bit_writer
  xs_timestamp :: u64
  xs_delta :: u64
  xs_value :: u64
  xs_leading :: nat
  xs_trailing :: nat

definition xor_init :: xor_state where
  "xor_init = \<lparr>xs_writer = bw_new, xs_timestamp = 0x8000000000000000, xs_delta = 0, xs_value = 0,
     xs_leading = 255, xs_trailing = 0\<rparr>"

definition i64_in_range :: "int \<Rightarrow> bool" where
  "i64_in_range i \<longleftrightarrow> - (2 ^ 63) \<le> i \<and> i < 2 ^ 63"

text \<open>\<^verbatim>\<open>checked_sub\<close> on \<^verbatim>\<open>i64\<close> followed by \<^verbatim>\<open>u64::try_from\<close>: the difference, when it is not negative.\<close>

definition timestamp_difference :: "u64 \<Rightarrow> u64 \<Rightarrow> telemetry_error + u64" where
  "timestamp_difference next previous =
     (let d = sint next - sint previous in
      if i64_in_range d \<and> 0 \<le> d then Inr (next - previous)
      else Inl (InvalidMetricSample ''Prometheus XOR timestamp delta is negative''))"

definition xor_step :: "nat \<times> u64 \<times> u64 \<Rightarrow> xor_state \<Rightarrow> telemetry_error + xor_state" where
  "xor_step sample s = (case sample of (ordinal, next_timestamp, next_value) \<Rightarrow>
     rbind
       (if ordinal = 0 then
          Inr (s\<lparr>xs_writer := write_bits (write_varint (xs_writer s) next_timestamp) next_value 64\<rparr>)
        else rbind (timestamp_difference next_timestamp (xs_timestamp s)) (\<lambda>next_delta.
          let w = (if ordinal = 1 then write_uvarint (xs_writer s) next_delta
                   else write_timestamp_delta (xs_writer s) (next_delta - xs_delta s));
              (w, leading, trailing) = write_value_delta w next_value (xs_value s) (xs_leading s) (xs_trailing s)
          in Inr (s\<lparr>xs_writer := w, xs_delta := next_delta, xs_leading := leading, xs_trailing := trailing\<rparr>)))
       (\<lambda>s. Inr (s\<lparr>xs_timestamp := next_timestamp, xs_value := next_value\<rparr>)))"

definition u16_be :: "u16 \<Rightarrow> bytes" where "u16_be w = rev (u16_le w)"

fun unsorted :: "(u64 \<times> u64) list \<Rightarrow> bool" where
  "unsorted (a # b # xs) = (sint (fst a) > sint (fst b) \<or> unsorted (b # xs))"
| "unsorted _ = False"

definition encode_xor_chunk :: "(u64 \<times> u64) list \<Rightarrow> telemetry_error + bytes" where
  "encode_xor_chunk samples =
     (if samples = [] \<or> length samples > 65535 then
        Inl (InvalidMetricSample ''Prometheus XOR chunks require 1..=65535 samples'')
      else if unsorted samples then
        Inl (InvalidMetricSample ''Prometheus XOR chunk timestamps must be sorted'')
      else rbind (rfold xor_step (enumerate 0 samples) xor_init) (\<lambda>s.
        Inr (u16_be (of_nat (length samples)) @ drop 2 (bw_bytes (xs_writer s)))))"

section \<open>The reference decoder\<close>

text \<open>
  The decoder panics where it runs past the end, on a varint of more than ten bytes and where an
  \<^verbatim>\<open>i64\<close> addition overflows.
\<close>

datatype panic = Panic

record bit_reader =
  br_bytes :: bytes
  br_bit :: nat

definition read_bit :: "bit_reader \<Rightarrow> panic + bool \<times> bit_reader" where
  "read_bit r =
     (if br_bit r div 8 < length (br_bytes r) then
        Inr ((br_bytes r ! (br_bit r div 8)) AND push_bit (7 - br_bit r mod 8) 1 \<noteq> 0, r\<lparr>br_bit := br_bit r + 1\<rparr>)
      else Inl Panic)"

fun read_bits_from :: "u64 \<Rightarrow> nat \<Rightarrow> bit_reader \<Rightarrow> panic + u64 \<times> bit_reader" where
  "read_bits_from value 0 r = Inr (value, r)"
| "read_bits_from value (Suc n) r =
     rbind (read_bit r) (\<lambda>(b, r). read_bits_from (push_bit 1 value OR of_bool b) n r)"

definition read_bits :: "nat \<Rightarrow> bit_reader \<Rightarrow> panic + u64 \<times> bit_reader" where
  "read_bits n r = read_bits_from 0 n r"

fun read_uvarint_from :: "u64 \<Rightarrow> nat list \<Rightarrow> bit_reader \<Rightarrow> panic + u64 \<times> bit_reader" where
  "read_uvarint_from value [] r = Inl Panic"
| "read_uvarint_from value (shift # shifts) r =
     rbind (read_bits 8 r) (\<lambda>(b, r).
       let byte = ucast b :: u8;
           value = value OR push_bit shift (ucast (byte AND 0x7f)) in
       if byte AND 0x80 = 0 then Inr (value, r) else read_uvarint_from value shifts r)"

definition read_uvarint :: "bit_reader \<Rightarrow> panic + u64 \<times> bit_reader" where
  "read_uvarint r = read_uvarint_from 0 (map (\<lambda>i. 7 * i) [0..<10]) r"

definition read_varint :: "bit_reader \<Rightarrow> panic + u64 \<times> bit_reader" where
  "read_varint r = rbind (read_uvarint r) (\<lambda>(encoded, r).
     let value = drop_bit 1 encoded in
     Inr (if encoded AND 1 = 0 then value else NOT value, r))"

definition i64_add :: "u64 \<Rightarrow> u64 \<Rightarrow> panic + u64" where
  "i64_add a b = (if i64_in_range (sint a + sint b) then Inr (a + b) else Inl Panic)"

definition read_value_delta ::
  "u64 \<Rightarrow> nat \<Rightarrow> nat \<Rightarrow> bit_reader \<Rightarrow> panic + (u64 \<times> nat \<times> nat) \<times> bit_reader" where
  "read_value_delta current leading trailing r =
     rbind (read_bit r) (\<lambda>(changed, r).
     if \<not> changed then Inr ((current, leading, trailing), r)
     else rbind (read_bit r) (\<lambda>(fresh, r).
     rbind (if fresh then
              rbind (read_bits 5 r) (\<lambda>(l, r). rbind (read_bits 6 r) (\<lambda>(s, r).
                let leading = unat l; significant = (if s = 0 then 64 else unat s) in
                if leading + significant > 64 then Inl Panic
                else Inr ((leading, 64 - leading - significant), r)))
            else Inr ((leading, trailing), r)) (\<lambda>((leading, trailing), r).
     rbind (read_bits (64 - leading - trailing) r) (\<lambda>(d, r).
       Inr ((current XOR push_bit trailing d, leading, trailing), r)))))"

fun read_control :: "nat \<Rightarrow> bit_reader \<Rightarrow> panic + nat \<times> bit_reader" where
  "read_control 0 r = Inr (0, r)"
| "read_control (Suc n) r = rbind (read_bit r) (\<lambda>(b, r).
     if b then rbind (read_control n r) (\<lambda>(k, r). Inr (Suc k, r)) else Inr (0, r))"

definition read_timestamp_delta :: "bit_reader \<Rightarrow> panic + u64 \<times> bit_reader" where
  "read_timestamp_delta r =
     rbind (read_control 4 r) (\<lambda>(control, r).
     let n = [0, 14, 17, 20, 64] ! control in
     rbind (if n = 0 then Inr (0, r) else read_bits n r) (\<lambda>(dod, r).
       Inr (if n \<noteq> 0 \<and> n \<noteq> 64 \<and> dod > push_bit (n - 1) 1 then dod - push_bit n 1 else dod, r)))"

record xor_reader =
  xr_timestamp :: u64
  xr_delta :: u64
  xr_value :: u64
  xr_leading :: nat
  xr_trailing :: nat

definition decode_sample :: "xor_reader \<times> bit_reader \<Rightarrow> panic + (u64 \<times> u64) \<times> xor_reader \<times> bit_reader" where
  "decode_sample st = (case st of (x, r) \<Rightarrow>
     rbind (read_timestamp_delta r) (\<lambda>(dod, r).
     rbind (i64_add (xr_delta x) dod) (\<lambda>delta.
     rbind (i64_add (xr_timestamp x) delta) (\<lambda>timestamp.
     rbind (read_value_delta (xr_value x) (xr_leading x) (xr_trailing x) r) (\<lambda>((value, leading, trailing), r).
       Inr ((timestamp, value), \<lparr>xr_timestamp = timestamp, xr_delta = delta, xr_value = value,
         xr_leading = leading, xr_trailing = trailing\<rparr>, r))))))"

definition from_be :: "bytes \<Rightarrow> 'a::len word" where "from_be bs = from_le (rev bs)"

definition decode_for_test :: "bytes \<Rightarrow> panic + (u64 \<times> u64) list" where
  "decode_for_test encoded =
     (let count = unat (from_be (take 2 encoded) :: u16);
          r = \<lparr>br_bytes = drop 2 encoded, br_bit = 0\<rparr> in
      rbind (read_varint r) (\<lambda>(timestamp, r).
      rbind (read_bits 64 r) (\<lambda>(value, r).
      if count = 1 then Inr [(timestamp, value)]
      else rbind (read_uvarint r) (\<lambda>(delta, r).
      rbind (i64_add timestamp delta) (\<lambda>timestamp2.
      rbind (read_value_delta value 0 0 r) (\<lambda>((value2, leading, trailing), r).
      rbind (get_many (count - 2) decode_sample (\<lparr>xr_timestamp = timestamp2, xr_delta = delta,
          xr_value = value2, xr_leading = leading, xr_trailing = trailing\<rparr>, r)) (\<lambda>(samples, _).
      Inr ((timestamp, value) # (timestamp2, value2) # samples))))))))"

section \<open>Refinement of the writer to bit lists\<close>

definition byte_bits :: "u8 \<Rightarrow> bool list" where
  "byte_bits b = map (bit b) (rev [0..<8])"

definition enc_bits :: "nat \<Rightarrow> u64 \<Rightarrow> bool list" where
  "enc_bits n w = map (bit w) (rev [0..<n])"

definition all_bits :: "bytes \<Rightarrow> bool list" where
  "all_bits bs = concat (map byte_bits bs)"

definition bw_bits :: "bit_writer \<Rightarrow> bool list" where
  "bw_bits w = take (8 * (length (bw_bytes w) - 2) - bw_available w) (all_bits (drop 2 (bw_bytes w)))"

definition bw_inv :: "bit_writer \<Rightarrow> bool" where
  "bw_inv w \<longleftrightarrow> 2 \<le> length (bw_bytes w) \<and> bw_available w < 8
     \<and> (bw_available w \<noteq> 0 \<longrightarrow> 2 < length (bw_bytes w) \<and> (\<forall>i < bw_available w. \<not> bit (last (bw_bytes w)) i))"

lemma length_byte_bits [simp]: "length (byte_bits b) = 8"
  and nth_byte_bits [simp]: "j < 8 \<Longrightarrow> byte_bits b ! j = bit b (7 - j)"
  by (simp_all add: byte_bits_def rev_nth)

lemma all_bits_simps [simp]:
  "all_bits [] = []" "all_bits (b # bs) = byte_bits b @ all_bits bs"
  "all_bits (as @ bs) = all_bits as @ all_bits bs" "length (all_bits bs) = 8 * length bs"
  by (simp_all add: all_bits_def) (induction bs; simp)

lemma length_enc_bits [simp]: "length (enc_bits n w) = n"
  by (simp add: enc_bits_def)

lemma or_last_snoc [simp]: "or_last (bs @ [b]) v = bs @ [b OR v]"
  by (simp add: or_last_def)

text \<open>A writer with a partial last byte, in pieces.\<close>

lemma bw_partial:
  assumes "bw_inv w" "bw_available w \<noteq> 0"
  obtains h pre l where "bw_bytes w = h @ pre @ [l]" "length h = 2"
    "bw_bits w = all_bits pre @ take (8 - bw_available w) (byte_bits l)" "\<forall>i < bw_available w. \<not> bit l i"
proof -
  let ?h = "take 2 (bw_bytes w)" and ?t = "drop 2 (bw_bytes w)"
  have "?t \<noteq> []" using assms by (auto simp: bw_inv_def)
  then obtain pre l where t: "?t = pre @ [l]" by (metis rev_exhaust)
  have b: "bw_bytes w = ?h @ pre @ [l]" using t by (metis append_take_drop_id)
  have l: "last (bw_bytes w) = l" using t by (metis b append_assoc last_snoc)
  have n: "length (bw_bytes w) - 2 = Suc (length pre)" using arg_cong [OF t, of length] by simp
  show ?thesis
  proof (rule that [OF b])
    show "length ?h = 2" using assms(1) by (simp add: bw_inv_def)
    show "bw_bits w = all_bits pre @ take (8 - bw_available w) (byte_bits l)"
    proof -
      have "bw_available w < 8" using assms(1) by (simp add: bw_inv_def)
      then show ?thesis by (simp add: bw_bits_def n t)
    qed
    show "\<forall>i < bw_available w. \<not> bit l i" using assms by (simp add: bw_inv_def l)
  qed
qed

lemma bw_bits_split:
  "length h = 2 \<Longrightarrow> bw_bytes w = h @ pre @ [l] \<Longrightarrow> bw_available w \<le> 8 \<Longrightarrow>
   bw_bits w = all_bits pre @ take (8 - bw_available w) (byte_bits l)"
  by (simp add: bw_bits_def)

lemma bw_bits_full: "bw_available w = 0 \<Longrightarrow> bw_bits w = all_bits (drop 2 (bw_bytes w))"
  by (simp add: bw_bits_def)

definition writes :: "bit_writer \<Rightarrow> bool list \<Rightarrow> bit_writer \<Rightarrow> bool" where
  "writes w bs w' \<longleftrightarrow> (bw_inv w \<longrightarrow> bw_inv w' \<and> bw_bits w' = bw_bits w @ bs)"

lemma writes_trans: "writes w a w' \<Longrightarrow> writes w' b w'' \<Longrightarrow> writes w (a @ b) w''"
  by (auto simp: writes_def)

lemma writes_bit: "writes w [v] (write_bit w v)"
  unfolding writes_def
proof
  assume inv: "bw_inv w"
  show "bw_inv (write_bit w v) \<and> bw_bits (write_bit w v) = bw_bits w @ [v]"
  proof (cases "bw_available w = 0")
    case True
    let ?l = "if v then push_bit 7 1 else 0 :: u8"
    have w': "write_bit w v = \<lparr>bw_bytes = bw_bytes w @ [?l], bw_available = 7\<rparr>"
      using True by (cases v) (simp_all add: write_bit_def Let_def)
    have "take 1 (byte_bits ?l) = [v]" by (rule nth_equalityI) (auto simp: bit_push_bit_iff)
    moreover have "\<not> bit (push_bit 7 (1 :: u8)) i" if "i < 7" for i
      using that unfolding bit_push_bit_iff by simp
    then have "\<forall>i < 7. \<not> bit ?l i" by (auto split: if_splits)
    moreover have "bw_bytes w = take 2 (bw_bytes w) @ drop 2 (bw_bytes w)" by simp
    then have "bw_bytes (write_bit w v) = take 2 (bw_bytes w) @ drop 2 (bw_bytes w) @ [?l]"
      unfolding w' by (metis append_assoc bit_writer.select_convs(1))
    ultimately show ?thesis
      using inv True bw_bits_split [of "take 2 (bw_bytes w)" "write_bit w v" "drop 2 (bw_bytes w)" ?l]
      by (simp add: bw_inv_def bw_bits_full w')
  next
    case False
    then obtain h pre l where f: "bw_bytes w = h @ pre @ [l]" "length h = 2"
      "bw_bits w = all_bits pre @ take (8 - bw_available w) (byte_bits l)" "\<forall>i < bw_available w. \<not> bit l i"
      using bw_partial [OF inv] by metis
    let ?a = "bw_available w" let ?l = "if v then l OR push_bit (?a - 1) 1 else l"
    have a: "?a < 8" using inv by (simp add: bw_inv_def)
    have last: "or_last (h @ pre @ [l]) x = h @ pre @ [l OR x]" for x
      using or_last_snoc [of "h @ pre" l x] by simp
    have w': "write_bit w v = \<lparr>bw_bytes = h @ pre @ [?l], bw_available = ?a - 1\<rparr>"
      using False by (simp add: write_bit_def Let_def f(1) last)
    have "take (8 - (?a - 1)) (byte_bits ?l) = take (8 - ?a) (byte_bits l) @ [v]"
      using False a f(4)
      by (intro nth_equalityI)
         (auto simp: nth_append bit_or_iff bit_exp_iff possible_bit_word)
    moreover have "\<forall>i < ?a - 1. \<not> bit ?l i" using f(4) by (auto simp: bit_or_iff bit_exp_iff)
    ultimately show ?thesis
      using False a f(2,3) bw_bits_split [of h "write_bit w v" pre ?l]
      by (simp add: w' bw_inv_def)
  qed
qed

lemma writes_byte: "writes w (byte_bits v) (write_byte w v)"
  unfolding writes_def
proof
  assume inv: "bw_inv w"
  show "bw_inv (write_byte w v) \<and> bw_bits (write_byte w v) = bw_bits w @ byte_bits v"
  proof (cases "bw_available w = 0")
    case True
    with inv show ?thesis by (simp add: write_byte_def bw_inv_def bw_bits_full)
  next
    case False
    then obtain h pre l where f: "bw_bytes w = h @ pre @ [l]" "length h = 2"
      "bw_bits w = all_bits pre @ take (8 - bw_available w) (byte_bits l)" "\<forall>i < bw_available w. \<not> bit l i"
      using bw_partial [OF inv] by metis
    let ?a = "bw_available w" let ?l = "l OR drop_bit (8 - ?a) v" and ?n = "push_bit ?a v"
    have a: "?a < 8" using inv by (simp add: bw_inv_def)
    have last: "or_last (h @ pre @ [l]) x = h @ pre @ [l OR x]" for x
      using or_last_snoc [of "h @ pre" l x] by simp
    have w': "bw_bytes (write_byte w v) = h @ (pre @ [?l]) @ [?n]" "bw_available (write_byte w v) = ?a"
      using False by (simp_all add: write_byte_def f(1) last)
    have "byte_bits ?l @ take (8 - ?a) (byte_bits ?n) = take (8 - ?a) (byte_bits l) @ byte_bits v"
    proof (rule nth_equalityI)
      fix j assume "j < length (byte_bits ?l @ take (8 - ?a) (byte_bits ?n))"
      then have j: "j < 16 - ?a" using a by simp
      have "bit ?l (7 - j) = (if j < 8 - ?a then bit l (7 - j) else bit v (7 - (j - (8 - ?a))))" if "j < 8"
      proof (cases "j < 8 - ?a")
        case True
        then have "\<not> bit v (8 - ?a + (7 - j))"
          using a by (intro notI) (drule bit_imp_le_length, simp)
        with True show ?thesis by (simp add: bit_or_iff bit_drop_bit_eq)
      next
        case ge: False
        then have "8 - ?a + (7 - j) = 7 - (j - (8 - ?a))" using a that by simp
        moreover have "\<not> bit l (7 - j)" using f(4) ge a that by simp
        ultimately show ?thesis using ge by (simp add: bit_or_iff bit_drop_bit_eq)
      qed
      moreover have "bit ?n (7 - (j - 8)) = bit v (7 - (j - (8 - ?a)))" if "\<not> j < 8"
        using that j a by (auto simp: bit_push_bit_iff intro!: arg_cong [of _ _ "bit v"])
      ultimately show "(byte_bits ?l @ take (8 - ?a) (byte_bits ?n)) ! j = (take (8 - ?a) (byte_bits l) @ byte_bits v) ! j"
        using j a by (auto simp: nth_append)
    qed (use a in simp)
    moreover have "\<forall>i < ?a. \<not> bit ?n i" by (simp add: bit_push_bit_iff)
    ultimately show ?thesis
      using False a f(2,3) bw_bits_split [of h "write_byte w v" "pre @ [?l]" ?n]
      by (simp add: w' bw_inv_def)
  qed
qed

lemma enc_bits_Suc: "enc_bits (Suc n) w = bit w n # enc_bits n w"
  by (simp add: enc_bits_def)

lemma writes_bits: "writes w (enc_bits n v) (write_bits w v n)"
proof (induction n arbitrary: w)
  case 0
  then show ?case by (simp add: writes_def enc_bits_def write_bits_def)
next
  case (Suc n)
  have b: "(v AND push_bit n 1 \<noteq> 0) = bit v n"
    by (simp add: push_bit_of_1 and_exp_eq_0_iff_not_bit)
  have "write_bits w v (Suc n) = write_bits (write_bit w (bit v n)) v n"
    by (simp add: write_bits_def flip: b)
  with writes_trans [OF writes_bit Suc] show ?case by (simp add: enc_bits_Suc)
qed

function uvarint_bytes :: "u64 \<Rightarrow> bytes" where
  "uvarint_bytes v = (if v \<ge> 0x80 then (ucast v OR 0x80) # uvarint_bytes (drop_bit 7 v) else [ucast v])"
  by pat_completeness auto

termination
proof (relation "measure unat", simp, clarsimp)
  fix v :: u64 assume "0x80 \<le> v"
  then have "unat v \<ge> 128" by (simp add: word_le_nat_alt)
  then show "unat (drop_bit 7 v) < unat v" by (simp add: drop_bit_eq_div unat_div)
qed

declare uvarint_bytes.simps [simp del]

lemma writes_uvarint: "writes w (all_bits (uvarint_bytes v)) (write_uvarint w v)"
proof (induction w v rule: write_uvarint.induct)
  case (1 w v)
  show ?case
  proof (cases "v \<ge> 0x80")
    case True
    from writes_trans [OF writes_byte 1 [OF True]] show ?thesis
      using True by (subst write_uvarint.simps, subst uvarint_bytes.simps) simp
  next
    case False
    with writes_byte [of w "ucast v"] show ?thesis
      by (subst write_uvarint.simps, subst uvarint_bytes.simps) simp
  qed
qed

definition zigzag :: "u64 \<Rightarrow> u64" where
  "zigzag v = (if sint v < 0 then NOT (push_bit 1 v) else push_bit 1 v)"

lemma writes_varint: "writes w (all_bits (uvarint_bytes (zigzag v))) (write_varint w v)"
proof -
  have "write_varint w v = write_uvarint w (zigzag v)" by (simp add: write_varint_def zigzag_def Let_def)
  then show ?thesis by (simp only: writes_uvarint)
qed

section \<open>The reader over bit lists\<close>

definition br_rest :: "bit_reader \<Rightarrow> bool list" where
  "br_rest r = drop (br_bit r) (all_bits (br_bytes r))"

definition br_adv :: "nat \<Rightarrow> bit_reader \<Rightarrow> bit_reader" where
  "br_adv n r = r\<lparr>br_bit := br_bit r + n\<rparr>"

interpretation br: stream_reader br_rest br_adv
  by unfold_locales (auto simp: br_rest_def br_adv_def add.commute)

lemma all_bits_nth:
  "i div 8 < length bs \<Longrightarrow> all_bits bs ! i = bit (bs ! (i div 8)) (7 - i mod 8)"
proof (induction bs arbitrary: i)
  case (Cons b bs)
  show ?case
  proof (cases "i < 8")
    case False
    then obtain k where i: "i = 8 + k" using le_Suc_ex by (metis not_less)
    then have "i div 8 = Suc (k div 8)" by simp
    then show ?thesis using Cons i by (simp add: nth_append)
  qed (simp add: nth_append)
qed simp

lemma read_bit_eq: "read_bit r = (case br_rest r of [] \<Rightarrow> Inl Panic | b # _ \<Rightarrow> Inr (b, br_adv 1 r))"
proof (cases "br_bit r div 8 < length (br_bytes r)")
  case True
  then have "br_bit r < length (all_bits (br_bytes r))" by simp
  then have "br_rest r = all_bits (br_bytes r) ! br_bit r # drop (Suc (br_bit r)) (all_bits (br_bytes r))"
    by (simp add: br_rest_def Cons_nth_drop_Suc)
  with True show ?thesis
    by (simp add: read_bit_def all_bits_nth br_adv_def push_bit_of_1 and_exp_eq_0_iff_not_bit)
next
  case False
  then have "br_rest r = []" by (simp add: br_rest_def)
  with False show ?thesis by (simp add: read_bit_def)
qed

interpretation bit_codec: wire_codec br_rest br_adv "\<lambda>b. [b]" read_bit "\<lambda>_. True"
  by unfold_locales (auto simp: read_bit_eq split: list.splits)

lemma read_bits_from_enc:
  "br_rest r = enc_bits n w @ rs \<Longrightarrow> read_bits_from a n r = Inr (push_bit n a OR take_bit n w, br_adv n r)"
proof (induction n arbitrary: a r)
  case 0
  then show ?case by (simp add: br.adv_zero)
next
  case (Suc n)
  then have r: "read_bit r = Inr (bit w n, br_adv 1 r)" by (simp add: read_bit_eq enc_bits_Suc)
  have "br_rest (br_adv 1 r) = enc_bits n w @ rs" using Suc.prems by (simp add: br.rest_adv enc_bits_Suc)
  from Suc.IH [OF this] r
  have "read_bits_from a (Suc n) r
      = Inr (push_bit n (push_bit 1 a OR of_bool (bit w n)) OR take_bit n w, br_adv (Suc n) r)"
    by (simp add: br.adv_adv)
  moreover have "push_bit n (push_bit 1 a OR of_bool (bit w n)) OR take_bit n w = push_bit (Suc n) a OR take_bit (Suc n) w"
    by (rule bit_eqI) (auto simp: bit_or_iff bit_push_bit_iff bit_take_bit_iff bit_of_bool_iff possible_bit_word less_Suc_eq)
  ultimately show ?case by simp
qed

lemma read_bits_enc: "br_rest r = enc_bits n w @ rs \<Longrightarrow> read_bits n r = Inr (take_bit n w, br_adv n r)"
  by (simp add: read_bits_def read_bits_from_enc)

interpretation bits_reader: wire_reader br_rest br_adv "enc_bits n" "read_bits n" "\<lambda>w. take_bit n w = w" for n
  by unfold_locales (simp add: read_bits_enc)

lemma byte_bits_enc: "byte_bits b = enc_bits 8 (ucast b)"
  by (rule nth_equalityI) (auto simp: enc_bits_def byte_bits_def rev_nth bit_ucast_iff)

lemma read_byte: "br_rest r = byte_bits b @ rs \<Longrightarrow> read_bits 8 r = Inr (ucast b, br_adv 8 r)"
proof -
  assume "br_rest r = byte_bits b @ rs"
  moreover have "take_bit 8 (ucast b :: u64) = ucast b"
    by (rule bit_word_eqI) (auto simp: bit_take_bit_iff bit_ucast_iff dest: bit_imp_le_length)
  ultimately show ?thesis using read_bits_enc [of r 8 "ucast b" rs] by (simp add: byte_bits_enc)
qed

text \<open>The seven payload bits and the continuation bit of a varint byte.\<close>

lemma varint_byte_masks: "(0x7f :: u8) = mask 7" "(0x80 :: u8) = 2 ^ 7"
  by (simp_all add: mask_eq_exp_minus_1)

lemma bit_varint_flag [simp]: "bit (0x80 :: 'a::len word) n \<longleftrightarrow> n = 7 \<and> 7 < LENGTH('a)"
proof -
  have "bit ((2 :: 'a word) ^ 7) n \<longleftrightarrow> n = 7 \<and> 7 < LENGTH('a)" unfolding bit_exp_iff possible_bit_word by auto
  then show ?thesis by simp
qed

lemma varint_byte_more:
  "ucast ((ucast (v :: u64) OR 0x80 :: u8) AND 0x7f) = take_bit 7 v" "(ucast v OR 0x80 :: u8) AND 0x80 \<noteq> 0"
proof -
  show "ucast ((ucast v OR 0x80 :: u8) AND 0x7f) = take_bit 7 v"
    unfolding varint_byte_masks(1)
    by (rule bit_word_eqI)
      (simp only: bit_ucast_iff bit_and_iff bit_or_iff bit_mask_iff bit_take_bit_iff bit_varint_flag possible_bit_word, auto)
  show "(ucast v OR 0x80 :: u8) AND 0x80 \<noteq> 0"
    unfolding varint_byte_masks by (simp only: and_exp_eq_0_iff_not_bit) (simp add: bit_simps)
qed

lemma varint_byte_last:
  assumes "\<not> (v :: u64) \<ge> 0x80"
  shows "ucast ((ucast v :: u8) AND 0x7f) = v" "(ucast v :: u8) AND 0x80 = 0"
proof -
  have "v < 2 ^ 7" using assms by simp
  then have t: "take_bit 7 v = v"
    by (simp only: take_bit_eq_mask less_mask_eq)
  have "ucast ((ucast v :: u8) AND 0x7f) = take_bit 7 v"
    unfolding varint_byte_masks by (rule bit_word_eqI) (auto simp: bit_simps)
  then show "ucast ((ucast v :: u8) AND 0x7f) = v" by (simp add: t)
  have "\<not> bit v 7" using t by (metis bit_take_bit_iff less_irrefl)
  then show "(ucast v :: u8) AND 0x80 = 0"
    unfolding varint_byte_masks by (simp only: and_exp_eq_0_iff_not_bit) (simp add: bit_simps)
qed

lemma ucast_u8_u64_u8 [simp]: "ucast (ucast (b :: u8) :: u64) = b"
  by (rule bit_word_eqI) (simp add: bit_simps)

lemma varint_merge:
  "(a OR push_bit k (take_bit 7 v)) OR push_bit (k + 7) (drop_bit 7 v) = a OR push_bit k (v :: u64)"
proof (rule bit_word_eqI)
  fix n
  have "n - k < 7 \<or> 7 + (n - (k + 7)) = n - k" by arith
  then show "n < LENGTH(64) \<Longrightarrow> bit ((a OR push_bit k (take_bit 7 v)) OR push_bit (k + 7) (drop_bit 7 v)) n
      = bit (a OR push_bit k v) n"
    by (auto simp: bit_simps)
qed

lemma read_uvarint_from_bytes:
  assumes "br_rest r = all_bits (uvarint_bytes v) @ rs" "k \<le> 9" "drop_bit (64 - 7 * k) v = 0"
  shows "read_uvarint_from a (map (\<lambda>i. 7 * i) [k..<10]) r
     = Inr (a OR push_bit (7 * k) v, br_adv (length (all_bits (uvarint_bytes v))) r)"
  using assms
proof (induction v arbitrary: a k r rule: uvarint_bytes.induct)
  case (1 v)
  have upt: "[k..<10] = k # [Suc k..<10]" using "1.prems"(2) by (simp add: upt_rec)
  show ?case
  proof (cases "v \<ge> 0x80")
    case True
    let ?b = "ucast v OR 0x80 :: u8"
    have uv: "uvarint_bytes v = ?b # uvarint_bytes (drop_bit 7 v)" using True by (subst uvarint_bytes.simps) simp
    have k: "k < 9"
    proof (rule ccontr)
      assume "\<not> k < 9"
      with "1.prems"(2) have "k = 9" by simp
      with "1.prems"(3) have "unat (drop_bit 1 v) = 0" by simp
      then have "unat v div 2 = 0" unfolding unat_drop_bit_eq by (simp add: drop_bit_eq_div)
      with True show False by (simp add: word_le_nat_alt)
    qed
    have rd: "read_bits 8 r = Inr (ucast ?b, br_adv 8 r)"
      using "1.prems"(1) by (intro read_byte) (simp add: uv)
    have "read_uvarint_from (a OR push_bit (7 * k) (take_bit 7 v)) (map (\<lambda>i. 7 * i) [Suc k..<10]) (br_adv 8 r)
       = Inr ((a OR push_bit (7 * k) (take_bit 7 v)) OR push_bit (7 * Suc k) (drop_bit 7 v),
           br_adv (length (all_bits (uvarint_bytes (drop_bit 7 v)))) (br_adv 8 r))"
    proof (rule "1.IH" [OF True])
      show "br_rest (br_adv 8 r) = all_bits (uvarint_bytes (drop_bit 7 v)) @ rs"
        using "1.prems"(1) by (simp add: br.rest_adv uv)
      show "drop_bit (64 - 7 * Suc k) (drop_bit 7 v) = 0"
        using "1.prems"(3) k by (simp add: drop_bit_drop_bit)
    qed (use k in simp)
    then show ?thesis using rd varint_byte_more [of v] varint_merge [of a "7 * k" v]
      by (simp add: upt uv br.adv_adv Let_def add.commute)
  next
    case False
    have uv: "uvarint_bytes v = [ucast v]" using False by (subst uvarint_bytes.simps) simp
    have "read_bits 8 r = Inr (ucast (ucast v :: u8), br_adv 8 r)"
      using "1.prems"(1) by (intro read_byte) (simp add: uv)
    then show ?thesis using varint_byte_last [OF False] by (simp add: upt uv Let_def)
  qed
qed

interpretation uvarint_reader: wire_reader br_rest br_adv "\<lambda>v. all_bits (uvarint_bytes v)" read_uvarint "\<lambda>_. True"
  using read_uvarint_from_bytes [where k = 0 and a = 0]
  by unfold_locales (simp add: read_uvarint_def)

lemma unzigzag: "(if zigzag v AND 1 = 0 then drop_bit 1 (zigzag v) else NOT (drop_bit 1 (zigzag v))) = v"
proof -
  have n: "sint v < 0 \<longleftrightarrow> bit v 63" using bit_last_iff [of v] by simp
  have "zigzag v AND 1 = 0 \<longleftrightarrow> \<not> bit (zigzag v) 0" using and_exp_eq_0_iff_not_bit [of "zigzag v" 0] by simp
  also have "\<dots> \<longleftrightarrow> \<not> sint v < 0" using bit_push_bit_iff [of 1 v 0] by (simp add: zigzag_def bit_not_iff)
  finally have z: "zigzag v AND 1 = 0 \<longleftrightarrow> \<not> sint v < 0" .
  have m: "bit (v * 2) (Suc i) \<longleftrightarrow> Suc i < 64 \<and> bit v i" for i using bit_push_bit_iff [of 1 v "Suc i"] by simp
  show ?thesis unfolding z
  proof (rule bit_word_eqI)
    fix i assume "i < LENGTH(64)"
    then have "i = 63 \<or> Suc i < 64" by auto
    then show "bit (if \<not> sint v < 0 then drop_bit 1 (zigzag v) else NOT (drop_bit 1 (zigzag v))) i = bit v i"
      by (auto simp: zigzag_def bit_simps n m)
  qed
qed

interpretation varint_reader: wire_reader br_rest br_adv "\<lambda>v. all_bits (uvarint_bytes (zigzag v))" read_varint "\<lambda>_. True"
  using unzigzag [unfolded One_nat_def]
  by unfold_locales (simp add: read_varint_def uvarint_reader.get_enc Let_def split del: if_split)

section \<open>Timestamp deltas\<close>

lemma take_bit_u64 [simp]: "take_bit 64 (w :: u64) = w"
  by (rule bit_word_eqI) (simp add: bit_take_bit_iff)

lemma read_control_zero:
  "k < n \<Longrightarrow> br_rest r = replicate k True @ False # rs \<Longrightarrow> read_control n r = Inr (k, br_adv (Suc k) r)"
proof (induction n arbitrary: k r)
  case (Suc n)
  show ?case
  proof (cases k)
    case 0
    with Suc.prems show ?thesis by (simp add: read_bit_eq)
  next
    case (Suc j)
    with Suc.prems have "br_rest (br_adv 1 r) = replicate j True @ False # rs" by (simp add: br.rest_adv)
    with Suc.IH [of j "br_adv 1 r"] Suc.prems Suc show ?thesis by (simp add: read_bit_eq br.adv_adv)
  qed
qed simp

lemma read_control_full: "br_rest r = replicate n True @ rs \<Longrightarrow> read_control n r = Inr (n, br_adv n r)"
proof (induction n arbitrary: r)
  case (Suc n)
  then have "br_rest (br_adv 1 r) = replicate n True @ rs" by (simp add: br.rest_adv)
  with Suc.IH [of "br_adv 1 r"] Suc.prems show ?case by (simp add: read_bit_eq br.adv_adv)
qed (simp add: br.adv_zero)

text \<open>The bits \<open>write_timestamp_delta\<close> writes.\<close>

definition timestamp_bits :: "u64 \<Rightarrow> bool list" where
  "timestamp_bits dod =
     (if dod = 0 then [False]
      else if fits_prometheus_signed_range dod 14 then replicate 1 True @ False # enc_bits 14 dod
      else if fits_prometheus_signed_range dod 17 then replicate 2 True @ False # enc_bits 17 dod
      else if fits_prometheus_signed_range dod 20 then replicate 3 True @ False # enc_bits 20 dod
      else replicate 4 True @ enc_bits 64 dod)"

lemma control_bits:
  "enc_bits 2 0b10 = replicate 1 True @ [False]" "enc_bits 3 0b110 = replicate 2 True @ [False]"
  "enc_bits 4 0b1110 = replicate 3 True @ [False]" "enc_bits 4 0b1111 = replicate 4 True"
  by (simp_all add: enc_bits_def upt_rec numeral_eq_Suc)

lemma writes_timestamp: "writes w (timestamp_bits dod) (write_timestamp_delta w dod)"
proof -
  have c: "writes w (enc_bits n c @ enc_bits m dod) (write_bits (write_bits w c n) dod m)" for c n m
    by (rule writes_trans [OF writes_bits writes_bits])
  show ?thesis
    using writes_bit [of w False] c [of 2 "0b10" 14] c [of 3 "0b110" 17] c [of 4 "0b1110" 20] c [of 4 "0b1111" 64]
    by (simp add: timestamp_bits_def write_timestamp_delta_def control_bits)
qed

text \<open>The low \<open>n\<close> bits of a number of the asymmetric range, moved back into it.\<close>

lemma sign_extend:
  assumes "fits_prometheus_signed_range dod n" "1 \<le> n" "n < 64"
  shows "(if take_bit n dod > 2 ^ (n - 1) then take_bit n dod - 2 ^ n else take_bit n dod) = dod"
proof -
  obtain m where n: "n = Suc m" using assms(2) by (cases n) auto
  let ?t = "take_bit n dod"
  have "uint ?t = take_bit n (uint dod)" by (simp add: unsigned_take_bit_eq)
  also have "\<dots> = take_bit n (sint dod)" using assms(3) by (simp add: sint_uint take_bit_signed_take_bit)
  finally have u: "uint ?t = sint dod mod 2 ^ n" by (simp add: take_bit_eq_mod)
  have half: "uint (2 ^ (n - 1) :: u64) = 2 ^ m"
    using unsigned_of_int [of "2 ^ m", where 'b = 64 and 'a = int] assms(3) n by simp
  have r: "- (2 ^ m) < sint dod" "sint dod \<le> 2 ^ m" using assms(1) n by (auto simp: fits_prometheus_signed_range_def Let_def)
  have t: "?t = of_int (sint dod mod 2 ^ n)" by (metis u word_of_int_uint)
  have d: "of_int (sint dod) = dod" by simp
  show ?thesis
  proof (cases "sint dod < 0")
    case True
    have "sint dod mod 2 ^ n = (sint dod + 2 ^ n) mod 2 ^ n" by simp
    also have "\<dots> = sint dod + 2 ^ n" using True r n by (intro mod_pos_pos_trivial) auto
    finally have m: "sint dod mod 2 ^ n = sint dod + 2 ^ n" .
    have "?t - 2 ^ n = dod" unfolding t m of_int_add d by simp
    moreover have "?t > 2 ^ (n - 1)" unfolding word_less_def half u m using r n by simp
    ultimately show ?thesis by simp
  next
    case False
    then have m: "sint dod mod 2 ^ n = sint dod" using r n by (intro mod_pos_pos_trivial) auto
    have "?t = dod" unfolding t m by (rule d)
    moreover have "\<not> ?t > 2 ^ (n - 1)" unfolding word_less_def half u m using r by simp
    ultimately show ?thesis by simp
  qed
qed

lemma read_timestamp_bits:
  assumes "br_rest r = timestamp_bits dod @ rs"
  shows "read_timestamp_delta r = Inr (dod, br_adv (length (timestamp_bits dod)) r)"
proof -
  have short: "read_timestamp_delta r = Inr (dod, br_adv (Suc k + n) r)"
    if "br_rest r = replicate k True @ False # enc_bits n dod @ rs" "[0, 14, 17, 20, 64] ! k = n" "k < 4" "0 < n" "n < 64"
      "fits_prometheus_signed_range dod n" for k n
  proof -
    have "br_rest (br_adv (Suc k) r) = enc_bits n dod @ rs" using that(1) by (simp add: br.rest_adv)
    then have "read_bits n (br_adv (Suc k) r) = Inr (take_bit n dod, br_adv (Suc k + n) r)"
      by (simp add: read_bits_enc br.adv_adv)
    with read_control_zero [OF that(3,1)] sign_extend [OF that(6)] that(2,4,5) show ?thesis
      by (simp add: read_timestamp_delta_def Let_def split del: if_split cong: if_cong)
  qed
  show ?thesis
  proof (cases "dod = 0")
    case True
    then show ?thesis using read_control_zero [of 0 4 r rs] assms
      by (simp add: timestamp_bits_def read_timestamp_delta_def)
  next
    case False
    have long: "read_timestamp_delta r = Inr (dod, br_adv 68 r)" if "br_rest r = replicate 4 True @ enc_bits 64 dod @ rs"
    proof -
      have "br_rest (br_adv 4 r) = enc_bits 64 dod @ rs" using that by (simp add: br.rest_adv)
      then have "read_bits 64 (br_adv 4 r) = Inr (dod, br_adv 68 r)" by (simp add: read_bits_enc br.adv_adv)
      with read_control_full [OF that] show ?thesis by (simp add: read_timestamp_delta_def Let_def)
    qed
    show ?thesis using assms False short [of 1 14] short [of 2 17] short [of 3 20] long
      by (simp add: timestamp_bits_def split: if_splits)
  qed
qed

section \<open>Value deltas\<close>

lemma takeWhile_holds: "i < length (takeWhile P xs) \<Longrightarrow> P (xs ! i)"
  by (metis nth_mem set_takeWhileD takeWhile_nth)

lemma leading_zeros_bits: "64 - leading_zeros w \<le> i \<Longrightarrow> i < 64 \<Longrightarrow> \<not> bit w i"
  using takeWhile_holds [of "63 - i" "\<lambda>i. \<not> bit w i" "rev [0..<64]"]
  by (simp add: leading_zeros_def rev_nth)

lemma trailing_zeros_bits: "i < trailing_zeros w \<Longrightarrow> \<not> bit w i"
  using takeWhile_holds [of i "\<lambda>i. \<not> bit w i" "[0..<64]"] length_takeWhile_le [of "\<lambda>i. \<not> bit w i" "[0..<64]"]
  by (simp add: trailing_zeros_def)

lemma trailing_zeros_bit: "w \<noteq> 0 \<Longrightarrow> trailing_zeros w < 64 \<and> bit w (trailing_zeros w)"
proof -
  assume "w \<noteq> 0"
  then obtain i where i: "bit w i" by (auto simp: bit_eq_iff)
  then have "i < 64" using bit_imp_le_length [of w i] by simp
  moreover have "trailing_zeros w \<le> i" using i trailing_zeros_bits not_less by blast
  ultimately show ?thesis
    using nth_length_takeWhile [of "\<lambda>i. \<not> bit w i" "[0..<64]"] by (simp add: trailing_zeros_def)
qed

lemma zeros_sum: "w \<noteq> 0 \<Longrightarrow> leading_zeros w + trailing_zeros w < 64"
proof -
  assume "w \<noteq> 0"
  from trailing_zeros_bit [OF this] leading_zeros_bits [of w "trailing_zeros w"]
  show ?thesis by linarith
qed

lemma window_bits:
  assumes low: "\<And>i. i < t \<Longrightarrow> \<not> bit w i" and high: "\<And>i. 64 - l \<le> i \<Longrightarrow> i < 64 \<Longrightarrow> \<not> bit w i"
  shows "push_bit t (take_bit (64 - l - t) (drop_bit t w)) = (w :: u64)"
proof (rule bit_word_eqI)
  fix n assume "n < LENGTH(64)"
  with low [of n] high [of n] show "bit (push_bit t (take_bit (64 - l - t) (drop_bit t w))) n = bit w n"
    by (cases "t \<le> n"; cases "64 - l \<le> n") (auto simp: bit_push_bit_iff bit_take_bit_iff bit_drop_bit_eq)
qed

text \<open>The window of significant bits the encoder keeps: none yet, or one that fits the five leading bits.\<close>

definition window_ok :: "nat \<Rightarrow> nat \<Rightarrow> bool" where
  "window_ok l t \<longleftrightarrow> l = 255 \<and> t = 0 \<or> l \<le> 31 \<and> l + t < 64"

definition fresh_window :: "u64 \<Rightarrow> nat \<Rightarrow> nat \<Rightarrow> bool" where
  "fresh_window d l t \<longleftrightarrow> \<not> (l \<noteq> 255 \<and> min (leading_zeros d) 31 \<ge> l \<and> trailing_zeros d \<ge> t)"

definition next_window :: "u64 \<Rightarrow> nat \<Rightarrow> nat \<Rightarrow> nat \<times> nat" where
  "next_window d l t =
     (if d \<noteq> 0 \<and> fresh_window d l t then (min (leading_zeros d) 31, trailing_zeros d) else (l, t))"

definition value_bits :: "u64 \<Rightarrow> nat \<Rightarrow> nat \<Rightarrow> bool list" where
  "value_bits d l t =
     (if d = 0 then [False]
      else case next_window d l t of (l', t') \<Rightarrow>
        True # fresh_window d l t # (if fresh_window d l t then enc_bits 5 (of_nat l') @ enc_bits 6 (of_nat (64 - l' - t')) else [])
          @ enc_bits (64 - l' - t') (drop_bit t' d))"

lemma write_value_delta_eq:
  "\<exists>w'. write_value_delta w v cur l t = (w', next_window (v XOR cur) l t) \<and> writes w (value_bits (v XOR cur) l t) w'"
proof -
  note wr = writes_trans [OF writes_bit writes_trans [OF writes_bit writes_bits]]
    writes_trans [OF writes_bit writes_trans [OF writes_bit writes_trans [OF writes_bits writes_trans [OF writes_bits writes_bits]]]]
  show ?thesis
    using wr writes_bit [of w False]
    by (auto simp: write_value_delta_def Let_def value_bits_def next_window_def fresh_window_def)
qed

text \<open>The decoder starts with the empty window \<open>(0, 0)\<close> where the encoder has none.\<close>

definition reader_leading :: "nat \<Rightarrow> nat" where "reader_leading l = (if l = 255 then 0 else l)"

lemma next_window_ok: "window_ok l t \<Longrightarrow> next_window d l t = (l', t') \<Longrightarrow> window_ok l' t'"
  using zeros_sum [of d] by (auto simp: next_window_def window_ok_def split: if_splits)

lemma next_window_exact:
  assumes "d \<noteq> 0" "next_window d l t = (l', t')"
  shows "l' \<noteq> 255" "push_bit t' (take_bit (64 - l' - t') (drop_bit t' d)) = d"
proof -
  have w: "l' \<noteq> 255" "t' \<le> trailing_zeros d" "l' \<le> leading_zeros d"
    using assms by (auto simp: next_window_def fresh_window_def split: if_splits)
  show "l' \<noteq> 255" by (rule w)
  show "push_bit t' (take_bit (64 - l' - t') (drop_bit t' d)) = d"
    by (rule window_bits) (use w trailing_zeros_bits leading_zeros_bits in \<open>auto intro: less_le_trans diff_le_mono2\<close>)
qed

lemma low_bits: "n \<le> 64 \<Longrightarrow> unat (take_bit k (of_nat n :: u64)) = n mod 2 ^ k"
proof -
  assume "n \<le> 64"
  then have "unat (of_nat n :: u64) = n" by (simp add: unat_of_nat)
  then show ?thesis unfolding unsigned_take_bit_eq by (simp only: take_bit_eq_mod)
qed

lemma six_bits: "0 < n \<Longrightarrow> n \<le> 64 \<Longrightarrow>
  (if take_bit 6 (of_nat n :: u64) = 0 then 64 else unat (take_bit 6 (of_nat n :: u64))) = n"
proof -
  assume n: "0 < n" "n \<le> 64"
  have "unat (take_bit 6 (of_nat n :: u64)) = n mod 64"
    using low_bits [OF n(2), of 6] by simp
  moreover have "take_bit 6 (of_nat n :: u64) = 0 \<longleftrightarrow> unat (take_bit 6 (of_nat n :: u64)) = 0" by (simp only: unat_eq_0)
  ultimately show ?thesis using n by (cases "n = 64") auto
qed

lemma five_bits: "n \<le> 31 \<Longrightarrow> unat (take_bit 5 (of_nat n :: u64)) = n"
  using low_bits [of n 5] by simp

lemma read_value_bits:
  assumes "br_rest r = value_bits (v XOR cur) l t @ rs" "window_ok l t" "next_window (v XOR cur) l t = (l', t')"
  shows "read_value_delta cur (reader_leading l) t r
     = Inr ((v, reader_leading l', t'), br_adv (length (value_bits (v XOR cur) l t)) r)"
proof (cases "v XOR cur = 0")
  case True
  have "v = (v XOR cur) XOR cur" by (simp add: xor.assoc)
  with True have "v = cur" by simp
  with True assms show ?thesis
    by (simp add: value_bits_def next_window_def read_value_delta_def read_bit_eq)
next
  case False
  let ?d = "v XOR cur" and ?n = "64 - l' - t'" and ?fresh = "fresh_window (v XOR cur) l t"
  let ?hdr = "if ?fresh then enc_bits 5 (of_nat l') @ enc_bits 6 (of_nat ?n) else []"
  have bits: "value_bits ?d l t = [True, ?fresh] @ ?hdr @ enc_bits ?n (drop_bit t' ?d)"
    using False assms(3) by (simp add: value_bits_def)
  have ok: "window_ok l' t'" "l' \<noteq> 255" and ex: "push_bit t' (take_bit ?n (drop_bit t' ?d)) = ?d"
    using next_window_ok [OF assms(2,3)] next_window_exact [OF False assms(3)] by simp_all
  then have l: "l' \<le> 31" "l' + t' < 64" by (auto simp: window_ok_def)
  have b1: "read_bit r = Inr (True, br_adv 1 r)" using assms(1) by (simp add: read_bit_eq bits)
  have "br_rest (br_adv 1 r) = ?fresh # ?hdr @ enc_bits ?n (drop_bit t' ?d) @ rs"
    using assms(1) by (simp add: br.rest_adv bits)
  then have b2: "read_bit (br_adv 1 r) = Inr (?fresh, br_adv 2 r)" by (simp add: read_bit_eq br.adv_adv numeral_2_eq_2)
  have r2: "br_rest (br_adv 2 r) = ?hdr @ enc_bits ?n (drop_bit t' ?d) @ rs"
    using assms(1) by (simp add: br.rest_adv bits)
  define k where "k = length ?hdr"
  have hdr: "(if ?fresh then
              rbind (read_bits 5 (br_adv 2 r)) (\<lambda>(l, r). rbind (read_bits 6 r) (\<lambda>(s, r).
                let leading = unat l; significant = (if s = 0 then 64 else unat s) in
                if leading + significant > 64 then Inl Panic
                else Inr ((leading, 64 - leading - significant), r)))
            else Inr ((reader_leading l, t), br_adv 2 r)) = Inr ((l', t'), br_adv (2 + k) r)"
  proof (cases ?fresh)
    case True
    define s where "s = take_bit 6 (of_nat ?n :: u64)"
    have s: "(if s = 0 then 64 else unat s) = ?n" unfolding s_def using l(2) by (intro six_bits) auto
    have "read_bits 5 (br_adv 2 r) = Inr (take_bit 5 (of_nat l'), br_adv 7 r)"
      using r2 True by (simp add: read_bits_enc br.adv_adv)
    moreover have "br_rest (br_adv 7 r) = enc_bits 6 (of_nat ?n) @ enc_bits ?n (drop_bit t' ?d) @ rs"
      using assms(1) True by (simp add: br.rest_adv bits)
    from read_bits_enc [OF this] have "read_bits 6 (br_adv 7 r) = Inr (s, br_adv 13 r)"
      by (simp only: s_def br.adv_adv) simp
    ultimately show ?thesis
      using True five_bits [OF l(1)] s l(2) by (simp add: k_def Let_def split del: if_split cong: if_cong) simp
  next
    case F: False
    then have "l' = l" "t' = t" using assms(3) by (auto simp: next_window_def split: if_splits)
    with F ok(2) show ?thesis by (simp add: reader_leading_def k_def)
  qed
  have "br_rest (br_adv (2 + k) r) = drop k (br_rest (br_adv 2 r))" by (simp add: br.rest_adv add.commute)
  also have "\<dots> = enc_bits ?n (drop_bit t' ?d) @ rs" unfolding r2 k_def by (simp only: drop_append drop_all order_refl diff_self_eq_0 drop0 append_Nil)
  finally have "br_rest (br_adv (2 + k) r) = enc_bits ?n (drop_bit t' ?d) @ rs" .
  then have "read_bits ?n (br_adv (2 + k) r) = Inr (take_bit ?n (drop_bit t' ?d), br_adv (2 + k + ?n) r)"
    by (simp add: read_bits_enc br.adv_adv)
  moreover have "cur XOR ?d = v" by (simp add: xor.left_commute [of cur])
  ultimately show ?thesis
    using ok(2) b1 b2 hdr ex unfolding read_value_delta_def
    by (simp add: bits k_def reader_leading_def split del: if_split)
qed

section \<open>The encoder and the decoder in step\<close>

text \<open>The reader state that belongs to an encoder state.\<close>

definition reader_of :: "xor_state \<Rightarrow> xor_reader" where
  "reader_of s = \<lparr>xr_timestamp = xs_timestamp s, xr_delta = xs_delta s, xr_value = xs_value s,
     xr_leading = reader_leading (xs_leading s), xr_trailing = xs_trailing s\<rparr>"

definition xor_inv :: "xor_state \<Rightarrow> bool" where
  "xor_inv s \<longleftrightarrow> window_ok (xs_leading s) (xs_trailing s) \<and> 0 \<le> sint (xs_delta s)"

lemma sint_diff: "i64_in_range (sint a - sint b) \<Longrightarrow> sint (a - b :: u64) = sint a - sint b"
  by (simp add: i64_in_range_def sint_word_ariths signed_take_bit_int_eq_self)

lemma i64_add_diff: "i64_in_range (sint a - sint b) \<Longrightarrow> i64_add b (a - b) = Inr a"
  using sint_range_size [of a] by (simp add: i64_add_def sint_diff i64_in_range_def word_size)

lemma timestamp_difference_Inr:
  "timestamp_difference n p = Inr d \<longleftrightarrow> i64_in_range (sint n - sint p) \<and> sint p \<le> sint n \<and> d = n - p"
  by (auto simp: timestamp_difference_def Let_def)

lemma delta_in_range: "0 \<le> sint a \<Longrightarrow> 0 \<le> sint b \<Longrightarrow> i64_in_range (sint (a :: u64) - sint (b :: u64))"
  using sint_range_size [of a] sint_range_size [of b] by (simp add: i64_in_range_def word_size)

text \<open>Ordinal at least two: one step of the encoder is undone by one step of the decoder.\<close>

lemma xor_step_sim:
  assumes "xor_step (k, ts, v) s = Inr s'" "2 \<le> k" "xor_inv s"
  obtains bits where "xor_inv s'" "writes (xs_writer s) bits (xs_writer s')"
    "\<And>r rs. br_rest r = bits @ rs \<Longrightarrow>
       decode_sample (reader_of s, r) = Inr ((ts, v), reader_of s', br_adv (length bits) r)"
proof -
  let ?d = "ts - xs_timestamp s" and ?x = "v XOR xs_value s"
  let ?w = "write_timestamp_delta (xs_writer s) (?d - xs_delta s)"
  let ?bits = "timestamp_bits (?d - xs_delta s) @ value_bits ?x (xs_leading s) (xs_trailing s)"
  obtain w' l t where wv: "write_value_delta ?w v (xs_value s) (xs_leading s) (xs_trailing s) = (w', l, t)"
    and nw: "next_window ?x (xs_leading s) (xs_trailing s) = (l, t)"
    and wr: "writes ?w (value_bits ?x (xs_leading s) (xs_trailing s)) w'"
    using write_value_delta_eq [of ?w v "xs_value s" "xs_leading s" "xs_trailing s"] by (metis surj_pair)
  have td: "timestamp_difference ts (xs_timestamp s) = Inr ?d" and rg: "i64_in_range (sint ts - sint (xs_timestamp s))"
    "sint (xs_timestamp s) \<le> sint ts"
    and s': "s' = s\<lparr>xs_writer := w', xs_delta := ?d, xs_leading := l, xs_trailing := t, xs_timestamp := ts, xs_value := v\<rparr>"
    using assms(1,2) wv
    by (auto simp: xor_step_def rbind_eq_Inr timestamp_difference_Inr Let_def split: prod.splits)
  have d0: "0 \<le> sint ?d" using rg by (simp add: sint_diff)
  show ?thesis
  proof (rule that [of ?bits])
    show "xor_inv s'" using assms(3) next_window_ok [OF _ nw] d0 by (simp add: xor_inv_def s')
    show "writes (xs_writer s) ?bits (xs_writer s')"
      unfolding s' using writes_trans [OF writes_timestamp wr] by simp
    fix r rs assume r: "br_rest r = ?bits @ rs"
    let ?r = "br_adv (length (timestamp_bits (?d - xs_delta s))) r"
    have "read_timestamp_delta r = Inr (?d - xs_delta s, ?r)" using r by (intro read_timestamp_bits) simp
    moreover have "i64_add (xs_delta s) (?d - xs_delta s) = Inr ?d"
      using assms(3) d0 by (intro i64_add_diff delta_in_range) (simp_all add: xor_inv_def)
    moreover have "i64_add (xs_timestamp s) ?d = Inr ts" by (rule i64_add_diff [OF rg(1)])
    moreover have "read_value_delta (xs_value s) (reader_leading (xs_leading s)) (xs_trailing s) ?r
        = Inr ((v, reader_leading l, t), br_adv (length ?bits) r)"
      using read_value_bits [OF _ _ nw, of ?r rs] r assms(3) by (simp add: br.rest_adv br.adv_adv xor_inv_def)
    ultimately show "decode_sample (reader_of s, r) = Inr ((ts, v), reader_of s', br_adv (length ?bits) r)"
      by (simp add: decode_sample_def reader_of_def s')
  qed
qed

lemma xor_steps_sim:
  "rfold xor_step (enumerate k xs) s = Inr s' \<Longrightarrow> 2 \<le> k \<Longrightarrow> xor_inv s \<Longrightarrow>
   \<exists>bits. writes (xs_writer s) bits (xs_writer s')
     \<and> (\<forall>r rs. br_rest r = bits @ rs \<longrightarrow>
          (\<exists>st. get_many (length xs) decode_sample (reader_of s, r) = Inr (xs, st)))"
proof (induction xs arbitrary: k s)
  case Nil
  then show ?case by (intro exI [of _ "[]"]) (simp add: writes_def)
next
  case (Cons x xs)
  obtain ts v where x: "x = (ts, v)" by (cases x)
  from Cons.prems(1) obtain s1 where s1: "xor_step (k, ts, v) s = Inr s1" "rfold xor_step (enumerate (Suc k) xs) s1 = Inr s'"
    by (auto simp: x rbind_eq_Inr)
  obtain b1 where b1: "xor_inv s1" "writes (xs_writer s) b1 (xs_writer s1)"
    "\<And>r rs. br_rest r = b1 @ rs \<Longrightarrow> decode_sample (reader_of s, r) = Inr ((ts, v), reader_of s1, br_adv (length b1) r)"
    by (rule xor_step_sim [OF s1(1) Cons.prems(2,3)]) blast
  from Cons.IH [OF s1(2) _ b1(1)] Cons.prems(2) obtain b2 where b2: "writes (xs_writer s1) b2 (xs_writer s')"
    "\<And>r rs. br_rest r = b2 @ rs \<Longrightarrow> \<exists>st. get_many (length xs) decode_sample (reader_of s1, r) = Inr (xs, st)"
    by auto
  have "\<exists>st. get_many (length (x # xs)) decode_sample (reader_of s, r) = Inr (x # xs, st)"
    if "br_rest r = (b1 @ b2) @ rs" for r rs
  proof -
    have "br_rest (br_adv (length b1) r) = b2 @ rs" using that by (simp add: br.rest_adv)
    from b2(2) [OF this] b1(3) [of r "b2 @ rs"] that show ?thesis by (auto simp: x)
  qed
  with writes_trans [OF b1(2) b2(1)] show ?case by blast
qed

text \<open>The bits of a finished writer are those of its bytes, up to the padding of the last one.\<close>

lemma bw_bits_prefix: "\<exists>pad. all_bits (drop 2 (bw_bytes w)) = bw_bits w @ pad"
  by (metis bw_bits_def append_take_drop_id)

lemma from_be_u16: "from_be (u16_be w) = w"
  by (simp add: from_be_def u16_be_def)

lemma bw_new_inv: "bw_inv bw_new" "bw_bits bw_new = []"
  by (simp_all add: bw_new_def bw_inv_def bw_bits_def CHUNK_HEADER_BYTES_def)

lemma encode_xor_chunk_Inr:
  "encode_xor_chunk samples = Inr bs \<longleftrightarrow>
     samples \<noteq> [] \<and> length samples \<le> 65535 \<and> \<not> unsorted samples
     \<and> (\<exists>s. rfold xor_step (enumerate 0 samples) xor_init = Inr s
          \<and> bs = u16_be (of_nat (length samples)) @ drop 2 (bw_bytes (xs_writer s)))"
  by (auto simp: encode_xor_chunk_def rbind_eq_Inr)

text \<open>What the decoder sees of the header and of the first sample.\<close>

lemma first_step:
  "xor_step (0, ts, v) xor_init = Inr s \<Longrightarrow>
     writes bw_new (all_bits (uvarint_bytes (zigzag ts)) @ enc_bits 64 v) (xs_writer s)
     \<and> xs_timestamp s = ts \<and> xs_value s = v \<and> xs_leading s = 255 \<and> xs_trailing s = 0"
  using writes_trans [OF writes_varint writes_bits] by (auto simp: xor_step_def xor_init_def)

lemma second_step:
  assumes "xor_step (1, ts, v) s = Inr s'" "xs_leading s = 255" "xs_trailing s = 0"
  shows "let d = ts - xs_timestamp s in xor_inv s' \<and> xs_timestamp s' = ts \<and> xs_delta s' = d \<and> xs_value s' = v
    \<and> i64_add (xs_timestamp s) d = Inr ts
    \<and> next_window (v XOR xs_value s) 255 0 = (xs_leading s', xs_trailing s')
    \<and> writes (xs_writer s) (all_bits (uvarint_bytes d) @ value_bits (v XOR xs_value s) 255 0) (xs_writer s')"
proof -
  let ?d = "ts - xs_timestamp s" and ?x = "v XOR xs_value s"
  let ?w = "write_uvarint (xs_writer s) ?d"
  obtain w' l t where wv: "write_value_delta ?w v (xs_value s) 255 0 = (w', l, t)"
    and nw: "next_window ?x 255 0 = (l, t)" and wr: "writes ?w (value_bits ?x 255 0) w'"
    using write_value_delta_eq [of ?w v "xs_value s" 255 0] by (metis surj_pair)
  have rg: "i64_in_range (sint ts - sint (xs_timestamp s))" "sint (xs_timestamp s) \<le> sint ts"
    and s': "s' = s\<lparr>xs_writer := w', xs_delta := ?d, xs_leading := l, xs_trailing := t, xs_timestamp := ts, xs_value := v\<rparr>"
    using assms wv by (auto simp: xor_step_def rbind_eq_Inr timestamp_difference_Inr Let_def split: prod.splits)
  have "window_ok l t" by (rule next_window_ok [OF _ nw]) (simp add: window_ok_def)
  moreover have "0 \<le> sint ?d" using rg by (simp add: sint_diff)
  ultimately show ?thesis
    using nw i64_add_diff [OF rg(1)] writes_trans [OF writes_uvarint wr] by (simp add: s' xor_inv_def Let_def)
qed

lemma writes_new: "writes bw_new bits w \<Longrightarrow> \<exists>pad. br_rest \<lparr>br_bytes = drop 2 (bw_bytes w), br_bit = 0\<rparr> = bits @ pad"
  using bw_bits_prefix [of w] by (simp add: writes_def bw_new_inv br_rest_def)

text \<open>A reader consumes exactly the given bits and returns the given value.\<close>

definition reads :: "(bit_reader \<Rightarrow> panic + 'a \<times> bit_reader) \<Rightarrow> bool list \<Rightarrow> 'a \<Rightarrow> bool" where
  "reads get bits x \<longleftrightarrow> (\<forall>r rs. br_rest r = bits @ rs \<longrightarrow> (\<exists>r'. get r = Inr (x, r') \<and> br_rest r' = rs))"

lemma readsI:
  assumes "\<And>r rs. br_rest r = bits @ rs \<Longrightarrow> get r = Inr (x, br_adv (length bits) r)"
  shows "reads get bits x"
  using assms by (fastforce simp: reads_def br.rest_adv)

lemma readsE: "reads get bits x \<Longrightarrow> br_rest r = bits @ rs \<Longrightarrow> (\<And>r'. get r = Inr (x, r') \<Longrightarrow> br_rest r' = rs \<Longrightarrow> P) \<Longrightarrow> P"
  by (auto simp: reads_def)

lemma reads_primitives:
  "reads read_varint (all_bits (uvarint_bytes (zigzag t))) t" "reads read_uvarint (all_bits (uvarint_bytes d)) d"
  "reads (read_bits 64) (enc_bits 64 v) v"
  by (auto intro!: readsI simp: read_bits_enc varint_reader.get_enc uvarint_reader.get_enc)

lemma reads_value:
  "window_ok l t \<Longrightarrow> next_window (v XOR cur) l t = (l', t') \<Longrightarrow>
   reads (read_value_delta cur (reader_leading l) t) (value_bits (v XOR cur) l t) (v, reader_leading l', t')"
  by (rule readsI) (rule read_value_bits)

definition first_bits :: "u64 \<Rightarrow> u64 \<Rightarrow> bool list" where
  "first_bits ts v = all_bits (uvarint_bytes (zigzag ts)) @ enc_bits 64 v"

lemma decode_one:
  assumes "br_rest \<lparr>br_bytes = drop 2 bs, br_bit = 0\<rparr> = first_bits ts v @ rs" "unat (from_be (take 2 bs) :: u16) = 1"
  shows "decode_for_test bs = Inr [(ts, v)]"
proof -
  obtain r1 where r1: "read_varint \<lparr>br_bytes = drop 2 bs, br_bit = 0\<rparr> = Inr (ts, r1)" "br_rest r1 = enc_bits 64 v @ rs"
    using assms(1) by (auto simp: first_bits_def elim: readsE [OF reads_primitives(1)])
  obtain r2 where "read_bits 64 r1 = Inr (v, r2)" by (rule readsE [OF reads_primitives(3) r1(2)])
  with r1(1) assms(2) show ?thesis by (simp add: decode_for_test_def Let_def)
qed

lemma decode_more:
  assumes "br_rest \<lparr>br_bytes = drop 2 bs, br_bit = 0\<rparr>
      = first_bits ts v @ (all_bits (uvarint_bytes d) @ value_bits (v2 XOR v) 255 0) @ bits @ pad"
    and "unat (from_be (take 2 bs) :: u16) = Suc (Suc n)" "i64_add ts d = Inr ts2" "next_window (v2 XOR v) 255 0 = (l, t)"
    and "\<And>r. br_rest r = bits @ pad \<Longrightarrow> \<exists>st. get_many n decode_sample
      (\<lparr>xr_timestamp = ts2, xr_delta = d, xr_value = v2, xr_leading = reader_leading l, xr_trailing = t\<rparr>, r) = Inr (xs, st)"
  shows "decode_for_test bs = Inr ((ts, v) # (ts2, v2) # xs)"
proof -
  obtain r1 where r1: "read_varint \<lparr>br_bytes = drop 2 bs, br_bit = 0\<rparr> = Inr (ts, r1)"
    "br_rest r1 = enc_bits 64 v @ all_bits (uvarint_bytes d) @ value_bits (v2 XOR v) 255 0 @ bits @ pad"
    using assms(1) by (auto simp: first_bits_def elim: readsE [OF reads_primitives(1)])
  obtain r2 where r2: "read_bits 64 r1 = Inr (v, r2)"
    "br_rest r2 = all_bits (uvarint_bytes d) @ value_bits (v2 XOR v) 255 0 @ bits @ pad"
    by (rule readsE [OF reads_primitives(3) r1(2)])
  obtain r3 where r3: "read_uvarint r2 = Inr (d, r3)" "br_rest r3 = value_bits (v2 XOR v) 255 0 @ bits @ pad"
    by (rule readsE [OF reads_primitives(2) r2(2)])
  have "window_ok 255 0" by (simp add: window_ok_def)
  then obtain r4 where r4: "read_value_delta v 0 0 r3 = Inr ((v2, reader_leading l, t), r4)" "br_rest r4 = bits @ pad"
    using readsE [OF reads_value [OF _ assms(4)] r3(2)] by (auto simp: reader_leading_def)
  from assms(5) [OF r4(2)] r1(1) r2(1) r3(1) r4(1) assms(2,3) show ?thesis
    by (auto simp: decode_for_test_def Let_def)
qed

lemma decode_header:
  "length samples \<le> 65535 \<Longrightarrow> unat (from_be (take 2 (u16_be (of_nat (length samples)) @ bs)) :: u16) = length samples"
proof -
  assume "length samples \<le> 65535"
  moreover have "take 2 (u16_be w @ bs) = u16_be w" for w by (simp add: u16_be_def)
  ultimately show ?thesis by (simp add: from_be_u16 unat_of_nat)
qed

text \<open>Two neighbours the encoder takes: in order, and at most \<open>2 ^ 63 - 1\<close> apart.\<close>

definition delta_fits :: "u64 \<Rightarrow> u64 \<Rightarrow> bool" where
  "delta_fits a b \<longleftrightarrow> sint a \<le> sint b \<and> sint b - sint a < 2 ^ 63"

lemma timestamp_difference_ok: "(\<exists>d. timestamp_difference b a = Inr d) \<longleftrightarrow> delta_fits a b"
  by (auto simp: timestamp_difference_Inr delta_fits_def i64_in_range_def)

lemma xor_step_ok:
  "(\<exists>s'. xor_step (k, ts, v) s = Inr s') \<longleftrightarrow> k = 0 \<or> delta_fits (xs_timestamp s) ts"
  by (cases "timestamp_difference ts (xs_timestamp s)")
    (auto simp: xor_step_def Let_def split: prod.splits simp flip: timestamp_difference_ok)

lemma xor_step_timestamp: "xor_step (k, ts, v) s = Inr s' \<Longrightarrow> xs_timestamp s' = ts"
  by (auto simp: xor_step_def rbind_eq_Inr split: if_splits)

lemma xor_steps_ok:
  "1 \<le> k \<Longrightarrow> (\<exists>s'. rfold xor_step (enumerate k xs) s = Inr s') \<longleftrightarrow> successively delta_fits (xs_timestamp s # map fst xs)"
proof (induction xs arbitrary: k s)
  case (Cons x xs)
  obtain ts v where x: "x = (ts, v)" by (cases x)
  show ?case
  proof (cases "delta_fits (xs_timestamp s) ts")
    case True
    then obtain s1 where s1: "xor_step (k, ts, v) s = Inr s1" using xor_step_ok by blast
    with Cons.IH [of "Suc k" s1] True xor_step_timestamp [OF s1] show ?thesis by (simp add: x)
  next
    case False
    then have "\<not> (\<exists>s1. xor_step (k, ts, v) s = Inr s1)" using Cons.prems by (simp add: xor_step_ok)
    with False show ?thesis by (auto simp: x rbind_eq_Inr)
  qed
qed simp

lemma unsorted_iff: "unsorted xs \<longleftrightarrow> \<not> successively (\<lambda>a b. sint a \<le> sint b) (map fst xs)"
  by (induction xs rule: unsorted.induct) (auto simp: not_le)

lemma encode_xor_chunk_ok:
  "(\<exists>bs. encode_xor_chunk samples = Inr bs) \<longleftrightarrow>
     samples \<noteq> [] \<and> length samples \<le> 65535 \<and> successively delta_fits (map fst samples)"
proof (cases samples)
  case (Cons x xs)
  obtain ts v where x: "x = (ts, v)" by (cases x)
  obtain s1 where s1: "xor_step (0, ts, v) xor_init = Inr s1" using xor_step_ok [of 0] by blast
  have "successively delta_fits (map fst samples) \<Longrightarrow> \<not> unsorted samples"
    by (auto simp: unsorted_iff delta_fits_def elim: successively_mono)
  with xor_steps_ok [of 1 xs s1] s1 xor_step_timestamp [OF s1] show ?thesis
    by (auto simp: encode_xor_chunk_Inr Cons x)
qed (simp add: encode_xor_chunk_def)

lemma rfold_xor_error:
  "rfold xor_step xs s = Inl e \<Longrightarrow> e = InvalidMetricSample ''Prometheus XOR timestamp delta is negative''"
proof (induction xs arbitrary: s)
  case (Cons x xs)
  then show ?case
    by (auto simp: rbind_eq_Inl xor_step_def timestamp_difference_def Let_def split: if_splits prod.splits)
qed simp

text \<open>
  C22: every chunk the encoder produces decodes to the samples it was made of: the same timestamps and
  the same bit pattern of every value, for every sample count the encoder takes.
\<close>

theorem xor_roundtrip:
  assumes "encode_xor_chunk samples = Inr bs"
  shows "decode_for_test bs = Inr samples"
proof -
  from assms obtain s where n: "samples \<noteq> []" "length samples \<le> 65535"
    and s: "rfold xor_step (enumerate 0 samples) xor_init = Inr s"
    and bs: "bs = u16_be (of_nat (length samples)) @ drop 2 (bw_bytes (xs_writer s))"
    by (auto simp: encode_xor_chunk_Inr)
  have body: "drop 2 bs = drop 2 (bw_bytes (xs_writer s))" by (simp add: bs u16_be_def)
  note count = decode_header [OF n(2), of "drop 2 (bw_bytes (xs_writer s))", folded bs]
  obtain ts v rest where samples: "samples = (ts, v) # rest" using n(1) by (metis list.exhaust surj_pair)
  obtain s1 where s1: "xor_step (0, ts, v) xor_init = Inr s1" "rfold xor_step (enumerate 1 rest) s1 = Inr s"
    using s by (auto simp: samples rbind_eq_Inr)
  note f = first_step [OF s1(1), folded first_bits_def]
  show ?thesis
  proof (cases rest)
    case Nil
    with f s1(2) have "writes bw_new (first_bits ts v) (xs_writer s)" by simp
    from writes_new [OF this] decode_one [of bs ts v] count Nil show ?thesis by (auto simp: body samples)
  next
    case (Cons y xs)
    obtain ts2 v2 where y: "y = (ts2, v2)" by (cases y)
    obtain s2 where s2: "xor_step (1, ts2, v2) s1 = Inr s2" "rfold xor_step (enumerate 2 xs) s2 = Inr s"
      using s1(2) by (auto simp: Cons y rbind_eq_Inr numeral_2_eq_2)
    note g = second_step [OF s2(1), unfolded Let_def]
    from xor_steps_sim [OF s2(2)] g f obtain bits where bits: "writes (xs_writer s2) bits (xs_writer s)"
      "\<And>r rs. br_rest r = bits @ rs \<Longrightarrow> \<exists>st. get_many (length xs) decode_sample (reader_of s2, r) = Inr (xs, st)"
      by auto
    have "writes bw_new (first_bits ts v @ (all_bits (uvarint_bytes (ts2 - ts)) @ value_bits (v2 XOR v) 255 0) @ bits) (xs_writer s)"
      using f g bits(1) by (metis writes_trans)
    from writes_new [OF this] obtain pad where "br_rest \<lparr>br_bytes = drop 2 bs, br_bit = 0\<rparr>
        = first_bits ts v @ (all_bits (uvarint_bytes (ts2 - ts)) @ value_bits (v2 XOR v) 255 0) @ bits @ pad"
      by (auto simp: body)
    from decode_more [OF this, of "length xs" ts2 "xs_leading s2" "xs_trailing s2" xs] count f g bits(2) [of _ pad]
    show ?thesis by (simp add: samples Cons y reader_of_def)
  qed
qed

theorem xor_roundtrip_witness:
  "\<exists>bs. encode_xor_chunk [(- 1, 0x3ff0000000000000), (999, 0x3ff0000000000000), (1999, 0x3ff8000000000000), (100000, 0x7ff0000000000002)] = Inr bs
     \<and> decode_for_test bs = Inr [(- 1, 0x3ff0000000000000), (999, 0x3ff0000000000000), (1999, 0x3ff8000000000000), (100000, 0x7ff0000000000002)]"
proof -
  let ?xs = "[(- 1, 0x3ff0000000000000), (999, 0x3ff0000000000000), (1999, 0x3ff8000000000000), (100000, 0x7ff0000000000002)] :: (u64 \<times> u64) list"
  have "successively delta_fits (map fst ?xs)" by (simp add: delta_fits_def)
  then obtain bs where "encode_xor_chunk ?xs = Inr bs" using encode_xor_chunk_ok [of ?xs] by auto
  with xor_roundtrip [OF this] show ?thesis by blast
qed

text \<open>
  The encoder succeeds exactly on a non-empty list of at most 65535 samples whose neighbouring
  timestamps are in order and at most \<open>2 ^ 63 - 1\<close> apart; each refusal is reported with the error of
  its cause, so a sorted list can only be refused for its length or for a gap that leaves \<^verbatim>\<open>i64\<close>.
\<close>

lemma xor_encode_errors:
  "case encode_xor_chunk samples of
     Inr _ \<Rightarrow> samples \<noteq> [] \<and> length samples \<le> 65535 \<and> successively delta_fits (map fst samples)
   | Inl e \<Rightarrow> \<not> (samples \<noteq> [] \<and> length samples \<le> 65535 \<and> successively delta_fits (map fst samples))
       \<and> e = InvalidMetricSample
           (if samples = [] \<or> length samples > 65535 then ''Prometheus XOR chunks require 1..=65535 samples''
            else if \<not> successively (\<lambda>a b. sint a \<le> sint b) (map fst samples) then ''Prometheus XOR chunk timestamps must be sorted''
            else ''Prometheus XOR timestamp delta is negative'')"
proof (cases "encode_xor_chunk samples")
  case (Inr bs)
  then show ?thesis using encode_xor_chunk_ok [of samples] by auto
next
  case (Inl e)
  show ?thesis
  proof (cases "samples = [] \<or> length samples > 65535 \<or> unsorted samples")
    case True
    with Inl encode_xor_chunk_ok [of samples] show ?thesis by (auto simp: encode_xor_chunk_def unsorted_iff split: if_splits)
  next
    case False
    with Inl have "rfold xor_step (enumerate 0 samples) xor_init = Inl e"
      by (auto simp: encode_xor_chunk_def rbind_eq_Inl)
    from rfold_xor_error [OF this] False Inl encode_xor_chunk_ok [of samples] show ?thesis by (auto simp: unsorted_iff)
  qed
qed

text \<open>
  The bit writer implements an append-only list of bits. From a well-formed writer every
  operation gives a well-formed writer whose bits are the old ones followed by the bit, the byte
  most significant bit first, the low \<open>n\<close> bits, the base-128 bytes of an unsigned number, or those of
  the zigzag image of a signed one.
\<close>

lemma bit_writer_refines:
  assumes "bw_inv w"
  shows "bw_inv (write_bit w b) \<and> bw_bits (write_bit w b) = bw_bits w @ [b]
    \<and> bw_inv (write_byte w c) \<and> bw_bits (write_byte w c) = bw_bits w @ byte_bits c
    \<and> bw_inv (write_bits w v n) \<and> bw_bits (write_bits w v n) = bw_bits w @ enc_bits n v
    \<and> bw_inv (write_uvarint w v) \<and> bw_bits (write_uvarint w v) = bw_bits w @ all_bits (uvarint_bytes v)
    \<and> bw_inv (write_varint w v) \<and> bw_bits (write_varint w v) = bw_bits w @ all_bits (uvarint_bytes (zigzag v))"
  using writes_bit [of w b] writes_byte [of w c] writes_bits [of w n v] writes_uvarint [of w v] writes_varint [of w v] assms
  by (simp add: writes_def)

lemma bit_writer_refines_witness:
  "bw_inv bw_new \<and> bw_bits (write_bits bw_new 0b101 3) = [True, False, True]
     \<and> bw_bits (write_byte bw_new 0x81) = [True, False, False, False, False, False, False, True]"
  using bit_writer_refines [OF bw_new_inv(1), where c = "0x81" and v = "0b101" and n = 3]
  by (simp add: bw_new_inv enc_bits_def byte_bits_def upt_rec numeral_eq_Suc)

end
