(* ===== verification/SinkJournal.thy ===== *)
theory SinkJournal
  imports NativeWire "HOL-Library.Sublist"
begin

text \<open>
  The transaction journal of a sink stripe (\<^verbatim>\<open>src/src/sink_journal.rs\<close>): the frame codec, opening with
  the repair of a torn tail, and appending under the checkpoint chain.

  The journal file is its byte sequence and the write position is its end. An I/O call is named by
  the operation text the source reports for it; the argument \<open>fault\<close> gives the error of the calls that
  fail, so every error path is a branch of the model. A failing write leaves \<open>partial\<close> bytes of
  what it was given in the file.

  \<^verbatim>\<open>DurableSinkCheckpoint\<close> and \<^verbatim>\<open>DurableAppend\<close> come from the crate \<^verbatim>\<open>shard_stream_engine\<close>; they are the
  records of the fields the source reads. The checkpoint a fresh partition starts from,
  \<^verbatim>\<open>DurableSinkCheckpoint::initial\<close>, is the argument \<open>initial\<close>. The bytes of a reader are in the cursor record
  of the native protocol, which has the same two fields as the \<^verbatim>\<open>(bytes, &mut cursor)\<close> pair here.
\<close>

section \<open>Data\<close>

record durable_sink_checkpoint =
  cp_topic_partition :: topic_partition
  cp_next_placement_sequence :: u64
  cp_next_offset :: u64

record durable_append =
  da_topic_partition :: topic_partition
  da_physical_shard_id :: shard_id
  da_first_offset :: u64
  da_payload :: bytes

record recovered_append =
  ra_topic_partition :: topic_partition
  ra_first_offset :: u64
  ra_payload :: bytes

record recovered_transaction =
  rt_expected :: durable_sink_checkpoint
  rt_next :: durable_sink_checkpoint
  rt_appends :: "recovered_append list"

type_synonym checkpoint_map = "topic_partition \<rightharpoonup> durable_sink_checkpoint"

record journal_state =
  js_file :: bytes
  js_bytes :: u64
  js_unsynced_bytes :: u64
  js_checkpoints :: checkpoint_map

record sink_journal =
  sj_max_bytes :: u64
  sj_sync_each_append :: bool
  sj_poisoned :: bool
  sj_state :: journal_state

definition JOURNAL_MAGIC :: bytes where "JOURNAL_MAGIC = ascii ''STELSNK1''"
definition CHECKSUM_BYTES :: nat where "CHECKSUM_BYTES = 32"
definition MAX_FRAME_BYTES :: nat where "MAX_FRAME_BYTES = 64 * 1024 * 1024"
definition BATCH_SYNC_BYTES :: u64 where "BATCH_SYNC_BYTES = 1024 * 1024"

section \<open>The frame codec\<close>

definition encode_checkpoint :: "durable_sink_checkpoint \<Rightarrow> bytes" where
  "encode_checkpoint c =
     u128_le (topic_id (cp_topic_partition c)) @ u32_le (partition_id (cp_topic_partition c))
     @ u64_le (cp_next_placement_sequence c) @ u64_le (cp_next_offset c)"

definition encode_append :: "topic_partition \<Rightarrow> durable_append \<Rightarrow> bytes \<Rightarrow> telemetry_error + bytes" where
  "encode_append tp a encoded =
     (if da_topic_partition a \<noteq> tp then
        Inl (CorruptSinkJournal ''transaction append belongs to another partition'')
      else rbind (ok_or RecordTooLarge (usize_to_u32 (length (da_payload a)))) (\<lambda>len.
        Inr (encoded @ u32_le (da_physical_shard_id a) @ u64_le (da_first_offset a) @ u32_le len @ da_payload a)))"

definition encode_transaction ::
  "durable_sink_checkpoint \<Rightarrow> durable_append list \<Rightarrow> durable_sink_checkpoint \<Rightarrow> telemetry_error + bytes" where
  "encode_transaction expected appends next =
     (if cp_topic_partition expected \<noteq> cp_topic_partition next then
        Inl (CorruptSinkJournal ''transaction checkpoints refer to different partitions'')
      else rbind (ok_or RecordTooLarge (usize_to_u32 (length appends))) (\<lambda>count.
        rbind (rfold (encode_append (cp_topic_partition expected)) appends
                (encode_checkpoint expected @ encode_checkpoint next @ u32_le count)) (\<lambda>encoded.
        if length encoded > MAX_FRAME_BYTES then Inl RecordTooLarge else Inr encoded)))"

text \<open>An end position outside \<^verbatim>\<open>usize\<close> is past the end of every slice.\<close>

definition take_at :: "string \<Rightarrow> nat \<Rightarrow> cursor \<Rightarrow> telemetry_error + bytes \<times> cursor" where
  "take_at message n c =
     (let stop = cur_offset c + n in
      if stop \<le> length (cur_bytes c) then Inr (slice (cur_offset c) stop (cur_bytes c), c\<lparr>cur_offset := stop\<rparr>)
      else if stop \<ge> 2 ^ 64 then Inl RecordTooLarge
      else Inl (CorruptSinkJournal message))"

definition read_array :: "nat \<Rightarrow> cursor \<Rightarrow> telemetry_error + bytes \<times> cursor" where
  "read_array n c = take_at ''journal frame is truncated'' n c"

definition read_u32 :: "cursor \<Rightarrow> telemetry_error + u32 \<times> cursor" where
  "read_u32 c = rbind (read_array 4 c) (\<lambda>(bs, c). Inr (from_le bs, c))"

definition read_u64 :: "cursor \<Rightarrow> telemetry_error + u64 \<times> cursor" where
  "read_u64 c = rbind (read_array 8 c) (\<lambda>(bs, c). Inr (from_le bs, c))"

definition read_u128 :: "cursor \<Rightarrow> telemetry_error + u128 \<times> cursor" where
  "read_u128 c = rbind (read_array 16 c) (\<lambda>(bs, c). Inr (from_le bs, c))"

definition decode_checkpoint :: "cursor \<Rightarrow> telemetry_error + durable_sink_checkpoint \<times> cursor" where
  "decode_checkpoint c =
     rbind (read_u128 c) (\<lambda>(topic, c).
     rbind (read_u32 c) (\<lambda>(partition, c).
     rbind (read_u64 c) (\<lambda>(placement, c).
     rbind (read_u64 c) (\<lambda>(offset, c).
       Inr (\<lparr>cp_topic_partition = TopicPartition topic partition, cp_next_placement_sequence = placement,
             cp_next_offset = offset\<rparr>, c)))))"

definition decode_append :: "shard_id \<Rightarrow> topic_partition \<Rightarrow> cursor \<Rightarrow> telemetry_error + recovered_append \<times> cursor" where
  "decode_append shard tp c =
     rbind (read_u32 c) (\<lambda>(observed_shard, c).
     if observed_shard \<noteq> shard then Inl (CorruptSinkJournal ''journal frame belongs to another physical shard'')
     else rbind (read_u64 c) (\<lambda>(first_offset, c).
     rbind (read_u32 c) (\<lambda>(payload_bytes, c).
     rbind (take_at ''append payload is truncated'' (unat payload_bytes) c) (\<lambda>(payload, c).
       Inr (\<lparr>ra_topic_partition = tp, ra_first_offset = first_offset, ra_payload = payload\<rparr>, c)))))"

definition decode_transaction :: "bytes \<Rightarrow> shard_id \<Rightarrow> telemetry_error + recovered_transaction" where
  "decode_transaction bs shard =
     rbind (decode_checkpoint (cursor_at bs 0)) (\<lambda>(expected, c).
     rbind (decode_checkpoint c) (\<lambda>(next, c).
     if cp_topic_partition expected \<noteq> cp_topic_partition next then
       Inl (CorruptSinkJournal ''transaction checkpoints refer to different partitions'')
     else rbind (read_u32 c) (\<lambda>(count, c).
     rbind (get_many (unat count) (decode_append shard (cp_topic_partition expected)) c) (\<lambda>(appends, c).
     if cur_offset c \<noteq> length bs then Inl (CorruptSinkJournal ''journal frame has trailing bytes'')
     else Inr \<lparr>rt_expected = expected, rt_next = next, rt_appends = appends\<rparr>))))"

section \<open>Recovery\<close>

type_synonym io_fault = "string \<Rightarrow> string option"

definition journal_io :: "string \<Rightarrow> string \<Rightarrow> telemetry_error" where
  "journal_io operation error = StorageIo (operation @ '' sink journal: '' @ error)"

definition io :: "io_fault \<Rightarrow> string \<Rightarrow> telemetry_error + unit" where
  "io fault operation = (case fault operation of None \<Rightarrow> Inr () | Some e \<Rightarrow> Inl (journal_io operation e))"

definition regressed :: "checkpoint_map \<Rightarrow> recovered_transaction \<Rightarrow> bool" where
  "regressed checkpoints t =
     (case checkpoints (cp_topic_partition (rt_expected t)) of
        None \<Rightarrow> False
      | Some actual \<Rightarrow> cp_next_placement_sequence actual > cp_next_placement_sequence (rt_expected t)
          \<or> cp_next_offset actual > cp_next_offset (rt_expected t))"

text \<open>
  The frame loop from \<open>position\<close> on: the transactions it appends to the list and the file it leaves.
  The position never leaves \<^verbatim>\<open>u64\<close>: it stays within the file.
\<close>

function recover_frames ::
  "(bytes \<Rightarrow> bytes) \<Rightarrow> io_fault \<Rightarrow> shard_id \<Rightarrow> bytes \<Rightarrow> nat \<Rightarrow> checkpoint_map
   \<Rightarrow> telemetry_error + recovered_transaction list \<times> bytes" where
  "recover_frames blake3 fault shard file frame_start checkpoints =
     rbind (io fault ''read frame header'') (\<lambda>_.
     if length file < frame_start + 4 then
       rbind (io fault ''repair partial header'') (\<lambda>_. Inr ([], take frame_start file))
     else let len = unat (from_le (slice frame_start (frame_start + 4) file) :: u32) in
     if len = 0 \<or> len > MAX_FRAME_BYTES then Inl (CorruptSinkJournal ''journal frame length is invalid'')
     else rbind (io fault ''read frame'') (\<lambda>_.
     if length file < frame_start + 4 + len + CHECKSUM_BYTES then
       rbind (io fault ''repair partial frame'') (\<lambda>_. Inr ([], take frame_start file))
     else let payload = slice (frame_start + 4) (frame_start + 4 + len) file;
              checksum = slice (frame_start + 4 + len) (frame_start + 4 + len + CHECKSUM_BYTES) file in
     if blake3 payload \<noteq> checksum then Inl (CorruptSinkJournal ''journal frame checksum is invalid'')
     else rbind (decode_transaction payload shard) (\<lambda>t.
     if regressed checkpoints t then Inl (CorruptSinkJournal ''journal checkpoint sequence or offset regressed'')
     else rbind (recover_frames blake3 fault shard file (frame_start + 4 + len + CHECKSUM_BYTES)
                  (checkpoints(cp_topic_partition (rt_next t) \<mapsto> rt_next t))) (\<lambda>(ts, file).
       Inr (t # ts, file)))))"
  by pat_completeness auto

termination
  by (relation "measure (\<lambda>(_, _, _, file, position, _). length file - position)") auto

declare recover_frames.simps [simp del]

definition recover ::
  "(bytes \<Rightarrow> bytes) \<Rightarrow> io_fault \<Rightarrow> bytes \<Rightarrow> shard_id \<Rightarrow> u64 \<Rightarrow> telemetry_error + recovered_transaction list \<times> bytes" where
  "recover blake3 fault file shard max_bytes =
     rbind (io fault ''inspect'') (\<lambda>_.
     if length file > unat max_bytes then Inl (SinkJournalFull (of_nat (length file)) max_bytes)
     else rbind (io fault ''seek start'') (\<lambda>_.
     rbind (io fault ''read header'') (\<lambda>_.
     if length file < length JOURNAL_MAGIC then Inl (journal_io ''read header'' ''failed to fill whole buffer'')
     else if take (length JOURNAL_MAGIC) file \<noteq> JOURNAL_MAGIC then Inl (CorruptSinkJournal ''journal magic is invalid'')
     else rbind (recover_frames blake3 fault shard file (length JOURNAL_MAGIC) Map.empty) (\<lambda>(ts, file).
       rbind (io fault ''seek recovered end'') (\<lambda>_. Inr (ts, file))))))"

definition checkpoints_of :: "recovered_transaction list \<Rightarrow> checkpoint_map" where
  "checkpoints_of ts = foldl (\<lambda>m t. m(cp_topic_partition (rt_next t) \<mapsto> rt_next t)) Map.empty ts"

text \<open>
  Opening returns the outcome and the file it leaves behind. A file of another length than zero is
  taken as it is; an empty one gets the magic first.
\<close>

definition journal_open ::
  "(bytes \<Rightarrow> bytes) \<Rightarrow> io_fault \<Rightarrow> nat \<Rightarrow> bytes \<Rightarrow> shard_id \<Rightarrow> u64 \<Rightarrow> bool
   \<Rightarrow> (telemetry_error + sink_journal \<times> recovered_transaction list) \<times> bytes" where
  "journal_open blake3 fault partial file shard max_bytes sync_each_append =
     (if unat max_bytes < length JOURNAL_MAGIC then
        (Inl (InvalidConfig ''sink journal max bytes must fit its header''), file)
      else case rbind (io fault ''create directory'') (\<lambda>_. rbind (io fault ''open'') (\<lambda>_. io fault ''inspect'')) of
        Inl e \<Rightarrow> (Inl e, file)
      | Inr _ \<Rightarrow>
          (case (if file = [] then io fault ''initialize'' else Inr ()) of
             Inl e \<Rightarrow> (Inl e, take partial JOURNAL_MAGIC)
           | Inr _ \<Rightarrow>
               let file = (if file = [] then JOURNAL_MAGIC else file) in
               (case recover blake3 fault file shard max_bytes of
                  Inl e \<Rightarrow> (Inl e, file)
                | Inr (ts, file) \<Rightarrow>
                    (rbind (io fault ''inspect recovered'') (\<lambda>_. rbind (io fault ''seek append'') (\<lambda>_.
                       Inr (\<lparr>sj_max_bytes = max_bytes, sj_sync_each_append = sync_each_append, sj_poisoned = False,
                              sj_state = \<lparr>js_file = file, js_bytes = of_nat (length file), js_unsynced_bytes = 0,
                                js_checkpoints = checkpoints_of ts\<rparr>\<rparr>, ts))), file))))"

section \<open>Appending\<close>

definition checkpoint_allows_lane_gap :: "durable_sink_checkpoint \<Rightarrow> durable_sink_checkpoint \<Rightarrow> bool" where
  "checkpoint_allows_lane_gap actual expected \<longleftrightarrow>
     cp_topic_partition actual = cp_topic_partition expected
     \<and> cp_next_placement_sequence actual = cp_next_placement_sequence expected
     \<and> cp_next_offset actual \<le> cp_next_offset expected"

definition checkpoint_covers :: "durable_sink_checkpoint \<Rightarrow> durable_sink_checkpoint \<Rightarrow> bool" where
  "checkpoint_covers checkpoint candidate \<longleftrightarrow>
     cp_topic_partition checkpoint = cp_topic_partition candidate
     \<and> cp_next_placement_sequence checkpoint \<ge> cp_next_placement_sequence candidate
     \<and> cp_next_offset checkpoint \<ge> cp_next_offset candidate"

definition frame :: "(bytes \<Rightarrow> bytes) \<Rightarrow> bytes \<Rightarrow> bytes" where
  "frame blake3 payload = u32_le (of_nat (length payload)) @ payload @ blake3 payload"

text \<open>
  \<^verbatim>\<open>append\<close> with the journal it leaves. The frame length never leaves \<^verbatim>\<open>u32\<close> or \<^verbatim>\<open>usize\<close>: the encoder
  bounds the payload by \<open>MAX_FRAME_BYTES\<close>. A failed synchronisation leaves the frame in the file with
  the byte count and the checkpoint unchanged.
\<close>

definition journal_append ::
  "(bytes \<Rightarrow> bytes) \<Rightarrow> (topic_partition \<Rightarrow> durable_sink_checkpoint) \<Rightarrow> io_fault \<Rightarrow> nat \<Rightarrow> sink_journal
   \<Rightarrow> durable_sink_checkpoint \<Rightarrow> durable_append list \<Rightarrow> durable_sink_checkpoint
   \<Rightarrow> (telemetry_error + unit) \<times> sink_journal" where
  "journal_append blake3 initial fault partial j expected appends next =
     (case encode_transaction expected appends next of
        Inl e \<Rightarrow> (Inl e, j)
      | Inr payload \<Rightarrow>
          let frame_bytes = of_nat (4 + length payload + CHECKSUM_BYTES) :: u64; st = sj_state j in
          if sj_poisoned j then (Inl (StorageIo ''sink journal lock is poisoned''), j)
          else let actual = (case js_checkpoints st (cp_topic_partition expected) of
                       Some c \<Rightarrow> c | None \<Rightarrow> initial (cp_topic_partition expected)) in
          if checkpoint_covers actual next then (Inr (), j)
          else if \<not> checkpoint_allows_lane_gap actual expected then
            (Inl (CorruptSinkJournal ''journal append does not continue its durable checkpoint chain''), j)
          else (case u64_checked_add (js_bytes st) frame_bytes of
            None \<Rightarrow> (Inl RecordTooLarge, j)
          | Some next_bytes \<Rightarrow>
              if next_bytes > sj_max_bytes j then (Inl (SinkJournalFull next_bytes (sj_max_bytes j)), j)
              else case io fault ''append transaction'' of
                Inl e \<Rightarrow> (Inl e, j\<lparr>sj_state := st\<lparr>js_file := js_file st @ take partial (frame blake3 payload)\<rparr>\<rparr>)
              | Inr _ \<Rightarrow>
                  let unsynced = u64_saturating_add (js_unsynced_bytes st) frame_bytes;
                      st = st\<lparr>js_file := js_file st @ frame blake3 payload, js_unsynced_bytes := unsynced\<rparr>;
                      sync = sj_sync_each_append j \<or> unsynced \<ge> BATCH_SYNC_BYTES in
                  (case (if sync then io fault ''sync transaction batch'' else Inr ()) of
                     Inl e \<Rightarrow> (Inl e, j\<lparr>sj_state := st\<rparr>)
                   | Inr _ \<Rightarrow>
                       (Inr (), j\<lparr>sj_state := st\<lparr>js_unsynced_bytes := (if sync then 0 else unsynced),
                          js_bytes := next_bytes,
                          js_checkpoints := (js_checkpoints st)(cp_topic_partition next \<mapsto> next)\<rparr>\<rparr>))))"

section \<open>The frame codec is exact\<close>

lemma take_at_Inr:
  "take_at message n c = Inr (bs, c') \<Longrightarrow>
     length bs = n \<and> c' = cur_adv n c \<and> cur_rest c = bs @ cur_rest c' \<and> cur_offset c' \<le> length (cur_bytes c)"
  by (auto simp: take_at_def Let_def cur_rest_def cur_adv_def slice_drop split: if_splits)

lemma take_at_append:
  "cur_rest c = bs @ r \<Longrightarrow> bs \<noteq> [] \<or> cur_offset c \<le> length (cur_bytes c) \<Longrightarrow>
   take_at message (length bs) c = Inr (bs, cur_adv (length bs) c)"
proof -
  assume a: "cur_rest c = bs @ r" "bs \<noteq> [] \<or> cur_offset c \<le> length (cur_bytes c)"
  have "length bs \<le> length (cur_bytes c) - cur_offset c" using arg_cong [OF a(1), of length] by (simp add: cur_rest_def)
  moreover have "bs \<noteq> [] \<longrightarrow> cur_offset c \<le> length (cur_bytes c)" using calculation by (cases bs) auto
  ultimately have "cur_offset c + length bs \<le> length (cur_bytes c)" using a(2) by auto
  then show ?thesis using a(1) by (simp add: take_at_def Let_def slice_def cur_adv_def cur_rest_def)
qed

lemma take_at_codec:
  assumes "\<And>x. length (enc x) = n" "n \<noteq> 0" "\<And>x. dec (enc x) = x" "\<And>bs. length bs = n \<Longrightarrow> enc (dec bs) = bs"
  shows "wire_codec cur_rest cur_adv enc (\<lambda>c. rbind (take_at message n c) (\<lambda>(bs, c). Inr (dec bs, c))) (\<lambda>_. True)"
proof (unfold_locales, goal_cases)
  case (1 x s r)
  have "enc x \<noteq> []" using assms(1) [of x] assms(2) by auto
  with take_at_append [of s "enc x" r message] 1 show ?case by (simp add: assms(1,3))
next
  case (2 s x s')
  then obtain bs where bs: "take_at message n s = Inr (bs, s')" "x = dec bs" by (auto simp: result_simps)
  with take_at_Inr [OF bs(1)] assms(4) show ?case by auto
qed

interpretation j32: wire_codec cur_rest cur_adv u32_le read_u32 "\<lambda>_. True"
  unfolding read_u32_def read_array_def by (rule take_at_codec) (simp_all add: le_bytes_from_le)

interpretation j64: wire_codec cur_rest cur_adv u64_le read_u64 "\<lambda>_. True"
  unfolding read_u64_def read_array_def by (rule take_at_codec) (simp_all add: le_bytes_from_le)

interpretation j128: wire_codec cur_rest cur_adv u128_le read_u128 "\<lambda>_. True"
  unfolding read_u128_def read_array_def by (rule take_at_codec) (simp_all add: le_bytes_from_le)

interpretation tp_codec: wire_pair cur_rest cur_adv u128_le read_u128 "\<lambda>_. True" u32_le read_u32 "\<lambda>_. True"
  by unfold_locales

interpretation progress_codec: wire_pair cur_rest cur_adv u64_le read_u64 "\<lambda>_. True" u64_le read_u64 "\<lambda>_. True"
  by unfold_locales

interpretation cp_fields: wire_pair cur_rest cur_adv "enc_pair u128_le u32_le" "get_pair read_u128 read_u32"
    "\<lambda>p. True \<and> True" "enc_pair u64_le u64_le" "get_pair read_u64 read_u64" "\<lambda>p. True \<and> True"
  by unfold_locales

definition checkpoint_of :: "(u128 \<times> u32) \<times> u64 \<times> u64 \<Rightarrow> durable_sink_checkpoint" where
  "checkpoint_of p = \<lparr>cp_topic_partition = TopicPartition (fst (fst p)) (snd (fst p)),
     cp_next_placement_sequence = fst (snd p), cp_next_offset = snd (snd p)\<rparr>"

definition checkpoint_fields :: "durable_sink_checkpoint \<Rightarrow> (u128 \<times> u32) \<times> u64 \<times> u64" where
  "checkpoint_fields c = ((topic_id (cp_topic_partition c), partition_id (cp_topic_partition c)),
     cp_next_placement_sequence c, cp_next_offset c)"

abbreviation get_checkpoint_fields :: "cursor \<Rightarrow> telemetry_error + ((u128 \<times> u32) \<times> u64 \<times> u64) \<times> cursor" where
  "get_checkpoint_fields \<equiv> get_pair (get_pair read_u128 read_u32) (get_pair read_u64 read_u64)"

lemma checkpoint_fields_simps [simp]:
  "checkpoint_of (checkpoint_fields c) = c" "checkpoint_fields (checkpoint_of p) = p"
  by (simp_all add: checkpoint_of_def checkpoint_fields_def)

lemma checkpoint_wire:
  "encode_checkpoint c = enc_pair (enc_pair u128_le u32_le) (enc_pair u64_le u64_le) (checkpoint_fields c)"
  "decode_checkpoint s = rmap (apfst checkpoint_of) (get_checkpoint_fields s)"
  by (simp_all add: encode_checkpoint_def decode_checkpoint_def enc_pair_def get_pair_def checkpoint_fields_def
      checkpoint_of_def rmap_def rbind_assoc case_prod_unfold)

interpretation checkpoint_codec: wire_codec cur_rest cur_adv encode_checkpoint decode_checkpoint "\<lambda>_. True"
proof (unfold_locales, goal_cases)
  case (1 x s r)
  with cp_fields.pair.get_enc [of s "checkpoint_fields x" r] show ?case by (simp add: checkpoint_wire)
next
  case (2 s x s')
  then obtain p where "get_checkpoint_fields s = Inr (p, s')" "x = checkpoint_of p"
    by (auto simp: checkpoint_wire(2) rmap_eq_Inr)
  with cp_fields.pair.get_sound [OF this(1)] show ?case by (simp add: checkpoint_wire)
qed

definition append_wire :: "shard_id \<Rightarrow> recovered_append \<Rightarrow> bytes" where
  "append_wire shard a = u32_le shard @ u64_le (ra_first_offset a) @ u32_le (of_nat (length (ra_payload a))) @ ra_payload a"

definition append_ok :: "topic_partition \<Rightarrow> recovered_append \<Rightarrow> bool" where
  "append_ok tp a \<longleftrightarrow> ra_topic_partition a = tp \<and> length (ra_payload a) < 2 ^ 32"

interpretation append_codec: wire_codec cur_rest cur_adv "append_wire shard" "decode_append shard tp" "append_ok tp" for shard tp
proof (unfold_locales, goal_cases)
  case (1 a s r)
  let ?n = "of_nat (length (ra_payload a)) :: u32"
  have len: "unat ?n = length (ra_payload a)" using 1 by (simp add: append_ok_def unat_of_nat)
  have r0: "cur_rest s = u32_le shard @ u64_le (ra_first_offset a) @ u32_le ?n @ ra_payload a @ r"
    using 1 by (simp add: append_wire_def)
  have h: "read_u32 s = Inr (shard, cur_adv 4 s)" using j32.get_enc [OF _ r0] by simp
  have r1: "cur_rest (cur_adv 4 s) = u64_le (ra_first_offset a) @ u32_le ?n @ ra_payload a @ r"
    using r0 by (simp add: cur.rest_adv)
  have o: "read_u64 (cur_adv 4 s) = Inr (ra_first_offset a, cur_adv 12 s)" using j64.get_enc [OF _ r1] by (simp add: cur.adv_adv)
  have r2: "cur_rest (cur_adv 12 s) = u32_le ?n @ ra_payload a @ r" using r0 by (simp add: cur.rest_adv)
  have n: "read_u32 (cur_adv 12 s) = Inr (?n, cur_adv 16 s)" using j32.get_enc [OF _ r2] by (simp add: cur.adv_adv)
  have r3: "cur_rest (cur_adv 16 s) = ra_payload a @ r" using r0 by (simp add: cur.rest_adv)
  have "16 \<le> length (cur_rest s)" using r0 by simp
  then have "cur_offset (cur_adv 16 s) \<le> length (cur_bytes (cur_adv 16 s))" by (simp add: cur_rest_def)
  with take_at_append [OF r3] h o n len 1(1) show ?case
    by (simp add: decode_append_def append_wire_def append_ok_def cur.adv_adv)
next
  case (2 s a s')
  then obtain s1 s2 s3 n where h: "read_u32 s = Inr (shard, s1)" "read_u64 s1 = Inr (ra_first_offset a, s2)"
      "read_u32 s2 = Inr (n, s3)" "take_at ''append payload is truncated'' (unat n) s3 = Inr (ra_payload a, s')"
    and tp: "ra_topic_partition a = tp"
    by (auto simp: decode_append_def result_simps split: if_splits)
  from take_at_Inr [OF h(4)] have n: "n = of_nat (length (ra_payload a))" "length (ra_payload a) < 2 ^ 32"
    and s': "s' = cur_adv (length (ra_payload a)) s3" "cur_rest s3 = ra_payload a @ cur_rest s'"
    using unsigned_less [of n] by auto
  from j32.get_rest [OF h(1)] j64.get_rest [OF h(2)] j32.get_rest [OF h(3)] s'(2) n(1)
  have "cur_rest s = append_wire shard a @ cur_rest s'" by (simp add: append_wire_def)
  moreover have "s' = cur_adv (length (append_wire shard a)) s"
    using j32.get_sound [OF h(1)] j64.get_sound [OF h(2)] j32.get_sound [OF h(3)] s'(1)
    by (simp add: append_wire_def cur.adv_adv)
  ultimately show ?case using tp n(2) by (auto simp: append_ok_def)
qed

text \<open>The wire form of a transaction and what the encoder and the decoder check of it.\<close>

definition transaction_wire :: "shard_id \<Rightarrow> recovered_transaction \<Rightarrow> bytes" where
  "transaction_wire shard t = encode_checkpoint (rt_expected t) @ encode_checkpoint (rt_next t)
     @ u32_le (of_nat (length (rt_appends t))) @ concat (map (append_wire shard) (rt_appends t))"

definition transaction_ok :: "recovered_transaction \<Rightarrow> bool" where
  "transaction_ok t \<longleftrightarrow> cp_topic_partition (rt_next t) = cp_topic_partition (rt_expected t)
     \<and> length (rt_appends t) < 2 ^ 32 \<and> (\<forall>a \<in> set (rt_appends t). append_ok (cp_topic_partition (rt_expected t)) a)"

lemma cursor_at_rest [simp]: "cur_rest (cursor_at bs 0) = bs"
  by (simp add: cur_rest_def cursor_at_def)

lemma decode_transaction_Inr: "decode_transaction bs shard = Inr t \<longleftrightarrow> bs = transaction_wire shard t \<and> transaction_ok t"
  (is "?L \<longleftrightarrow> ?R")
proof
  assume ?L
  then obtain e s1 m s2 n s3 as s4 where h': "decode_checkpoint (cursor_at bs 0) = Inr (e, s1)"
      "decode_checkpoint s1 = Inr (m, s2)" "read_u32 s2 = Inr (n, s3)"
      "get_many (unat n) (decode_append shard (cp_topic_partition e)) s3 = Inr (as, s4)"
    and tp': "cp_topic_partition e = cp_topic_partition m" and stop: "cur_offset s4 = length bs"
    and t: "\<lparr>rt_expected = e, rt_next = m, rt_appends = as\<rparr> = t"
    unfolding decode_transaction_def rbind_eq_Inr split_paired_Ex prod.case if_Inr sum.inject not_not by blast
  have h: "decode_checkpoint (cursor_at bs 0) = Inr (rt_expected t, s1)"
      "decode_checkpoint s1 = Inr (rt_next t, s2)" "read_u32 s2 = Inr (n, s3)"
      "get_many (unat n) (decode_append shard (cp_topic_partition (rt_expected t))) s3 = Inr (rt_appends t, s4)"
    and tp: "cp_topic_partition (rt_next t) = cp_topic_partition (rt_expected t)"
    using h' tp' by (simp_all flip: t)
  from append_codec.get_many_sound [OF h(4)] obtain r
    where a: "length (rt_appends t) = unat n" "\<forall>a \<in> set (rt_appends t). append_ok (cp_topic_partition (rt_expected t)) a"
    and s4: "s4 = cur_adv (length (concat (map (append_wire shard) (rt_appends t)))) s3"
    and r: "cur_rest s3 = concat (map (append_wire shard) (rt_appends t)) @ r"
    by blast
  have r3: "cur_rest s3 = concat (map (append_wire shard) (rt_appends t)) @ cur_rest s4"
    unfolding s4 cur.rest_adv r by simp
  have n: "n = of_nat (length (rt_appends t))" "length (rt_appends t) < 2 ^ 32" using a(1) unsigned_less [of n] by simp_all
  have "cur_bytes s4 = bs"
    using checkpoint_codec.get_sound [OF h(1)] checkpoint_codec.get_sound [OF h(2)] j32.get_sound [OF h(3)] s4
    by (simp add: cursor_at_def)
  then have "cur_rest s4 = []" using stop by (simp add: cur_rest_def)
  with checkpoint_codec.get_rest [OF h(1)] checkpoint_codec.get_rest [OF h(2)] j32.get_rest [OF h(3)] r3 n(1)
  have "bs = transaction_wire shard t" by (simp add: transaction_wire_def)
  with tp a(2) n(2) show ?R by (simp add: transaction_ok_def)
next
  assume ?R
  then have bs: "bs = transaction_wire shard t" and ok: "transaction_ok t" by auto
  let ?n = "of_nat (length (rt_appends t)) :: u32" and ?as = "concat (map (append_wire shard) (rt_appends t))"
  let ?s = "cursor_at bs 0" and ?e = "length (encode_checkpoint (rt_expected t))" and ?m = "length (encode_checkpoint (rt_next t))"
  have r0: "cur_rest ?s = encode_checkpoint (rt_expected t) @ encode_checkpoint (rt_next t) @ u32_le ?n @ ?as"
    by (simp add: bs transaction_wire_def)
  note e = checkpoint_codec.get_enc [OF _ r0, simplified]
  have r1: "cur_rest (cur_adv ?e ?s) = encode_checkpoint (rt_next t) @ u32_le ?n @ ?as" using r0 by (simp add: cur.rest_adv)
  note m = checkpoint_codec.get_enc [OF _ r1, simplified]
  have r2: "cur_rest (cur_adv ?m (cur_adv ?e ?s)) = u32_le ?n @ ?as" using r1 by (simp add: cur.rest_adv)
  note c = j32.get_enc [OF _ r2, simplified]
  have r3: "cur_rest (cur_adv 4 (cur_adv ?m (cur_adv ?e ?s))) = ?as @ []" using r2 by (simp add: cur.rest_adv)
  have "unat ?n = length (rt_appends t)" using ok by (simp add: transaction_ok_def unat_of_nat)
  with append_codec.get_many_enc [OF _ r3, of "cp_topic_partition (rt_expected t)"] ok e m c show ?L
    by (simp add: decode_transaction_def transaction_ok_def cur.adv_adv) (simp add: bs transaction_wire_def cursor_at_def)
qed

text \<open>What an accepted append request says, as the transaction that recovery returns for it.\<close>

definition recovered :: "durable_append \<Rightarrow> recovered_append" where
  "recovered a = \<lparr>ra_topic_partition = da_topic_partition a, ra_first_offset = da_first_offset a, ra_payload = da_payload a\<rparr>"

definition transaction_of ::
  "durable_sink_checkpoint \<Rightarrow> durable_append list \<Rightarrow> durable_sink_checkpoint \<Rightarrow> recovered_transaction" where
  "transaction_of expected appends next =
     \<lparr>rt_expected = expected, rt_next = next, rt_appends = map recovered appends\<rparr>"

lemma encode_append_Inr:
  "encode_append tp a enc = Inr enc' \<longleftrightarrow>
     append_ok tp (recovered a) \<and> enc' = enc @ append_wire (da_physical_shard_id a) (recovered a)"
  by (auto simp: encode_append_def append_ok_def append_wire_def recovered_def usize_to_u32_def)

lemma encode_appends_Inr:
  "\<forall>a \<in> set as. da_physical_shard_id a = shard \<Longrightarrow>
   rfold (encode_append tp) as enc = Inr enc' \<longleftrightarrow>
     (\<forall>a \<in> set as. append_ok tp (recovered a)) \<and> enc' = enc @ concat (map (append_wire shard) (map recovered as))"
  by (induction as arbitrary: enc) (auto simp: rbind_eq_Inr encode_append_Inr)

lemma encode_transaction_Inr:
  assumes "\<forall>a \<in> set appends. da_physical_shard_id a = shard"
  shows "encode_transaction expected appends next = Inr bs \<longleftrightarrow>
    (let t = transaction_of expected appends next in
     transaction_ok t \<and> bs = transaction_wire shard t \<and> length bs \<le> MAX_FRAME_BYTES)"
  by (auto simp: encode_transaction_def rbind_eq_Inr encode_appends_Inr [OF assms] transaction_ok_def
      transaction_wire_def transaction_of_def usize_to_u32_def Let_def not_less)

lemma length_encode_checkpoint [simp]: "length (encode_checkpoint c) = 36"
  by (simp add: encode_checkpoint_def)

lemma length_transaction_wire: "76 \<le> length (transaction_wire shard t)"
  by (simp add: transaction_wire_def)

section \<open>Logs of frames that a crash may cut\<close>

text \<open>
  A log of self-delimiting frames with a scanner: on a whole acceptable frame the scanner takes it
  and goes on from the next state; on nothing, or on a proper prefix of a frame, it stops and keeps
  nothing. Then the scan of any prefix of a log returns exactly its whole frames.
\<close>

locale crash_log =
  fixes frame_of :: "'t \<Rightarrow> 'b list"
    and accepts :: "'c \<Rightarrow> 't \<Rightarrow> bool"
    and next_state :: "'c \<Rightarrow> 't \<Rightarrow> 'c"
    and scan :: "'c \<Rightarrow> 'b list \<Rightarrow> 'e + 't list \<times> 'b list"
  assumes scan_frame: "accepts c t \<Longrightarrow>
      scan c (frame_of t @ bs) = rmap (\<lambda>(ts, kept). (t # ts, frame_of t @ kept)) (scan (next_state c t) bs)"
    and scan_torn: "bs = [] \<or> accepts c t \<and> strict_prefix bs (frame_of t) \<Longrightarrow> scan c bs = Inr ([], [])"
begin

fun chain :: "'c \<Rightarrow> 't list \<Rightarrow> bool" where
  "chain c [] = True"
| "chain c (t # ts) = (accepts c t \<and> chain (next_state c t) ts)"

definition log_of :: "'t list \<Rightarrow> 'b list" where
  "log_of ts = concat (map frame_of ts)"

lemma log_simps [simp]: "log_of [] = []" "log_of (t # ts) = frame_of t @ log_of ts" "log_of (ts @ us) = log_of ts @ log_of us"
  by (simp_all add: log_of_def)

lemma chain_append [simp]: "chain c (ts @ us) \<longleftrightarrow> chain c ts \<and> chain (foldl next_state c ts) us"
  by (induction ts arbitrary: c) auto

lemma scan_log:
  "chain c ts \<Longrightarrow>
   scan c (log_of ts @ bs) = rmap (\<lambda>(us, kept). (ts @ us, log_of ts @ kept)) (scan (foldl next_state c ts) bs)"
proof (induction ts arbitrary: c)
  case Nil
  show ?case by (cases "scan c bs") auto
next
  case (Cons t ts)
  then show ?case by (cases "scan (foldl next_state (next_state c t) ts) bs") (auto simp: scan_frame)
qed

lemma scan_prefix:
  "chain c ts \<Longrightarrow> prefix p (log_of ts) \<Longrightarrow>
   \<exists>n \<le> length ts. scan c p = Inr (take n ts, log_of (take n ts)) \<and> prefix (log_of (take n ts)) p
     \<and> (n = length ts \<or> length p < length (log_of (take (Suc n) ts)))"
proof (induction ts arbitrary: c p)
  case Nil
  then have "p = []" by simp
  then show ?case by (simp add: scan_torn)
next
  case (Cons t ts)
  from Cons.prems(2) have "prefix p (frame_of t) \<or> (\<exists>q. p = frame_of t @ q \<and> prefix q (log_of ts))"
    by (auto simp: prefix_append)
  then consider "strict_prefix p (frame_of t)" | q where "p = frame_of t @ q" "prefix q (log_of ts)"
    by (metis prefix_order.le_less append_Nil2 Nil_prefix)
  then show ?case
  proof cases
    case 1
    then have "length p < length (frame_of t)" by (rule prefix_length_less)
    moreover have "scan c p = Inr ([], [])" using scan_torn [of p c t] 1 Cons.prems(1) by simp
    ultimately show ?thesis by (intro exI [of _ 0]) simp
  next
    case 2
    from Cons.IH [OF _ 2(2), of "next_state c t"] Cons.prems(1) obtain n where
      n: "n \<le> length ts" "scan (next_state c t) q = Inr (take n ts, log_of (take n ts))" "prefix (log_of (take n ts)) q"
        "n = length ts \<or> length q < length (log_of (take (Suc n) ts))" by auto
    then have "scan c p = Inr (take (Suc n) (t # ts), log_of (take (Suc n) (t # ts)))"
      using Cons.prems(1) by (simp add: 2(1) scan_frame)
    with n 2(1) show ?thesis by (intro exI [of _ "Suc n"]) auto
  qed
qed

end

section \<open>The journal as such a log\<close>

abbreviation no_fault :: io_fault where "no_fault \<equiv> \<lambda>_. None"

definition tx_frame :: "(bytes \<Rightarrow> bytes) \<Rightarrow> shard_id \<Rightarrow> recovered_transaction \<Rightarrow> bytes" where
  "tx_frame blake3 shard t = frame blake3 (transaction_wire shard t)"

text \<open>A transaction recovery accepts after the given checkpoints.\<close>

definition tx_accepts :: "(bytes \<Rightarrow> bytes) \<Rightarrow> shard_id \<Rightarrow> checkpoint_map \<Rightarrow> recovered_transaction \<Rightarrow> bool" where
  "tx_accepts blake3 shard m t \<longleftrightarrow> transaction_ok t \<and> length (transaction_wire shard t) \<le> MAX_FRAME_BYTES
     \<and> length (blake3 (transaction_wire shard t)) = CHECKSUM_BYTES \<and> \<not> regressed m t"

definition tx_next :: "checkpoint_map \<Rightarrow> recovered_transaction \<Rightarrow> checkpoint_map" where
  "tx_next m t = m(cp_topic_partition (rt_next t) \<mapsto> rt_next t)"

definition tx_scan :: "(bytes \<Rightarrow> bytes) \<Rightarrow> shard_id \<Rightarrow> checkpoint_map \<Rightarrow> bytes
    \<Rightarrow> telemetry_error + recovered_transaction list \<times> bytes" where
  "tx_scan blake3 shard m bs = recover_frames blake3 no_fault shard bs 0 m"

lemma slice_shift: "slice (length pre + a) (length pre + b) (pre @ bs) = slice a b bs"
  by (simp add: slice_def)

lemma io_no_fault [simp]: "io no_fault op = Inr ()"
  by (simp add: io_def)

lemma recover_frames_shift:
  "recover_frames blake3 no_fault shard (pre @ bs) (length pre + k) m
     = rmap (\<lambda>(ts, file). (ts, pre @ file)) (recover_frames blake3 no_fault shard bs k m)"
proof (induction blake3 "no_fault" shard bs k m rule: recover_frames.induct)
  case (1 blake3 shard bs k m)
  let ?len = "unat (from_le (slice k (k + 4) bs) :: u32)"
  let ?payload = "slice (k + 4) (k + 4 + ?len) bs"
  have at: "slice (length pre + k + a) (length pre + k + b) (pre @ bs) = slice (k + a) (k + b) bs" for a b
    by (simp add: add.assoc slice_shift)
  note L = recover_frames.simps [of blake3 no_fault shard "pre @ bs" "length pre + k" m]
    and R = recover_frames.simps [of blake3 no_fault shard bs k m]
  have hd: "slice (length pre + k) (length pre + k + 4) (pre @ bs) = slice k (k + 4) bs" using at [of 0 4] by simp
  show ?case
  proof (cases "length bs < k + 4 \<or> ?len = 0 \<or> ?len > MAX_FRAME_BYTES \<or> length bs < k + 4 + ?len + CHECKSUM_BYTES")
    case True
    then show ?thesis
      unfolding L R by (auto simp: hd Let_def)
  next
    case False
    note here = at [of 4 "4 + ?len", folded add.assoc] at [of "4 + ?len" "4 + ?len + CHECKSUM_BYTES", folded add.assoc]
    show ?thesis
    proof (cases "decode_transaction ?payload shard")
      case (Inl e)
      with False show ?thesis unfolding L R by (simp add: hd here Let_def)
    next
      case (Inr t)
      show ?thesis
      proof (cases "blake3 ?payload = slice (k + 4 + ?len) (k + 4 + ?len + CHECKSUM_BYTES) bs \<and> \<not> regressed m t")
        case True
        have "recover_frames blake3 no_fault shard (pre @ bs) (length pre + (k + 4 + ?len + CHECKSUM_BYTES)) (tx_next m t)
        = rmap (\<lambda>(ts, file). (ts, pre @ file)) (recover_frames blake3 no_fault shard bs (k + 4 + ?len + CHECKSUM_BYTES) (tx_next m t))"
          unfolding tx_next_def by (rule 1) (use False Inr True in simp_all)
        then have "recover_frames blake3 no_fault shard (pre @ bs) (length pre + k + 4 + ?len + CHECKSUM_BYTES)
            (m(cp_topic_partition (rt_next t) \<mapsto> rt_next t))
          = rmap (\<lambda>(ts, file). (ts, pre @ file)) (recover_frames blake3 no_fault shard bs (k + 4 + ?len + CHECKSUM_BYTES)
            (m(cp_topic_partition (rt_next t) \<mapsto> rt_next t)))"
          by (simp only: tx_next_def add.assoc)
        with False Inr True show ?thesis unfolding L R
          by (simp add: hd here Let_def rmap_def rbind_assoc case_prod_unfold)
      next
        case no: False
        with False Inr show ?thesis unfolding L R by (auto simp: hd here Let_def)
      qed
    qed
  qed
qed

lemma length_tx_frame:
  "tx_accepts blake3 shard m t \<Longrightarrow> length (tx_frame blake3 shard t) = 4 + length (transaction_wire shard t) + CHECKSUM_BYTES"
  by (simp add: tx_frame_def frame_def tx_accepts_def)

lemma tx_frame_length_field:
  "tx_accepts blake3 shard m t \<Longrightarrow> unat (of_nat (length (transaction_wire shard t)) :: u32) = length (transaction_wire shard t)"
  by (simp add: tx_accepts_def MAX_FRAME_BYTES_def unat_of_nat)

lemma tx_scan_step:
  assumes ok: "transaction_ok t" "length (transaction_wire shard t) \<le> MAX_FRAME_BYTES"
    "length (blake3 (transaction_wire shard t)) = CHECKSUM_BYTES"
  shows "tx_scan blake3 shard c (tx_frame blake3 shard t @ bs) =
    (if regressed c t then Inl (CorruptSinkJournal ''journal checkpoint sequence or offset regressed'')
     else rmap (\<lambda>(ts, kept). (t # ts, tx_frame blake3 shard t @ kept)) (tx_scan blake3 shard (tx_next c t) bs))"
proof -
  let ?w = "transaction_wire shard t" and ?f = "tx_frame blake3 shard t"
  have whole: "?f @ bs = u32_le (of_nat (length ?w)) @ ?w @ blake3 ?w @ bs" by (simp add: tx_frame_def frame_def)
  have n: "length ?f = 4 + length ?w + CHECKSUM_BYTES" using ok by (simp add: tx_frame_def frame_def)
  have "unat (of_nat (length ?w) :: u32) = length ?w" using ok(2) by (simp add: MAX_FRAME_BYTES_def unat_of_nat)
  then have len: "unat (from_le (slice 0 4 (?f @ bs)) :: u32) = length ?w" by (simp add: whole slice_def)
  have payload: "slice 4 (4 + length ?w) (?f @ bs) = ?w" by (simp add: whole slice_def)
  have sum: "slice (4 + length ?w) (4 + length ?w + CHECKSUM_BYTES) (?f @ bs) = blake3 ?w"
    using ok by (simp add: whole slice_def)
  have "decode_transaction ?w shard = Inr t" "length ?w \<noteq> 0"
    using ok length_transaction_wire [of shard t] by (auto simp: decode_transaction_Inr)
  moreover have "recover_frames blake3 no_fault shard (?f @ bs) (4 + length ?w + CHECKSUM_BYTES) (tx_next c t)
      = rmap (\<lambda>(ts, file). (ts, ?f @ file)) (recover_frames blake3 no_fault shard bs 0 (tx_next c t))"
    using recover_frames_shift [of blake3 shard ?f bs 0] n by simp
  moreover have "\<not> length (?f @ bs) < 4 + length ?w + CHECKSUM_BYTES" using n by simp
  ultimately show ?thesis unfolding tx_scan_def
    using len payload sum ok(2)
    by (subst recover_frames.simps) (simp add: Let_def rmap_def rbind_assoc case_prod_unfold flip: tx_next_def)
qed

interpretation sink_log: crash_log "tx_frame blake3 shard" "tx_accepts blake3 shard" tx_next "tx_scan blake3 shard"
    for blake3 shard
proof (unfold_locales, goal_cases)
  case (1 c t bs)
  then show ?case by (simp add: tx_scan_step tx_accepts_def)
next
  case (2 bs c t)
  show ?case
  proof (cases "length bs < 4")
    case True
    then show ?thesis unfolding tx_scan_def by (subst recover_frames.simps) simp
  next
    case False
    with 2 have t: "tx_accepts blake3 shard c t" "strict_prefix bs (tx_frame blake3 shard t)" by auto
    let ?w = "transaction_wire shard t"
    obtain rs where f: "tx_frame blake3 shard t = bs @ rs" "rs \<noteq> []" using t(2) by (auto elim: strict_prefixE')
    have "take 4 bs = take 4 (tx_frame blake3 shard t)" using f(1) False by simp
    then have len: "unat (from_le (slice 0 4 bs) :: u32) = length ?w"
      using tx_frame_length_field [OF t(1)] by (simp add: tx_frame_def frame_def slice_def)
    have "length bs < 4 + length ?w + CHECKSUM_BYTES" using length_tx_frame [OF t(1)] prefix_length_less [OF t(2)] by simp
    moreover have "length ?w \<le> MAX_FRAME_BYTES" "length ?w \<noteq> 0"
      using t(1) length_transaction_wire [of shard t] by (auto simp: tx_accepts_def)
    ultimately show ?thesis unfolding tx_scan_def using False len by (subst recover_frames.simps) (simp add: Let_def)
  qed
qed

section \<open>Runs of the journal\<close>

definition journal_log :: "(bytes \<Rightarrow> bytes) \<Rightarrow> shard_id \<Rightarrow> recovered_transaction list \<Rightarrow> bytes" where
  "journal_log blake3 shard ts = JOURNAL_MAGIC @ concat (map (tx_frame blake3 shard) ts)"

definition journal_inv :: "(bytes \<Rightarrow> bytes) \<Rightarrow> shard_id \<Rightarrow> sink_journal \<Rightarrow> recovered_transaction list \<Rightarrow> bool" where
  "journal_inv blake3 shard j ts \<longleftrightarrow>
     js_file (sj_state j) = journal_log blake3 shard ts \<and> sink_log.chain blake3 shard Map.empty ts
     \<and> js_checkpoints (sj_state j) = checkpoints_of ts \<and> unat (js_bytes (sj_state j)) = length (js_file (sj_state j))
     \<and> length (js_file (sj_state j)) \<le> unat (sj_max_bytes j) \<and> \<not> sj_poisoned j"

lemma checkpoints_of_eq: "checkpoints_of ts = foldl tx_next Map.empty ts"
  by (simp add: checkpoints_of_def tx_next_def [abs_def])

lemma length_magic [simp]: "length JOURNAL_MAGIC = 8" by (simp add: JOURNAL_MAGIC_def)

lemma journal_log_simps:
  "journal_log blake3 shard ts = JOURNAL_MAGIC @ sink_log.log_of blake3 shard ts"
  "journal_log blake3 shard (ts @ [t]) = journal_log blake3 shard ts @ tx_frame blake3 shard t"
  by (simp_all add: journal_log_def sink_log.log_of_def)

lemma recover_prefix:
  assumes chain: "sink_log.chain blake3 shard Map.empty ts" and f: "prefix f (journal_log blake3 shard ts)"
    and long: "length JOURNAL_MAGIC \<le> length f" "length f \<le> unat max_bytes"
  obtains n where "n \<le> length ts"
    "recover blake3 no_fault f shard max_bytes = Inr (take n ts, journal_log blake3 shard (take n ts))"
    "n = length ts \<or> length f < length (journal_log blake3 shard (take (Suc n) ts))"
    "length (journal_log blake3 shard (take n ts)) \<le> length f"
proof -
  obtain zs where zs: "JOURNAL_MAGIC @ sink_log.log_of blake3 shard ts = f @ zs"
    using f by (auto simp: journal_log_simps(1) prefix_def)
  define p where "p = take (length f - 8) (sink_log.log_of blake3 shard ts)"
  have "f = take (length f) (JOURNAL_MAGIC @ sink_log.log_of blake3 shard ts)" by (simp add: zs)
  then have p: "f = JOURNAL_MAGIC @ p" "prefix p (sink_log.log_of blake3 shard ts)"
    using long(1) by (simp_all add: p_def take_is_prefix)
  from sink_log.scan_prefix [OF chain p(2)] obtain n where n: "n \<le> length ts"
    "recover_frames blake3 no_fault shard p 0 Map.empty = Inr (take n ts, sink_log.log_of blake3 shard (take n ts))"
    "prefix (sink_log.log_of blake3 shard (take n ts)) p"
    "n = length ts \<or> length p < length (sink_log.log_of blake3 shard (take (Suc n) ts))"
    by (auto simp: tx_scan_def)
  have "recover_frames blake3 no_fault shard f (length JOURNAL_MAGIC) Map.empty
      = Inr (take n ts, journal_log blake3 shard (take n ts))"
    using recover_frames_shift [of blake3 shard JOURNAL_MAGIC p 0 Map.empty] n(2) by (simp add: p(1) journal_log_simps(1))
  then have "recover blake3 no_fault f shard max_bytes = Inr (take n ts, journal_log blake3 shard (take n ts))"
    using long by (simp add: recover_def p(1))
  with n(1,4) prefix_length_le [OF n(3)] show ?thesis by (intro that [of n]) (auto simp: p(1) journal_log_simps(1))
qed

lemma sink_chain_take: "sink_log.chain blake3 shard m ts \<Longrightarrow> sink_log.chain blake3 shard m (take n ts)"
  by (metis append_take_drop_id sink_log.chain_append)

text \<open>Opening what a crash left of a well-formed journal.\<close>

lemma journal_open_prefix:
  assumes inv: "journal_inv blake3 shard j ts" and f: "prefix f (js_file (sj_state j))" "length JOURNAL_MAGIC \<le> length f"
  obtains n j' where "n \<le> length ts"
    "journal_open blake3 no_fault partial f shard (sj_max_bytes j) sync
       = (Inr (j', take n ts), journal_log blake3 shard (take n ts))"
    "journal_inv blake3 shard j' (take n ts)" "js_unsynced_bytes (sj_state j') = 0"
    "sj_max_bytes j' = sj_max_bytes j" "sj_sync_each_append j' = sync"
    "n = length ts \<or> length f < length (journal_log blake3 shard (take (Suc n) ts))"
    "length (journal_log blake3 shard (take n ts)) \<le> length f"
proof -
  have log: "js_file (sj_state j) = journal_log blake3 shard ts" and chain: "sink_log.chain blake3 shard Map.empty ts"
    and small: "length f \<le> unat (sj_max_bytes j)"
    using inv prefix_length_le [OF f(1)] by (auto simp: journal_inv_def)
  obtain n where n: "n \<le> length ts"
    "recover blake3 no_fault f shard (sj_max_bytes j) = Inr (take n ts, journal_log blake3 shard (take n ts))"
    "n = length ts \<or> length f < length (journal_log blake3 shard (take (Suc n) ts))"
    "length (journal_log blake3 shard (take n ts)) \<le> length f"
    by (rule recover_prefix [OF chain f(1) [unfolded log] f(2) small])
  let ?file = "journal_log blake3 shard (take n ts)"
  let ?j = "\<lparr>sj_max_bytes = sj_max_bytes j, sj_sync_each_append = sync, sj_poisoned = False,
    sj_state = \<lparr>js_file = ?file, js_bytes = of_nat (length ?file), js_unsynced_bytes = 0, js_checkpoints = checkpoints_of (take n ts)\<rparr>\<rparr>"
  have le: "length ?file \<le> unat (sj_max_bytes j)" using n(4) small by simp
  also have "unat (sj_max_bytes j) < 2 ^ LENGTH(64)" by (rule unsigned_less)
  finally have "unat (of_nat (length ?file) :: u64) = length ?file" by (simp add: unat_of_nat)
  with le have "journal_inv blake3 shard ?j (take n ts)" using chain sink_chain_take by (simp add: journal_inv_def)
  moreover have "f \<noteq> []" using f(2) by auto
  then have "journal_open blake3 no_fault partial f shard (sj_max_bytes j) sync = (Inr (?j, take n ts), ?file)"
    using n(2) f(2) small by (simp add: journal_open_def)
  ultimately show ?thesis using n(1,3,4) by (intro that [of n ?j]) simp_all
qed

text \<open>A journal grows by whole frames, in the order of the accepted appends.\<close>

lemma journal_append_inv:
  assumes inv: "journal_inv blake3 shard j ts" and hash: "\<And>x. length (blake3 x) = CHECKSUM_BYTES"
    and shard: "\<forall>a \<in> set appends. da_physical_shard_id a = shard"
    and io: "fault ''append transaction'' = None" "fault ''sync transaction batch'' = None"
    and run: "journal_append blake3 initial fault partial j expected appends next = (r, j')"
  shows "j' = j \<or> r = Inr () \<and> journal_inv blake3 shard j' (ts @ [transaction_of expected appends next])
      \<and> sj_max_bytes j' = sj_max_bytes j \<and> sj_sync_each_append j' = sj_sync_each_append j
      \<and> (sj_sync_each_append j \<longrightarrow> js_unsynced_bytes (sj_state j') = 0)
      \<and> js_file (sj_state j') = js_file (sj_state j) @ tx_frame blake3 shard (transaction_of expected appends next)"
proof (cases "j' = j")
  case False
  let ?t = "transaction_of expected appends next" and ?st = "sj_state j"
  let ?w = "transaction_wire shard ?t" and ?n = "of_nat (4 + length (transaction_wire shard ?t) + CHECKSUM_BYTES) :: u64"
  obtain payload where "encode_transaction expected appends next = Inr payload"
    using run False by (cases "encode_transaction expected appends next") (auto simp: journal_append_def)
  then have enc: "encode_transaction expected appends next = Inr ?w" and ok: "transaction_ok ?t" "length ?w \<le> MAX_FRAME_BYTES"
    by (auto simp: encode_transaction_Inr [OF shard] Let_def)
  define actual where "actual = (case js_checkpoints ?st (cp_topic_partition expected) of
      Some c \<Rightarrow> c | None \<Rightarrow> initial (cp_topic_partition expected))"
  obtain b where gap: "checkpoint_allows_lane_gap actual expected" and b: "u64_checked_add (js_bytes ?st) ?n = Some b"
      "b \<le> sj_max_bytes j" and r: "r = Inr ()"
    and j': "sj_max_bytes j' = sj_max_bytes j" "sj_sync_each_append j' = sj_sync_each_append j" "\<not> sj_poisoned j'"
      "js_bytes (sj_state j') = b" "js_file (sj_state j') = js_file ?st @ tx_frame blake3 shard ?t"
      "js_checkpoints (sj_state j') = (js_checkpoints ?st)(cp_topic_partition next \<mapsto> next)"
      "sj_sync_each_append j \<longrightarrow> js_unsynced_bytes (sj_state j') = 0"
    using run False io enc
    by (auto simp: journal_append_def Let_def io_def actual_def tx_frame_def not_less split: if_splits option.splits)
  have acc: "tx_accepts blake3 shard (checkpoints_of ts) ?t"
    using ok hash gap inv
    by (auto simp: tx_accepts_def regressed_def transaction_of_def checkpoint_allows_lane_gap_def actual_def journal_inv_def
        split: option.splits)
  have "4 + length ?w + CHECKSUM_BYTES < 2 ^ 64" using ok(2) by (simp add: MAX_FRAME_BYTES_def CHECKSUM_BYTES_def)
  then have "unat ?n = length (tx_frame blake3 shard ?t)" by (simp only: unat_of_nat_u64 length_tx_frame [OF acc])
  then have "unat b = length (js_file (sj_state j'))"
    using u64_checked_add_Some [OF b(1)] inv j'(5) by (simp add: journal_inv_def)
  then have "journal_inv blake3 shard j' (ts @ [?t])"
    using inv acc j' b(2)
    by (simp add: journal_inv_def journal_log_simps(2) checkpoints_of_eq tx_next_def transaction_of_def word_le_nat_alt)
  with r j' show ?thesis by simp
qed simp

text \<open>
  The runs of one journal: it is opened on an empty file; appends are made, none of which meets an
  I/O error; the process may stop at any time, which leaves the synchronised bytes and some of those
  written after them, and opens again.
\<close>

inductive journal_run ::
  "(bytes \<Rightarrow> bytes) \<Rightarrow> (topic_partition \<Rightarrow> durable_sink_checkpoint) \<Rightarrow> shard_id \<Rightarrow> u64 \<Rightarrow> bool
   \<Rightarrow> sink_journal \<Rightarrow> recovered_transaction list \<Rightarrow> bool"
  for blake3 initial shard max_bytes sync where
  run_open: "journal_open blake3 no_fault 0 [] shard max_bytes sync = (Inr (j, ts), f) \<Longrightarrow>
    journal_run blake3 initial shard max_bytes sync j ts"
| run_append: "journal_run blake3 initial shard max_bytes sync j ts \<Longrightarrow>
    \<forall>a \<in> set appends. da_physical_shard_id a = shard \<Longrightarrow>
    journal_append blake3 initial no_fault 0 j expected appends next = (r, j') \<Longrightarrow>
    journal_run blake3 initial shard max_bytes sync j'
      (if js_file (sj_state j') = js_file (sj_state j) then ts else ts @ [transaction_of expected appends next])"
| run_crash: "journal_run blake3 initial shard max_bytes sync j ts \<Longrightarrow>
    prefix f (js_file (sj_state j)) \<Longrightarrow> length JOURNAL_MAGIC \<le> length f \<Longrightarrow>
    length (js_file (sj_state j)) - unat (js_unsynced_bytes (sj_state j)) \<le> length f \<Longrightarrow>
    journal_open blake3 no_fault 0 f shard max_bytes sync = (Inr (j', ts'), f') \<Longrightarrow>
    journal_run blake3 initial shard max_bytes sync j' ts'"

lemma journal_open_empty:
  "8 \<le> unat max_bytes \<Longrightarrow> journal_open blake3 no_fault k [] shard max_bytes sync =
     (Inr (\<lparr>sj_max_bytes = max_bytes, sj_sync_each_append = sync, sj_poisoned = False,
        sj_state = \<lparr>js_file = JOURNAL_MAGIC, js_bytes = 8, js_unsynced_bytes = 0, js_checkpoints = Map.empty\<rparr>\<rparr>, []),
      JOURNAL_MAGIC)"
  by (simp add: journal_open_def recover_def checkpoints_of_def recover_frames.simps)

lemma tx_frame_nonempty: "tx_frame blake3 shard t \<noteq> []"
proof
  assume "tx_frame blake3 shard t = []"
  from arg_cong [OF this, of length] show False by (simp add: tx_frame_def frame_def)
qed

lemma journal_run_inv:
  assumes "journal_run blake3 initial shard max_bytes sync j ts" and hash: "\<And>x. length (blake3 x) = CHECKSUM_BYTES"
  shows "journal_inv blake3 shard j ts \<and> sj_max_bytes j = max_bytes \<and> sj_sync_each_append j = sync
    \<and> (sync \<longrightarrow> js_unsynced_bytes (sj_state j) = 0)"
  using assms(1)
proof induction
  case (run_open j ts f)
  have m: "8 \<le> unat max_bytes" using run_open by (auto simp: journal_open_def split: if_splits)
  with run_open show ?case
    by (auto simp: journal_open_empty journal_inv_def journal_log_def checkpoints_of_def)
next
  case (run_append j ts appends expected "next" r j')
  from journal_append_inv [OF _ hash run_append.hyps(2) _ _ run_append.hyps(3), of ts] run_append.IH
  show ?case by (auto simp: tx_frame_nonempty)
next
  case (run_crash j ts f j' ts' f')
  from run_crash.IH have inv: "journal_inv blake3 shard j ts" "sj_max_bytes j = max_bytes" by auto
  show ?case
    by (rule journal_open_prefix [OF inv(1) run_crash.hyps(2,3), of 0 sync]) (use run_crash.hyps(5) inv(2) in auto)
qed

text \<open>A run with one transaction, for the concrete instances below.\<close>

definition demo_partition :: topic_partition where "demo_partition = TopicPartition LOGS_TOPIC_ID 2"

definition demo_checkpoint :: "u64 \<Rightarrow> u64 \<Rightarrow> durable_sink_checkpoint" where
  "demo_checkpoint s n = \<lparr>cp_topic_partition = demo_partition, cp_next_placement_sequence = s, cp_next_offset = n\<rparr>"

definition demo_initial :: "topic_partition \<Rightarrow> durable_sink_checkpoint" where
  "demo_initial tp = \<lparr>cp_topic_partition = tp, cp_next_placement_sequence = 0, cp_next_offset = 0\<rparr>"

definition demo_append :: durable_append where
  "demo_append = \<lparr>da_topic_partition = demo_partition, da_physical_shard_id = 7, da_first_offset = 0, da_payload = [1, 2, 3]\<rparr>"

definition demo_hash :: "bytes \<Rightarrow> bytes" where "demo_hash bs = replicate 32 (of_nat (length bs))"

definition demo_opened :: "bool \<Rightarrow> sink_journal" where
  "demo_opened sync = \<lparr>sj_max_bytes = 1000, sj_sync_each_append = sync, sj_poisoned = False,
     sj_state = \<lparr>js_file = JOURNAL_MAGIC, js_bytes = 8, js_unsynced_bytes = 0, js_checkpoints = Map.empty\<rparr>\<rparr>"

definition demo_transaction :: recovered_transaction where
  "demo_transaction = transaction_of (demo_checkpoint 0 0) [demo_append] (demo_checkpoint 1 3)"

definition demo_journal :: "bool \<Rightarrow> sink_journal" where
  "demo_journal sync = snd (journal_append demo_hash demo_initial no_fault 0 (demo_opened sync)
     (demo_checkpoint 0 0) [demo_append] (demo_checkpoint 1 3))"

lemmas demo_defs = demo_partition_def demo_checkpoint_def demo_initial_def demo_append_def demo_transaction_def
  transaction_of_def recovered_def

lemma demo_hash_length: "length (demo_hash x) = CHECKSUM_BYTES"
  by (simp add: demo_hash_def CHECKSUM_BYTES_def)

lemma demo_encoded:
  "encode_transaction (demo_checkpoint 0 0) [demo_append] (demo_checkpoint 1 3) = Inr (transaction_wire 7 demo_transaction)"
  "length (transaction_wire 7 demo_transaction) = 95"
proof -
  show "length (transaction_wire 7 demo_transaction) = 95"
    by (simp add: transaction_wire_def append_wire_def demo_defs)
  then show "encode_transaction (demo_checkpoint 0 0) [demo_append] (demo_checkpoint 1 3) = Inr (transaction_wire 7 demo_transaction)"
    by (subst encode_transaction_Inr [where shard = 7])
      (simp_all add: demo_defs Let_def transaction_ok_def append_ok_def MAX_FRAME_BYTES_def)
qed

lemma demo_appended:
  "journal_append demo_hash demo_initial fault k (demo_opened sync) (demo_checkpoint 0 0) [demo_append] (demo_checkpoint 1 3)
     = (case io fault ''append transaction'' of
          Inl e \<Rightarrow> (Inl e, (demo_opened sync)\<lparr>sj_state := (sj_state (demo_opened sync))
            \<lparr>js_file := JOURNAL_MAGIC @ take k (tx_frame demo_hash 7 demo_transaction)\<rparr>\<rparr>)
        | Inr _ \<Rightarrow>
            let st = (sj_state (demo_opened sync))\<lparr>js_file := JOURNAL_MAGIC @ tx_frame demo_hash 7 demo_transaction,
                  js_unsynced_bytes := 131\<rparr> in
            (case (if sync then io fault ''sync transaction batch'' else Inr ()) of
               Inl e \<Rightarrow> (Inl e, (demo_opened sync)\<lparr>sj_state := st\<rparr>)
             | Inr _ \<Rightarrow> (Inr (), (demo_opened sync)\<lparr>sj_state := st\<lparr>js_unsynced_bytes := (if sync then 0 else 131),
                 js_bytes := 139, js_checkpoints := Map.empty(demo_partition \<mapsto> demo_checkpoint 1 3)\<rparr>\<rparr>)))"
  unfolding journal_append_def demo_encoded(1) sum.case
  by (simp add: demo_encoded(2) CHECKSUM_BYTES_def demo_opened_def u64_checked_add_def u64_saturating_add_def
      BATCH_SYNC_BYTES_def checkpoint_covers_def checkpoint_allows_lane_gap_def demo_checkpoint_def demo_initial_def
      tx_frame_def Let_def split: sum.splits)

lemma demo_file: "js_file (sj_state (demo_journal sync)) = JOURNAL_MAGIC @ tx_frame demo_hash 7 demo_transaction"
  "js_file (sj_state (demo_opened sync)) = JOURNAL_MAGIC" "js_unsynced_bytes (sj_state (demo_journal True)) = 0"
  by (simp_all add: demo_journal_def demo_appended Let_def) (simp_all add: demo_opened_def)

lemma demo_run:
  "journal_run demo_hash demo_initial 7 1000 sync (demo_opened sync) []"
  "journal_run demo_hash demo_initial 7 1000 sync (demo_journal sync) [demo_transaction]"
proof -
  show o: "journal_run demo_hash demo_initial 7 1000 sync (demo_opened sync) []"
    by (rule run_open) (simp add: journal_open_empty demo_opened_def)
  have "journal_run demo_hash demo_initial 7 1000 sync (demo_journal sync)
      (if js_file (sj_state (demo_journal sync)) = js_file (sj_state (demo_opened sync)) then [] else [] @ [demo_transaction])"
    unfolding demo_journal_def demo_transaction_def
    by (rule run_append [OF o, where r = "Inr ()"]) (simp_all add: demo_append_def [THEN arg_cong [of _ _ da_physical_shard_id]] demo_appended Let_def)
  then show "journal_run demo_hash demo_initial 7 1000 sync (demo_journal sync) [demo_transaction]"
    by (simp add: demo_file tx_frame_nonempty)
qed

text \<open>
  C5: a journal survives every crash. In any run, whatever prefix of the file (magic included) is
  left, opening it succeeds and returns exactly the transactions whose frames are whole in that
  prefix, in order, and truncates the file to them.
\<close>

theorem journal_crash_recovery:
  assumes "journal_run blake3 initial shard max_bytes sync j ts" and "\<And>x. length (blake3 x) = CHECKSUM_BYTES"
    and "prefix f (js_file (sj_state j))" "length JOURNAL_MAGIC \<le> length f"
  shows "\<exists>n \<le> length ts. \<exists>j'. journal_open blake3 no_fault k f shard max_bytes sync
      = (Inr (j', take n ts), journal_log blake3 shard (take n ts))
    \<and> length (journal_log blake3 shard (take n ts)) \<le> length f
    \<and> (n = length ts \<or> length f < length (journal_log blake3 shard (take (Suc n) ts)))"
proof -
  from journal_run_inv [OF assms(1,2)] have inv: "journal_inv blake3 shard j ts" "sj_max_bytes j = max_bytes" by auto
  from journal_open_prefix [OF inv(1) assms(3,4), of k sync] show ?thesis unfolding inv(2) by metis
qed

theorem journal_crash_recovery_witness:
  "\<exists>n \<le> 1. \<exists>j'. journal_open demo_hash no_fault 0 (take 20 (js_file (sj_state (demo_journal False)))) 7 1000 False
      = (Inr (j', take n [demo_transaction]), journal_log demo_hash 7 (take n [demo_transaction]))
    \<and> length (journal_log demo_hash 7 (take n [demo_transaction])) \<le> 20"
proof -
  have n: "length (js_file (sj_state (demo_journal False))) = 139"
    by (simp add: demo_file tx_frame_def frame_def demo_encoded(2) demo_hash_length CHECKSUM_BYTES_def)
  from journal_crash_recovery [OF demo_run(2) demo_hash_length take_is_prefix, of 20 False 0] n show ?thesis by auto
qed



text \<open>
  A transaction decodes to what was encoded, and only to that: the frame decoder accepts a
  payload exactly when the encoder produced it for the transaction it returns.
\<close>

lemma journal_transaction_exact:
  assumes "\<forall>a \<in> set appends. da_physical_shard_id a = shard"
    and "encode_transaction expected appends next = Inr bs"
  shows "decode_transaction bs shard = Inr t \<longleftrightarrow> t = transaction_of expected appends next"
proof -
  have "decode_transaction bs shard = Inr (transaction_of expected appends next)"
    using assms(2) by (simp add: encode_transaction_Inr [OF assms(1)] decode_transaction_Inr Let_def)
  then show ?thesis by auto
qed

lemma journal_transaction_exact_witness:
  "encode_transaction (demo_checkpoint 0 0) [demo_append] (demo_checkpoint 1 3) = Inr (transaction_wire 7 demo_transaction)
   \<and> decode_transaction (transaction_wire 7 demo_transaction) 7
       = Inr (transaction_of (demo_checkpoint 0 0) [demo_append] (demo_checkpoint 1 3))"
  using journal_transaction_exact [OF _ demo_encoded(1)] demo_encoded(1) by (simp add: demo_append_def)



lemma journal_append_shape:
  assumes "journal_append blake3 initial fault k j expected appends next = (r, j')"
    and "encode_transaction expected appends next = Inr payload"
    and "actual = (case js_checkpoints (sj_state j) (cp_topic_partition expected) of
           Some c \<Rightarrow> c | None \<Rightarrow> initial (cp_topic_partition expected))"
  shows "checkpoint_covers actual next \<Longrightarrow> j' = j"
    and "r = Inr () \<Longrightarrow> \<not> checkpoint_covers actual next \<Longrightarrow> js_file (sj_state j') = js_file (sj_state j) @ frame blake3 payload"
  using assms(1) unfolding journal_append_def assms(2) sum.case Let_def assms(3) [symmetric]
  by (auto split: if_splits option.splits sum.splits)


definition demo_fault :: io_fault where
  "demo_fault operation = (if operation = ''sync transaction batch'' then Some ''I/O error'' else None)"

definition demo_unsynced :: sink_journal where
  "demo_unsynced = snd (journal_append demo_hash demo_initial demo_fault 0 (demo_opened True)
     (demo_checkpoint 0 0) [demo_append] (demo_checkpoint 1 3))"

lemma demo_unsynced_eq:
  "demo_unsynced = (demo_opened True)\<lparr>sj_state := (sj_state (demo_opened True))
     \<lparr>js_file := JOURNAL_MAGIC @ tx_frame demo_hash 7 demo_transaction, js_unsynced_bytes := 131\<rparr>\<rparr>"
  by (simp add: demo_unsynced_def demo_appended Let_def io_def demo_fault_def)

lemma demo_retry:
  "fst (journal_append demo_hash demo_initial no_fault 0 demo_unsynced (demo_checkpoint 0 0) [demo_append] (demo_checkpoint 1 3))
     = Inr ()"
  unfolding journal_append_def demo_encoded(1) sum.case demo_unsynced_eq
  by (simp add: demo_encoded(2) CHECKSUM_BYTES_def demo_opened_def u64_checked_add_def Let_def
      checkpoint_covers_def checkpoint_allows_lane_gap_def demo_checkpoint_def demo_initial_def)


text \<open>
  A write of the eight magic bytes that stops part of the way leaves a file that can never be
  opened again: it is not empty, so the magic is not written anew, and too short to hold it.
\<close>

lemma journal_torn_header:
  assumes "fault = (\<lambda>operation. if operation = ''initialize'' then Some e else None)"
    and "0 < partial" "partial < length JOURNAL_MAGIC" "length JOURNAL_MAGIC \<le> unat max_bytes"
  shows "let (r, f) = journal_open blake3 fault partial [] shard max_bytes sync in
    r = Inl (journal_io ''initialize'' e)
    \<and> journal_open blake3 no_fault k f shard max_bytes sync
        = (Inl (journal_io ''read header'' ''failed to fill whole buffer''), f)"
proof -
  have "take partial JOURNAL_MAGIC \<noteq> []" using assms(2) by (simp add: JOURNAL_MAGIC_def ascii_def)
  with assms show ?thesis by (simp add: journal_open_def io_def recover_def Let_def del: take_eq_Nil)
qed

lemma journal_torn_header_witness:
  "let (r, f) = journal_open demo_hash (\<lambda>operation. if operation = ''initialize'' then Some ''disk full'' else None) 3 [] 7 1000 True in
    r = Inl (journal_io ''initialize'' ''disk full'')
    \<and> journal_open demo_hash no_fault 0 f 7 1000 True = (Inl (journal_io ''read header'' ''failed to fill whole buffer''), f)"
  by (rule journal_torn_header) simp_all

end
