(* ===== verification/AtomicFile.thy ===== *)
theory AtomicFile
  imports Telemetry
begin

text \<open>
  Small files that are replaced as a whole: the new contents go to a temporary file, which is
  synchronised and renamed over the old one. The delete catalog, the append
  receipts and the checkpoint journal of the offloader persist this way.
\<close>

section \<open>HTTP-boundary errors\<close>

record loki_api_error =
  lae_status :: nat
  lae_message :: string

definition bad_request :: "string \<Rightarrow> loki_api_error" where
  "bad_request message = \<lparr>lae_status = 400, lae_message = message\<rparr>"

definition internal :: "string \<Rightarrow> loki_api_error" where
  "internal message = \<lparr>lae_status = 500, lae_message = message\<rparr>"

definition configuration :: "string \<Rightarrow> loki_api_error" where
  "configuration message = internal message"

definition unavailable :: "string \<Rightarrow> loki_api_error" where
  "unavailable message = \<lparr>lae_status = 503, lae_message = message\<rparr>"

text \<open>
  Errors of the storage engine (crate \<^verbatim>\<open>shard_stream_engine\<close>): the sources tell one variant from the rest,
  of which they read the text.
\<close>

datatype engine_error = EngineInvalidConfig string | EngineOther string

fun engine_error_api :: "engine_error \<Rightarrow> loki_api_error" where
  "engine_error_api (EngineInvalidConfig message) = bad_request message"
| "engine_error_api (EngineOther message) = internal message"

section \<open>Replacing a file\<close>

text \<open>
  The file and its temporary sibling. A fault names the operation that fails; \<open>partial\<close> is the number
  of bytes a failing write has written.
\<close>

record file_pair =
  fp_main :: "bytes option"
  fp_temp :: "bytes option"

type_synonym file_fault = "string \<Rightarrow> string option"

definition fio :: "(string \<Rightarrow> 'e) \<Rightarrow> file_fault \<Rightarrow> string \<Rightarrow> 'e + unit" where
  "fio io_error fault operation = (case fault operation of None \<Rightarrow> Inr () | Some e \<Rightarrow> Inl (io_error e))"

definition replace_file :: "(string \<Rightarrow> 'e) \<Rightarrow> file_fault \<Rightarrow> nat \<Rightarrow> bytes \<Rightarrow> file_pair \<Rightarrow> ('e + unit) \<times> file_pair" where
  "replace_file io_error fault partial encoded fs =
     (case fio io_error fault ''open temporary'' of
        Inl e \<Rightarrow> (Inl e, fs)
      | Inr _ \<Rightarrow>
     (case fio io_error fault ''write temporary'' of
        Inl e \<Rightarrow> (Inl e, fs\<lparr>fp_temp := Some (take partial encoded)\<rparr>)
      | Inr _ \<Rightarrow>
     (case rbind (fio io_error fault ''sync temporary'') (\<lambda>_. fio io_error fault ''rename'') of
        Inl e \<Rightarrow> (Inl e, fs\<lparr>fp_temp := Some encoded\<rparr>)
      | Inr _ \<Rightarrow> (fio io_error fault ''sync directory'', fs\<lparr>fp_main := Some encoded, fp_temp := None\<rparr>))))"

lemma fio_no_fault [simp]: "fio io_error (\<lambda>_. None) operation = Inr ()"
  by (simp add: fio_def)

lemma replace_file_cases:
  assumes "replace_file io_error fault partial encoded fs = (r, fs')"
  shows "fp_main fs' = fp_main fs \<and> r \<noteq> Inr () \<or> fp_main fs' = Some encoded"
  using assms by (auto simp: replace_file_def split: sum.splits)

lemma replace_file_no_fault:
  "replace_file io_error (\<lambda>_. None) partial encoded fs = (Inr (), fs\<lparr>fp_main := Some encoded, fp_temp := None\<rparr>)"
  by (simp add: replace_file_def)

section \<open>Catalogs kept in such a file\<close>

text \<open>
  A state with an encoder and a decoder that inverts it, and the operation that makes a new state
  durable before it becomes the state in memory. The file always decodes to the state in memory or
  to one whose write was reported as failed.
\<close>

locale file_catalog =
  fixes encode :: "'s \<Rightarrow> 'e + bytes" and decode :: "bytes \<Rightarrow> 'e + 's" and valid :: "'s \<Rightarrow> bool"
    and io_error :: "string \<Rightarrow> 'e" and initial :: 's
  assumes decode_encode: "valid s \<Longrightarrow> encode s = Inr bs \<Longrightarrow> decode bs = Inr s"
begin

definition stored :: "file_pair \<Rightarrow> 'e + 's" where
  "stored fs = (case fp_main fs of None \<Rightarrow> Inr initial | Some bs \<Rightarrow> decode bs)"

definition commit :: "file_fault \<Rightarrow> nat \<Rightarrow> 's \<Rightarrow> file_pair \<Rightarrow> ('e + unit) \<times> file_pair" where
  "commit fault partial s fs = (case encode s of Inl e \<Rightarrow> (Inl e, fs) | Inr bs \<Rightarrow> replace_file io_error fault partial bs fs)"

lemma commit_stored:
  assumes "valid s" "commit fault partial s fs = (r, fs')"
  shows "stored fs' = stored fs \<and> r \<noteq> Inr () \<or> stored fs' = Inr s \<and> (\<exists>bs. encode s = Inr bs)"
proof (cases "encode s")
  case (Inl e)
  with assms show ?thesis by (auto simp: commit_def)
next
  case (Inr bs)
  with assms have "replace_file io_error fault partial bs fs = (r, fs')" by (simp add: commit_def)
  from replace_file_cases [OF this] decode_encode [OF assms(1) Inr] Inr show ?thesis by (auto simp: stored_def)
qed

lemma commit_no_fault:
  "encode s = Inr bs \<Longrightarrow> commit (\<lambda>_. None) partial s fs = (Inr (), fs\<lparr>fp_main := Some bs, fp_temp := None\<rparr>)"
  by (simp add: commit_def replace_file_no_fault)

end

end
