(* ===== verification/UsageLedger.thy ===== *)
theory UsageLedger
  imports AtomicFile
begin

text \<open>
  The embedded usage ledger (\<^verbatim>\<open>src/src/usage_ledger.rs\<close> and \<^verbatim>\<open>src/src/usage_ledger/\<close>): configuration,
  the counters and the rolling month window, one update, the two-slot file and its recovery.

  Not part of the repository, and so arguments of the model, are the MessagePack writer and parser
  (\<^verbatim>\<open>rmp_serde\<close>), Zstandard, CRC-32C, BLAKE3 and the calendar of \<^verbatim>\<open>chrono\<close>; they are the fields of
  \<open>ledger_codecs\<close>. The ledger file is its byte sequence. I/O calls are named; \<open>fault\<close> gives the error of
  those that fail, and a failing write leaves \<open>partial\<close> bytes of its data in the file.
\<close>

section \<open>Constants\<close>

definition LEDGER_MAGIC :: bytes where "LEDGER_MAGIC = ascii ''STUSAGE1''"
definition LEDGER_VERSION :: u16 where "LEDGER_VERSION = 1"
definition HEADER_BYTES :: nat where "HEADER_BYTES = 68"
definition SLOT_COUNT :: nat where "SLOT_COUNT = 2"
definition CODEC_RAW :: u8 where "CODEC_RAW = 0"
definition CODEC_ZSTD :: u8 where "CODEC_ZSTD = 1"
definition DEFAULT_MAX_FILE_BYTES :: u64 where "DEFAULT_MAX_FILE_BYTES = 1024 * 1024"
definition DEFAULT_MONTHLY_BUCKETS :: nat where "DEFAULT_MONTHLY_BUCKETS = 12"
definition MAX_FEATURES :: nat where "MAX_FEATURES = 4096"
definition MAX_FEATURE_UPDATES_PER_BATCH :: nat where "MAX_FEATURE_UPDATES_PER_BATCH = 4096"
definition MAX_FEATURE_ID_BYTES :: nat where "MAX_FEATURE_ID_BYTES = 128"
definition MAX_MONTHLY_BUCKETS :: nat where "MAX_MONTHLY_BUCKETS = 120"

section \<open>Configuration\<close>

datatype unknown_feature_policy = Reject | AccumulateOverflow

record usage_config =
  uc_path :: string
  uc_feature_ids :: "bytes list"
  uc_monthly_buckets :: nat
  uc_policy :: unknown_feature_policy
  uc_max_file_bytes :: u64

definition usage_config_new :: "string \<Rightarrow> bytes list \<Rightarrow> usage_config" where
  "usage_config_new path feature_ids =
     \<lparr>uc_path = path, uc_feature_ids = feature_ids, uc_monthly_buckets = DEFAULT_MONTHLY_BUCKETS,
      uc_policy = Reject, uc_max_file_bytes = DEFAULT_MAX_FILE_BYTES\<rparr>"

definition with_monthly_buckets :: "nat \<Rightarrow> usage_config \<Rightarrow> usage_config" where
  "with_monthly_buckets n c = c\<lparr>uc_monthly_buckets := n\<rparr>"

definition with_unknown_feature_policy :: "unknown_feature_policy \<Rightarrow> usage_config \<Rightarrow> usage_config" where
  "with_unknown_feature_policy p c = c\<lparr>uc_policy := p\<rparr>"

definition with_max_file_bytes :: "u64 \<Rightarrow> usage_config \<Rightarrow> usage_config" where
  "with_max_file_bytes n c = c\<lparr>uc_max_file_bytes := n\<rparr>"

fun adjacent_equal :: "'a list \<Rightarrow> bool" where
  "adjacent_equal (a # b # xs) = (a = b \<or> adjacent_equal (b # xs))"
| "adjacent_equal _ = False"

definition normalized :: "usage_config \<Rightarrow> loki_api_error + usage_config" where
  "normalized c =
     (if uc_feature_ids c = [] then
        Inl (configuration ''embedded usage ledger requires at least one feature ID'')
      else if length (uc_feature_ids c) > MAX_FEATURES then
        Inl (configuration (''embedded usage ledger supports at most '' @ dec_digits MAX_FEATURES @ '' feature IDs''))
      else if uc_monthly_buckets c > MAX_MONTHLY_BUCKETS then
        Inl (configuration (''embedded usage ledger supports at most '' @ dec_digits MAX_MONTHLY_BUCKETS @ '' monthly buckets''))
      else if uc_max_file_bytes c = 0 then
        Inl (configuration ''embedded usage ledger max_file_bytes must be nonzero'')
      else if \<exists>f \<in> set (uc_feature_ids c). f = [] \<or> length f > MAX_FEATURE_ID_BYTES then
        Inl (configuration (''embedded usage feature IDs must contain 1..='' @ dec_digits MAX_FEATURE_ID_BYTES @ '' UTF-8 bytes''))
      else let ids = sort (uc_feature_ids c) in
        if adjacent_equal ids then Inl (configuration ''embedded usage feature IDs must be unique'')
        else Inr (c\<lparr>uc_feature_ids := ids\<rparr>))"

section \<open>Persisted state\<close>

record persisted_month =
  pm_month_index :: u32
  pm_feature_counts :: "u64 list"
  pm_active_seconds :: u64
  pm_overflow_feature_events :: u64

record persisted_state =
  ps_feature_counts :: "u64 list"
  ps_active_seconds :: u64
  ps_overflow_feature_events :: u64
  ps_months :: "persisted_month list"
  ps_last_checkpoint :: u64

definition state_empty :: "nat \<Rightarrow> persisted_state" where
  "state_empty n = \<lparr>ps_feature_counts = replicate n 0, ps_active_seconds = 0, ps_overflow_feature_events = 0,
     ps_months = [], ps_last_checkpoint = 0\<rparr>"

definition maximum_sized :: "nat \<Rightarrow> nat \<Rightarrow> persisted_state" where
  "maximum_sized n buckets = \<lparr>ps_feature_counts = replicate n u64_max, ps_active_seconds = u64_max,
     ps_overflow_feature_events = u64_max,
     ps_months = replicate buckets \<lparr>pm_month_index = 0xffffffff, pm_feature_counts = replicate n u64_max,
       pm_active_seconds = u64_max, pm_overflow_feature_events = u64_max\<rparr>,
     ps_last_checkpoint = u64_max\<rparr>"

text \<open>
  The bounded sequence visitor: a sequence comes with the length its input announces, if any, and
  each element may fail to parse.
\<close>

type_synonym 'a raw_seq = "nat option \<times> (string + 'a) list"

fun visit_elements :: "nat \<Rightarrow> string \<Rightarrow> 'a list \<Rightarrow> (string + 'a) list \<Rightarrow> string + 'a list" where
  "visit_elements limit expected acc [] = Inr acc"
| "visit_elements limit expected acc (x # xs) =
     rbind x (\<lambda>v. if length acc = limit then Inl expected else visit_elements limit expected (acc @ [v]) xs)"

definition visit_seq :: "nat \<Rightarrow> string \<Rightarrow> 'a raw_seq \<Rightarrow> string + 'a list" where
  "visit_seq limit expected s = (case s of (size_hint, elements) \<Rightarrow>
     if (case size_hint of Some n \<Rightarrow> n > limit | None \<Rightarrow> False) then Inl expected
     else visit_elements limit expected [] elements)"

record raw_month =
  rm_month_index :: u32
  rm_feature_counts :: "u64 raw_seq"
  rm_active_seconds :: u64
  rm_overflow_feature_events :: u64

record raw_state =
  rs_feature_counts :: "u64 raw_seq"
  rs_active_seconds :: u64
  rs_overflow_feature_events :: u64
  rs_months :: "raw_month raw_seq"
  rs_last_checkpoint :: u64

definition deserialize_feature_counts :: "u64 raw_seq \<Rightarrow> string + u64 list" where
  "deserialize_feature_counts s = visit_seq MAX_FEATURES ''at most 4096 feature counters'' s"

definition deserialize_month :: "raw_month \<Rightarrow> string + persisted_month" where
  "deserialize_month m = rbind (deserialize_feature_counts (rm_feature_counts m)) (\<lambda>counts.
     Inr \<lparr>pm_month_index = rm_month_index m, pm_feature_counts = counts, pm_active_seconds = rm_active_seconds m,
       pm_overflow_feature_events = rm_overflow_feature_events m\<rparr>)"

definition deserialize_months :: "raw_month raw_seq \<Rightarrow> string + persisted_month list" where
  "deserialize_months s = (case s of (size_hint, elements) \<Rightarrow>
     visit_seq MAX_MONTHLY_BUCKETS ''at most 120 monthly buckets''
       (size_hint, map (\<lambda>m. rbind m deserialize_month) elements))"

definition deserialize_state :: "raw_state \<Rightarrow> string + persisted_state" where
  "deserialize_state r =
     rbind (deserialize_feature_counts (rs_feature_counts r)) (\<lambda>counts.
     rbind (deserialize_months (rs_months r)) (\<lambda>months.
       Inr \<lparr>ps_feature_counts = counts, ps_active_seconds = rs_active_seconds r,
         ps_overflow_feature_events = rs_overflow_feature_events r, ps_months = months,
         ps_last_checkpoint = rs_last_checkpoint r\<rparr>))"

record ledger_codecs =
  lc_to_vec :: "persisted_state \<Rightarrow> string + bytes"
  lc_parse :: "bytes \<Rightarrow> string + raw_state"
  lc_compress :: "bytes \<Rightarrow> string + bytes"
  lc_decompress :: "bytes \<Rightarrow> nat \<Rightarrow> string + bytes"
  lc_crc32c :: "bytes \<Rightarrow> u32"
  lc_blake3 :: "bytes \<Rightarrow> bytes"
  lc_civil :: "int \<Rightarrow> (int \<times> u32) option"

definition from_slice :: "ledger_codecs \<Rightarrow> bytes \<Rightarrow> string + persisted_state" where
  "from_slice codecs bs = rbind (lc_parse codecs bs) deserialize_state"

section \<open>Helpers\<close>

definition ledger_io :: "string \<Rightarrow> loki_api_error" where
  "ledger_io error = internal (''embedded usage ledger I/O failed: '' @ error)"

definition ledger_lock_error :: loki_api_error where
  "ledger_lock_error = internal ''embedded usage ledger lock poisoned''"

definition checked_add :: "u64 \<Rightarrow> u64 \<Rightarrow> loki_api_error + u64" where
  "checked_add left right = ok_or (bad_request ''embedded usage counter overflow'') (u64_checked_add left right)"

definition u32_saturate :: "nat \<Rightarrow> u32" where
  "u32_saturate n = (if n < 2 ^ 32 then of_nat n else 0xffffffff)"

definition calendar_month_index :: "ledger_codecs \<Rightarrow> u64 \<Rightarrow> loki_api_error + u32" where
  "calendar_month_index codecs timestamp =
     (if unat timestamp \<ge> 2 ^ 63 then Inl (bad_request ''embedded usage timestamp is outside the supported calendar'')
      else case lc_civil codecs (uint timestamp) of
        None \<Rightarrow> Inl (bad_request ''embedded usage timestamp is outside the supported calendar'')
      | Some (year, month) \<Rightarrow>
          if year < 0 then Inl (bad_request ''embedded usage timestamps before year zero are unsupported'')
          else let months = u32_saturate (nat year * 12) in
            Inr (u32_saturate (unat months + (unat month - 1))))"

definition calendar_month :: "u32 \<Rightarrow> int \<times> u8" where
  "calendar_month month_index = (int (unat month_index div 12), of_nat (unat month_index mod 12 + 1))"

fun months_unsorted :: "persisted_month list \<Rightarrow> bool" where
  "months_unsorted (a # b # xs) = (pm_month_index a \<ge> pm_month_index b \<or> months_unsorted (b # xs))"
| "months_unsorted _ = False"

definition validate_state :: "persisted_state \<Rightarrow> nat \<Rightarrow> nat \<Rightarrow> loki_api_error + unit" where
  "validate_state state feature_count monthly_buckets =
     (if length (ps_feature_counts state) \<noteq> feature_count
         \<or> length (ps_months state) > monthly_buckets
         \<or> (\<exists>m \<in> set (ps_months state). length (pm_feature_counts m) \<noteq> feature_count)
         \<or> months_unsorted (ps_months state)
      then Inl (internal ''embedded usage ledger state violates fixed-schema bounds'')
      else Inr ())"

definition configuration_fingerprint :: "ledger_codecs \<Rightarrow> bytes list \<Rightarrow> nat \<Rightarrow> unknown_feature_policy \<Rightarrow> bytes" where
  "configuration_fingerprint codecs feature_ids monthly_buckets policy =
     lc_blake3 codecs
       (ascii ''shard-telemetry-embedded-usage-v1'' @ [0] @ u64_le (of_nat monthly_buckets)
        @ [case policy of Reject \<Rightarrow> 0 | AccumulateOverflow \<Rightarrow> 1]
        @ concat (map (\<lambda>f. u64_le (of_nat (length f)) @ f) feature_ids))"

definition encode_header ::
  "ledger_codecs \<Rightarrow> u8 \<Rightarrow> u64 \<Rightarrow> nat \<Rightarrow> nat \<Rightarrow> bytes \<Rightarrow> u32 \<Rightarrow> loki_api_error + bytes" where
  "encode_header codecs codec generation payload_len raw_len fingerprint payload_crc =
     rbind (ok_or (configuration ''embedded usage payload exceeds v1 format'') (usize_to_u32 payload_len)) (\<lambda>payload_len.
     rbind (ok_or (configuration ''embedded usage payload exceeds v1 format'') (usize_to_u32 raw_len)) (\<lambda>raw_len.
       let header = LEDGER_MAGIC @ u16_le LEDGER_VERSION @ [codec, 0] @ u64_le generation @ u32_le payload_len
             @ u32_le raw_len @ fingerprint @ u32_le payload_crc in
       Inr (header @ u32_le (lc_crc32c codecs header))))"

section \<open>The ledger\<close>

record ledger_inner =
  li_file :: bytes
  li_state :: persisted_state
  li_active_slot :: nat
  li_generation :: u64
  li_current_generation_bytes :: nat
  li_compressed :: bool

record usage_ledger =
  ul_path :: string
  ul_feature_ids :: "bytes list"
  ul_feature_indexes :: "(bytes, nat) btree"
  ul_monthly_buckets :: nat
  ul_policy :: unknown_feature_policy
  ul_max_file_bytes :: u64
  ul_file_bytes :: nat
  ul_allocated_file_bytes :: nat
  ul_slot_bytes :: nat
  ul_max_raw_payload_bytes :: nat
  ul_config_fingerprint :: bytes
  ul_poisoned :: bool
  ul_inner :: ledger_inner
  ul_checkpoint_failures :: u64
  ul_rejected_updates :: u64
  ul_rejected_unknown_features :: u64
  ul_overflowed_unknown_events :: u64
  ul_monthly_updates_outside_window :: u64

definition feature_indexes :: "bytes list \<Rightarrow> (bytes, nat) btree" where
  "feature_indexes ids = foldl (\<lambda>m (i, f). btree_insert f i m) [] (enumerate 0 ids)"

text \<open>
  \<^verbatim>\<open>binary_search_by_key\<close> on the months, which are kept in strictly increasing order: the position of
  the month, or the position at which it would be inserted.
\<close>

definition month_search :: "persisted_month list \<Rightarrow> u32 \<Rightarrow> nat + nat" where
  "month_search months k =
     (let position = length (takeWhile (\<lambda>m. pm_month_index m < k) months) in
      if position < length months \<and> pm_month_index (months ! position) = k then Inr position else Inl position)"

definition list_insert :: "nat \<Rightarrow> 'a \<Rightarrow> 'a list \<Rightarrow> 'a list" where
  "list_insert i x xs = take i xs @ x # drop i xs"

definition fresh_month :: "nat \<Rightarrow> u32 \<Rightarrow> persisted_month" where
  "fresh_month n k = \<lparr>pm_month_index = k, pm_feature_counts = replicate n 0, pm_active_seconds = 0,
     pm_overflow_feature_events = 0\<rparr>"

text \<open>The staged state, the position of the month, and whether the update is too old for the window.\<close>

definition prepare_month :: "usage_ledger \<Rightarrow> persisted_state \<Rightarrow> u32 \<Rightarrow> persisted_state \<times> nat option \<times> bool" where
  "prepare_month l state month_index =
     (if ul_monthly_buckets l = 0 then (state, None, False)
      else let months = ps_months state; month = fresh_month (length (ul_feature_ids l)) month_index in
      (case month_search months month_index of
         Inr position \<Rightarrow> (state, Some position, False)
       | Inl position \<Rightarrow>
           if length months < ul_monthly_buckets l then
             (state\<lparr>ps_months := list_insert position month months\<rparr>, Some position, False)
           else if position = 0 then (state, None, True)
           else (state\<lparr>ps_months := list_insert (position - 1) month (tl months)\<rparr>, Some (position - 1), False)))"

section \<open>One update\<close>

text \<open>
  The loop over the feature increments. An error carries whether it also counts as a rejected
  unknown feature.
\<close>

definition accumulate_feature ::
  "usage_ledger \<Rightarrow> bytes \<times> u64 \<Rightarrow> u64 list \<times> u64 \<times> nat \<Rightarrow> (loki_api_error \<times> bool) + u64 list \<times> u64 \<times> nat" where
  "accumulate_feature l update s = (case (update, s) of ((feature_id, increment), (increments, overflowed, update_count)) \<Rightarrow>
     let update_count = update_count + 1 in
     if update_count > MAX_FEATURE_UPDATES_PER_BATCH then
       Inl (bad_request (''embedded usage batches support at most '' @ dec_digits MAX_FEATURE_UPDATES_PER_BATCH
              @ '' feature updates''), False)
     else if increment = 0 then Inr (increments, overflowed, update_count)
     else if length feature_id > MAX_FEATURE_ID_BYTES then
       (case ul_policy l of
          Reject \<Rightarrow> Inl (bad_request (''unknown embedded usage feature IDs must contain at most ''
                      @ dec_digits MAX_FEATURE_ID_BYTES @ '' UTF-8 bytes''), True)
        | AccumulateOverflow \<Rightarrow>
            rbind (map_err (\<lambda>e. (e, False)) (checked_add overflowed increment)) (\<lambda>overflowed.
              Inr (increments, overflowed, update_count)))
     else (case map_of (ul_feature_indexes l) feature_id of
         Some index \<Rightarrow>
           rbind (map_err (\<lambda>e. (e, False)) (checked_add (increments ! index) increment)) (\<lambda>v.
             Inr (increments[index := v], overflowed, update_count))
       | None \<Rightarrow>
           (case ul_policy l of
              Reject \<Rightarrow> Inl (bad_request ''feature ID is not in the embedded usage registry'', True)
            | AccumulateOverflow \<Rightarrow>
                rbind (map_err (\<lambda>e. (e, False)) (checked_add overflowed increment)) (\<lambda>overflowed.
                  Inr (increments, overflowed, update_count)))))"

definition add_month_feature :: "nat option \<Rightarrow> nat \<Rightarrow> u64 \<Rightarrow> persisted_state \<Rightarrow> loki_api_error + persisted_state" where
  "add_month_feature month_position index increment staged = (case month_position of
       None \<Rightarrow> Inr staged
     | Some p \<Rightarrow>
         let m = ps_months staged ! p in
         rbind (checked_add (pm_feature_counts m ! index) increment) (\<lambda>v.
           Inr (staged\<lparr>ps_months := (ps_months staged)[p := m\<lparr>pm_feature_counts := (pm_feature_counts m)[index := v]\<rparr>]\<rparr>)))"

definition add_feature :: "nat option \<Rightarrow> nat \<times> u64 \<Rightarrow> persisted_state \<Rightarrow> loki_api_error + persisted_state" where
  "add_feature month_position update staged = (case update of (index, increment) \<Rightarrow>
     if increment = 0 then Inr staged
     else rbind (checked_add (ps_feature_counts staged ! index) increment) (\<lambda>v.
       add_month_feature month_position index increment
         (staged\<lparr>ps_feature_counts := (ps_feature_counts staged)[index := v]\<rparr>)))"

definition add_active :: "nat option \<Rightarrow> u64 \<Rightarrow> persisted_state \<Rightarrow> loki_api_error + persisted_state" where
  "add_active month_position active staged =
     rbind (checked_add (ps_active_seconds staged) active) (\<lambda>v.
     let staged = staged\<lparr>ps_active_seconds := v\<rparr> in
     (case month_position of
        None \<Rightarrow> Inr staged
      | Some p \<Rightarrow>
          let m = ps_months staged ! p in
          rbind (checked_add (pm_active_seconds m) active) (\<lambda>v.
            Inr (staged\<lparr>ps_months := (ps_months staged)[p := m\<lparr>pm_active_seconds := v\<rparr>]\<rparr>))))"

definition add_overflow :: "nat option \<Rightarrow> u64 \<Rightarrow> persisted_state \<Rightarrow> loki_api_error + persisted_state" where
  "add_overflow month_position overflowed staged =
     rbind (checked_add (ps_overflow_feature_events staged) overflowed) (\<lambda>v.
     let staged = staged\<lparr>ps_overflow_feature_events := v\<rparr> in
     (case month_position of
        None \<Rightarrow> Inr staged
      | Some p \<Rightarrow>
          let m = ps_months staged ! p in
          rbind (checked_add (pm_overflow_feature_events m) overflowed) (\<lambda>v.
            Inr (staged\<lparr>ps_months := (ps_months staged)[p := m\<lparr>pm_overflow_feature_events := v\<rparr>]\<rparr>))))"

definition stage_update :: "nat option \<Rightarrow> u64 \<Rightarrow> u64 list \<Rightarrow> u64 \<Rightarrow> persisted_state \<Rightarrow> loki_api_error + persisted_state" where
  "stage_update month_position active increments overflowed staged =
     rbind (add_active month_position active staged) (\<lambda>staged.
     rbind (rfold (add_feature month_position) (enumerate 0 increments) staged) (\<lambda>staged.
       add_overflow month_position overflowed staged))"

section \<open>The two-slot file\<close>

type_synonym ledger_fault = "string \<Rightarrow> string option"

definition lio :: "ledger_fault \<Rightarrow> string \<Rightarrow> loki_api_error + unit" where
  "lio fault operation = (case fault operation of None \<Rightarrow> Inr () | Some e \<Rightarrow> Inl (ledger_io e))"

definition write_at :: "nat \<Rightarrow> bytes \<Rightarrow> bytes \<Rightarrow> bytes" where
  "write_at offset bs file =
     take offset (file @ replicate (offset - length file) 0) @ bs @ drop (offset + length bs) file"

text \<open>\<^verbatim>\<open>seek\<close> and \<^verbatim>\<open>read_exact\<close>.\<close>

definition read_at :: "ledger_fault \<Rightarrow> string \<Rightarrow> bytes \<Rightarrow> nat \<Rightarrow> nat \<Rightarrow> loki_api_error + bytes" where
  "read_at fault operation file offset n =
     rbind (lio fault operation) (\<lambda>_.
     if offset + n \<le> length file then Inr (slice offset (offset + n) file)
     else Inl (ledger_io ''failed to fill whole buffer''))"

text \<open>Saturation at the largest \<^verbatim>\<open>u64\<close>.\<close>

definition sat64 :: "nat \<Rightarrow> nat" where "sat64 n = min n (2 ^ 64 - 1)"

definition prepare_checkpoint ::
  "ledger_codecs \<Rightarrow> usage_ledger \<Rightarrow> u64 \<Rightarrow> persisted_state \<Rightarrow> loki_api_error + bytes \<times> u8 \<times> bytes \<times> u64" where
  "prepare_checkpoint codecs l current state =
     rbind (validate_state state (length (ul_feature_ids l)) (ul_monthly_buckets l)) (\<lambda>_.
     rbind (map_err (\<lambda>e. internal (''embedded usage ledger serialization failed: '' @ e)) (lc_to_vec codecs state)) (\<lambda>raw.
     if length raw > ul_max_raw_payload_bytes l then
       Inl (configuration ''embedded usage ledger state exceeds its precomputed hard quota'')
     else rbind (map_err (\<lambda>e. internal (''embedded usage ledger compression failed: '' @ e)) (lc_compress codecs raw)) (\<lambda>compressed.
     let (codec, payload) = (if length compressed < length raw then (CODEC_ZSTD, compressed) else (CODEC_RAW, raw)) in
     if length payload > ul_max_raw_payload_bytes l then
       Inl (configuration ''embedded usage ledger encoded state exceeds its fixed slot'')
     else rbind (ok_or (internal ''embedded usage ledger generation exhausted'') (u64_checked_add current 1)) (\<lambda>generation.
       Inr (raw, codec, payload, generation)))))"

definition persist_locked ::
  "ledger_codecs \<Rightarrow> ledger_fault \<Rightarrow> nat \<Rightarrow> usage_ledger \<Rightarrow> ledger_inner \<Rightarrow> persisted_state
   \<Rightarrow> (loki_api_error + unit) \<times> ledger_inner" where
  "persist_locked codecs fault partial l inner state =
     (case prepare_checkpoint codecs l (li_generation inner) state of
        Inl e \<Rightarrow> (Inl e, inner)
      | Inr (raw, codec, payload, generation) \<Rightarrow>
          let target_slot = (li_active_slot inner + 1) mod SLOT_COUNT;
              slot_offset = sat64 (ul_slot_bytes l * target_slot);
              payload_offset = sat64 (slot_offset + HEADER_BYTES) in
          (case lio fault ''write payload'' of
             Inl e \<Rightarrow> (Inl e, inner\<lparr>li_file := write_at payload_offset (take partial payload) (li_file inner)\<rparr>)
           | Inr _ \<Rightarrow>
               let inner1 = inner\<lparr>li_file := write_at payload_offset payload (li_file inner)\<rparr> in
               (case rbind (lio fault ''sync payload'') (\<lambda>_. encode_header codecs codec generation (length payload)
                       (length raw) (ul_config_fingerprint l) (lc_crc32c codecs payload)) of
                  Inl e \<Rightarrow> (Inl e, inner1)
                | Inr header \<Rightarrow>
                    (case lio fault ''write header'' of
                       Inl e \<Rightarrow> (Inl e, inner1\<lparr>li_file := write_at slot_offset (take partial header) (li_file inner1)\<rparr>)
                     | Inr _ \<Rightarrow>
                         let inner2 = inner1\<lparr>li_file := write_at slot_offset header (li_file inner1)\<rparr> in
                         (case lio fault ''sync header'' of
                            Inl e \<Rightarrow> (Inl e, inner2)
                          | Inr _ \<Rightarrow>
                              (Inr (), inner2\<lparr>li_state := state, li_active_slot := target_slot, li_generation := generation,
                                 li_current_generation_bytes := HEADER_BYTES + length payload,
                                 li_compressed := (codec = CODEC_ZSTD)\<rparr>))))))"

definition record_batch_at ::
  "ledger_codecs \<Rightarrow> ledger_fault \<Rightarrow> nat \<Rightarrow> u64 \<Rightarrow> usage_ledger \<Rightarrow> u64 \<Rightarrow> u64 \<Rightarrow> (bytes \<times> u64) list
   \<Rightarrow> (loki_api_error + unit) \<times> usage_ledger" where
  "record_batch_at codecs fault partial now l timestamp active updates =
     (let reject = (\<lambda>l. l\<lparr>ul_rejected_updates := ul_rejected_updates l + 1\<rparr>) in
      case rfold (accumulate_feature l) updates (replicate (length (ul_feature_ids l)) 0, 0, 0) of
        Inl (e, unknown) \<Rightarrow>
          (Inl e, reject (if unknown then l\<lparr>ul_rejected_unknown_features := ul_rejected_unknown_features l + 1\<rparr> else l))
      | Inr (increments, overflowed, _) \<Rightarrow>
          if active = 0 \<and> overflowed = 0 \<and> (\<forall>v \<in> set increments. v = 0) then (Inr (), l)
          else (case (if ul_monthly_buckets l = 0 then Inr 0 else calendar_month_index codecs timestamp) of
            Inl e \<Rightarrow> (Inl e, reject l)
          | Inr month_index \<Rightarrow>
              if ul_poisoned l then (Inl ledger_lock_error, l)
              else let (staged, month_position, outside) = prepare_month l (li_state (ul_inner l)) month_index;
                       l1 = (if outside then l\<lparr>ul_monthly_updates_outside_window := ul_monthly_updates_outside_window l + 1\<rparr> else l) in
              (case stage_update month_position active increments overflowed staged of
                 Inl e \<Rightarrow> (Inl e, reject l1)
               | Inr staged \<Rightarrow>
                   let staged = staged\<lparr>ps_last_checkpoint := max now (ps_last_checkpoint staged)\<rparr> in
                   (case persist_locked codecs fault partial l1 (ul_inner l1) staged of
                      (Inl e, inner) \<Rightarrow>
                        (Inl e, reject (l1\<lparr>ul_inner := inner, ul_checkpoint_failures := ul_checkpoint_failures l1 + 1\<rparr>))
                    | (Inr _, inner) \<Rightarrow>
                        (Inr (), l1\<lparr>ul_inner := inner,
                           ul_overflowed_unknown_events := ul_overflowed_unknown_events l1 + overflowed\<rparr>)))))"

definition record_feature_at ::
  "ledger_codecs \<Rightarrow> ledger_fault \<Rightarrow> nat \<Rightarrow> u64 \<Rightarrow> usage_ledger \<Rightarrow> bytes \<Rightarrow> u64 \<Rightarrow> u64
   \<Rightarrow> (loki_api_error + unit) \<times> usage_ledger" where
  "record_feature_at codecs fault partial now l feature_id increment timestamp =
     record_batch_at codecs fault partial now l timestamp 0 [(feature_id, increment)]"

definition record_active_seconds_at ::
  "ledger_codecs \<Rightarrow> ledger_fault \<Rightarrow> nat \<Rightarrow> u64 \<Rightarrow> usage_ledger \<Rightarrow> u64 \<Rightarrow> u64
   \<Rightarrow> (loki_api_error + unit) \<times> usage_ledger" where
  "record_active_seconds_at codecs fault partial now l seconds timestamp =
     record_batch_at codecs fault partial now l timestamp seconds []"

section \<open>Recovery\<close>

record recovered_slot =
  rv_state :: persisted_state
  rv_slot :: nat
  rv_generation :: u64
  rv_payload_bytes :: nat
  rv_compressed :: bool

datatype slot_read = Valid recovered_slot | OtherConfiguration | Invalid

definition decode_slot_payload :: "ledger_codecs \<Rightarrow> u8 \<Rightarrow> nat \<Rightarrow> bytes \<Rightarrow> bytes option" where
  "decode_slot_payload codecs codec raw_len payload =
     (if codec = CODEC_ZSTD then
        (case lc_decompress codecs payload raw_len of
           Inr raw \<Rightarrow> if length raw = raw_len then Some raw else None
         | Inl _ \<Rightarrow> None)
      else if length payload \<noteq> raw_len then None else Some payload)"

definition read_slot ::
  "ledger_codecs \<Rightarrow> ledger_fault \<Rightarrow> bytes \<Rightarrow> nat \<Rightarrow> nat \<Rightarrow> nat \<Rightarrow> bytes \<Rightarrow> nat \<Rightarrow> nat \<Rightarrow> loki_api_error + slot_read" where
  "read_slot codecs fault file slot slot_bytes max_raw fingerprint feature_count monthly_buckets =
     (let slot_offset = sat64 (slot_bytes * slot) in
      rbind (read_at fault ''read header'' file slot_offset HEADER_BYTES) (\<lambda>header.
      if take 8 header \<noteq> LEDGER_MAGIC then Inr Invalid
      else if lc_crc32c codecs (take 64 header) \<noteq> from_le (slice 64 68 header) then Inr Invalid
      else if from_le (slice 8 10 header) \<noteq> LEDGER_VERSION then Inr Invalid
      else if slice 28 60 header \<noteq> fingerprint then Inr OtherConfiguration
      else let codec = header ! 10 in
      if codec \<noteq> CODEC_RAW \<and> codec \<noteq> CODEC_ZSTD then Inr Invalid
      else let generation = from_le (slice 12 20 header) :: u64;
               payload_len = unat (from_le (slice 20 24 header) :: u32);
               raw_len = unat (from_le (slice 24 28 header) :: u32) in
      if payload_len > max_raw \<or> raw_len > max_raw then Inr Invalid
      else rbind (read_at fault ''read payload'' file (sat64 (slot_offset + HEADER_BYTES)) payload_len) (\<lambda>payload.
      if lc_crc32c codecs payload \<noteq> from_le (slice 60 64 header) then Inr Invalid
      else (case decode_slot_payload codecs codec raw_len payload of
        None \<Rightarrow> Inr Invalid
      | Some raw \<Rightarrow>
          (case from_slice codecs raw of
             Inl _ \<Rightarrow> Inr Invalid
           | Inr state \<Rightarrow>
               if \<not> is_ok (validate_state state feature_count monthly_buckets) then Inr Invalid
               else Inr (Valid \<lparr>rv_state = state, rv_slot = slot, rv_generation = generation,
                   rv_payload_bytes = HEADER_BYTES + payload_len, rv_compressed = (codec = CODEC_ZSTD)\<rparr>))))))"

text \<open>\<^verbatim>\<open>max_by_key\<close>: the last of the elements with the largest key.\<close>

fun latest :: "recovered_slot list \<Rightarrow> recovered_slot option" where
  "latest [] = None"
| "latest (x # xs) = (case latest xs of None \<Rightarrow> Some x
     | Some y \<Rightarrow> Some (if rv_generation y \<ge> rv_generation x then y else x))"

definition recover_slot ::
  "ledger_codecs \<Rightarrow> ledger_fault \<Rightarrow> usage_ledger \<Rightarrow> nat \<Rightarrow> recovered_slot list \<times> bool
   \<Rightarrow> loki_api_error + recovered_slot list \<times> bool" where
  "recover_slot codecs fault l slot s = (case s of (recovered, other) \<Rightarrow>
     rbind (read_slot codecs fault (li_file (ul_inner l)) slot (ul_slot_bytes l) (ul_max_raw_payload_bytes l)
              (ul_config_fingerprint l) (length (ul_feature_ids l)) (ul_monthly_buckets l)) (\<lambda>r.
     (case r of
        Valid v \<Rightarrow> Inr (recovered @ [v], other)
      | OtherConfiguration \<Rightarrow> Inr (recovered, True)
      | Invalid \<Rightarrow> Inr (recovered, other))))"

definition ledger_recover :: "ledger_codecs \<Rightarrow> ledger_fault \<Rightarrow> usage_ledger \<Rightarrow> loki_api_error + recovered_slot" where
  "ledger_recover codecs fault l =
     (if ul_poisoned l then Inl ledger_lock_error
      else rbind (rfold (recover_slot codecs fault l) [0..<SLOT_COUNT] ([], False)) (\<lambda>(recovered, other).
        ok_or (if other then configuration ''embedded usage ledger feature registry or monthly policy changed''
               else internal ''embedded usage ledger contains no valid checksummed generation'') (latest recovered)))"

definition slot_pristine :: "ledger_fault \<Rightarrow> bytes \<Rightarrow> nat \<Rightarrow> nat \<Rightarrow> bool \<Rightarrow> loki_api_error + bool" where
  "slot_pristine fault file slot_bytes slot pristine =
     (if \<not> pristine then Inr False
      else rbind (read_at fault ''read magic'' file (sat64 (slot_bytes * slot)) (length LEDGER_MAGIC)) (\<lambda>magic.
        Inr (\<forall>b \<in> set magic. b = 0)))"

definition slots_are_pristine :: "ledger_fault \<Rightarrow> bytes \<Rightarrow> nat \<Rightarrow> loki_api_error + bool" where
  "slots_are_pristine fault file slot_bytes = rfold (slot_pristine fault file slot_bytes) [0..<SLOT_COUNT] True"

section \<open>Opening\<close>

text \<open>
  The path is absent or holds something, a regular file or not. \<open>allocated\<close> is what the filesystem
  reports as reserved once the file has been allocated. \<^verbatim>\<open>allocate\<close> extends the file with zeros.
\<close>

datatype path_entry = Absent | RegularFile bytes | OtherFile

definition clean_up_failed_open :: "path_entry \<Rightarrow> bytes \<Rightarrow> loki_api_error \<Rightarrow> (loki_api_error + usage_ledger) \<times> path_entry" where
  "clean_up_failed_open existed file error = (Inl error, if existed = Absent then Absent else RegularFile file)"

definition new_ledger :: "ledger_codecs \<Rightarrow> usage_config \<Rightarrow> nat \<Rightarrow> nat \<Rightarrow> nat \<Rightarrow> nat \<Rightarrow> bytes \<Rightarrow> usage_ledger" where
  "new_ledger codecs config file_bytes allocated slot_bytes max_raw file =
     \<lparr>ul_path = uc_path config, ul_feature_ids = uc_feature_ids config,
      ul_feature_indexes = feature_indexes (uc_feature_ids config), ul_monthly_buckets = uc_monthly_buckets config,
      ul_policy = uc_policy config, ul_max_file_bytes = uc_max_file_bytes config, ul_file_bytes = file_bytes,
      ul_allocated_file_bytes = allocated, ul_slot_bytes = slot_bytes, ul_max_raw_payload_bytes = max_raw,
      ul_config_fingerprint = configuration_fingerprint codecs (uc_feature_ids config) (uc_monthly_buckets config) (uc_policy config),
      ul_poisoned = False,
      ul_inner = \<lparr>li_file = file, li_state = state_empty 0, li_active_slot = 1, li_generation = 0,
        li_current_generation_bytes = 0, li_compressed = False\<rparr>,
      ul_checkpoint_failures = 0, ul_rejected_updates = 0, ul_rejected_unknown_features = 0,
      ul_overflowed_unknown_events = 0, ul_monthly_updates_outside_window = 0\<rparr>"

text \<open>The last part of opening: the first generation is written, or the newest one read.\<close>

definition ledger_ready ::
  "ledger_codecs \<Rightarrow> ledger_fault \<Rightarrow> nat \<Rightarrow> u64 \<Rightarrow> bool \<Rightarrow> usage_ledger \<Rightarrow> (loki_api_error + unit) \<times> usage_ledger" where
  "ledger_ready codecs fault partial now initialize l =
     (if initialize then
        let state = state_empty (length (ul_feature_ids l)); inner = (ul_inner l)\<lparr>li_state := state\<rparr>;
            (r, inner) = persist_locked codecs fault partial l inner (state\<lparr>ps_last_checkpoint := now\<rparr>) in
        (r, l\<lparr>ul_inner := inner\<rparr>)
      else (case ledger_recover codecs fault l of
          Inl e \<Rightarrow> (Inl e, l)
        | Inr v \<Rightarrow> (Inr (), l\<lparr>ul_inner := (ul_inner l)\<lparr>li_state := rv_state v, li_active_slot := rv_slot v,
            li_generation := rv_generation v, li_current_generation_bytes := rv_payload_bytes v,
            li_compressed := rv_compressed v\<rparr>\<rparr>)))"

definition ledger_open ::
  "ledger_codecs \<Rightarrow> ledger_fault \<Rightarrow> nat \<Rightarrow> u64 \<Rightarrow> nat \<Rightarrow> usage_config \<Rightarrow> path_entry
   \<Rightarrow> (loki_api_error + usage_ledger) \<times> path_entry" where
  "ledger_open codecs fault partial now allocated config entry =
     (case rbind (normalized config) (\<lambda>config.
             rbind (map_err (\<lambda>e. internal (''embedded usage ledger sizing serialization failed: '' @ e))
                      (lc_to_vec codecs (maximum_sized (length (uc_feature_ids config)) (uc_monthly_buckets config)))) (\<lambda>raw.
             let slot_bytes = sat64 (HEADER_BYTES + length raw); file_bytes = sat64 (slot_bytes * SLOT_COUNT) in
             if file_bytes > unat (uc_max_file_bytes config) then
               Inl (configuration (''embedded usage ledger requires '' @ dec_digits file_bytes @ '' bytes for ''
                 @ dec_digits (length (uc_feature_ids config)) @ '' features and '' @ dec_digits (uc_monthly_buckets config)
                 @ '' monthly buckets, exceeding the '' @ dec_digits (unat (uc_max_file_bytes config)) @ ''-byte hard quota''))
             else rbind (lio fault ''create parent'') (\<lambda>_. rbind (lio fault ''inspect path'') (\<lambda>_.
             if entry = OtherFile then
               Inl (configuration (''embedded usage ledger path '' @ uc_path config
                 @ '' must be a regular file and not a symbolic link''))
             else rbind (lio fault ''open'') (\<lambda>_. Inr (config, length raw, slot_bytes, file_bytes)))))) of
        Inl e \<Rightarrow> (Inl e, entry)
      | Inr (config, max_raw, slot_bytes, file_bytes) \<Rightarrow>
          let file = (case entry of RegularFile bs \<Rightarrow> bs | _ \<Rightarrow> []) in
          (case fault ''lock'' of
             Some e \<Rightarrow> clean_up_failed_open entry file (configuration (''embedded usage ledger '' @ uc_path config
               @ '' is already in use or cannot be locked: '' @ e))
           | None \<Rightarrow>
          (case rbind (lio fault ''inspect'') (\<lambda>_.
                  if file \<noteq> [] \<and> length file \<noteq> file_bytes then
                    Inl (configuration (''embedded usage ledger '' @ uc_path config @ '' has '' @ dec_digits (length file)
                      @ '' bytes but this configuration requires '' @ dec_digits file_bytes))
                  else lio fault ''allocate'') of
             Inl e \<Rightarrow> clean_up_failed_open entry file e
           | Inr _ \<Rightarrow>
          let is_new = (file = []); file = file @ replicate (file_bytes - length file) 0 in
          (case rbind (if is_new then lio fault ''sync new'' else Inr ()) (\<lambda>_.
                rbind (if is_new then Inr True else slots_are_pristine fault file slot_bytes) (\<lambda>initialize.
                rbind (lio fault ''allocated size'') (\<lambda>_.
                if allocated < file_bytes then
                  Inl (configuration (''embedded usage ledger filesystem reserved only '' @ dec_digits allocated @ '' of ''
                    @ dec_digits file_bytes @ '' required bytes''))
                else if allocated > unat (uc_max_file_bytes config) then
                  Inl (configuration (''embedded usage ledger requires '' @ dec_digits allocated
                    @ '' allocated filesystem bytes, exceeding the '' @ dec_digits (unat (uc_max_file_bytes config)) @ ''-byte hard quota''))
                else Inr initialize))) of
             Inl e \<Rightarrow> clean_up_failed_open entry file e
           | Inr initialize \<Rightarrow>
          (case ledger_ready codecs fault partial now initialize
                  (new_ledger codecs config file_bytes allocated slot_bytes max_raw file) of
             (Inl e, l) \<Rightarrow> clean_up_failed_open entry (li_file (ul_inner l)) e
           | (Inr _, l) \<Rightarrow>
               if entry = Absent \<and> fault ''sync parent'' \<noteq> None then
                 (Inl (ledger_io (the (fault ''sync parent''))), Absent)
               else (Inr l, RegularFile (li_file (ul_inner l))))))))"

section \<open>Snapshots\<close>

record feature_usage =
  fu_feature_id :: bytes
  fu_count :: u64

record monthly_usage =
  mu_year :: int
  mu_month :: u8
  mu_features :: "feature_usage list"
  mu_active_seconds :: u64
  mu_overflow_feature_events :: u64

record usage_snapshot =
  us_features :: "feature_usage list"
  us_active_seconds :: u64
  us_overflow_feature_events :: u64
  us_months :: "monthly_usage list"
  us_generation :: u64
  us_last_checkpoint :: u64

record usage_health =
  uh_file_bytes :: nat
  uh_allocated_file_bytes :: nat
  uh_max_file_bytes :: u64
  uh_quota_headroom_bytes :: nat
  uh_current_generation_bytes :: nat
  uh_feature_count :: nat
  uh_monthly_bucket_count :: nat
  uh_generation :: u64
  uh_last_checkpoint :: u64
  uh_checkpoint_failures :: u64
  uh_rejected_updates :: u64
  uh_rejected_unknown_features :: u64
  uh_overflowed_unknown_events :: u64
  uh_monthly_updates_outside_window :: u64
  uh_pending_updates :: u64
  uh_compressed :: bool

definition feature_usages :: "bytes list \<Rightarrow> u64 list \<Rightarrow> feature_usage list" where
  "feature_usages ids counts = map (\<lambda>(f, c). \<lparr>fu_feature_id = f, fu_count = c\<rparr>) (zip ids counts)"

definition month_usage :: "bytes list \<Rightarrow> persisted_month \<Rightarrow> monthly_usage" where
  "month_usage ids m = (case calendar_month (pm_month_index m) of (year, month) \<Rightarrow>
     \<lparr>mu_year = year, mu_month = month, mu_features = feature_usages ids (pm_feature_counts m),
      mu_active_seconds = pm_active_seconds m, mu_overflow_feature_events = pm_overflow_feature_events m\<rparr>)"

definition public_snapshot :: "usage_ledger \<Rightarrow> ledger_inner \<Rightarrow> usage_snapshot" where
  "public_snapshot l inner = (let s = li_state inner in
     \<lparr>us_features = feature_usages (ul_feature_ids l) (ps_feature_counts s), us_active_seconds = ps_active_seconds s,
      us_overflow_feature_events = ps_overflow_feature_events s,
      us_months = map (month_usage (ul_feature_ids l)) (ps_months s),
      us_generation = li_generation inner, us_last_checkpoint = ps_last_checkpoint s\<rparr>)"

definition snapshot :: "usage_ledger \<Rightarrow> loki_api_error + usage_snapshot" where
  "snapshot l = (if ul_poisoned l then Inl ledger_lock_error else Inr (public_snapshot l (ul_inner l)))"

definition health :: "usage_ledger \<Rightarrow> loki_api_error + usage_health" where
  "health l = (if ul_poisoned l then Inl ledger_lock_error else let inner = ul_inner l in
     Inr \<lparr>uh_file_bytes = ul_file_bytes l, uh_allocated_file_bytes = ul_allocated_file_bytes l,
       uh_max_file_bytes = ul_max_file_bytes l,
       uh_quota_headroom_bytes = unat (ul_max_file_bytes l) - max (ul_file_bytes l) (ul_allocated_file_bytes l),
       uh_current_generation_bytes = li_current_generation_bytes inner, uh_feature_count = length (ul_feature_ids l),
       uh_monthly_bucket_count = length (ps_months (li_state inner)), uh_generation = li_generation inner,
       uh_last_checkpoint = ps_last_checkpoint (li_state inner), uh_checkpoint_failures = ul_checkpoint_failures l,
       uh_rejected_updates = ul_rejected_updates l, uh_rejected_unknown_features = ul_rejected_unknown_features l,
       uh_overflowed_unknown_events = ul_overflowed_unknown_events l,
       uh_monthly_updates_outside_window = ul_monthly_updates_outside_window l, uh_pending_updates = 0,
       uh_compressed = li_compressed inner\<rparr>)"

section \<open>Configuration and state invariants\<close>

lemma adjacent_equal_sorted: "sorted xs \<Longrightarrow> adjacent_equal xs \<longleftrightarrow> \<not> distinct xs"
  by (induction xs rule: adjacent_equal.induct) (fastforce)+

text \<open>What an accepted configuration looks like.\<close>

definition config_ok :: "usage_config \<Rightarrow> bool" where
  "config_ok c \<longleftrightarrow> sorted_wrt (<) (uc_feature_ids c) \<and> uc_feature_ids c \<noteq> [] \<and> length (uc_feature_ids c) \<le> MAX_FEATURES
     \<and> uc_monthly_buckets c \<le> MAX_MONTHLY_BUCKETS \<and> uc_max_file_bytes c \<noteq> 0
     \<and> (\<forall>f \<in> set (uc_feature_ids c). f \<noteq> [] \<and> length f \<le> MAX_FEATURE_ID_BYTES)"

lemma normalized_Inr: "normalized c = Inr c' \<longleftrightarrow> c' = c\<lparr>uc_feature_ids := sort (uc_feature_ids c)\<rparr> \<and> config_ok c'"
proof -
  let ?c = "c\<lparr>uc_feature_ids := sort (uc_feature_ids c)\<rparr>"
  have "sorted_wrt (<) (sort ids) \<longleftrightarrow> \<not> adjacent_equal (sort ids)" for ids :: "bytes list"
    by (simp add: adjacent_equal_sorted strict_sorted_iff)
  moreover have "sort (uc_feature_ids c) = [] \<longleftrightarrow> uc_feature_ids c = []" by (metis length_0_conv length_sort)
  ultimately have ok: "config_ok ?c \<longleftrightarrow> uc_feature_ids c \<noteq> [] \<and> \<not> length (uc_feature_ids c) > MAX_FEATURES
      \<and> \<not> uc_monthly_buckets c > MAX_MONTHLY_BUCKETS \<and> \<not> uc_max_file_bytes c = 0
      \<and> \<not> (\<exists>f \<in> set (uc_feature_ids c). f = [] \<or> length f > MAX_FEATURE_ID_BYTES) \<and> \<not> adjacent_equal (sort (uc_feature_ids c))"
    by (auto simp: config_ok_def not_less)
  have "normalized c = Inr c' \<longleftrightarrow> config_ok ?c \<and> ?c = c'"
    unfolding normalized_def if_Inr Let_def sum.inject ok by (simp only: conj_assoc)
  then show ?thesis by (cases "?c = c'") simp_all
qed

lemma months_unsorted_iff: "months_unsorted ms \<longleftrightarrow> \<not> sorted_wrt (<) (map pm_month_index ms)"
proof (induction ms rule: months_unsorted.induct)
  case (1 a b ms)
  then show ?case by (force simp: not_le dest: order.strict_trans)
qed simp_all

definition state_ok :: "nat \<Rightarrow> nat \<Rightarrow> persisted_state \<Rightarrow> bool" where
  "state_ok n buckets s \<longleftrightarrow> length (ps_feature_counts s) = n \<and> length (ps_months s) \<le> buckets
     \<and> (\<forall>m \<in> set (ps_months s). length (pm_feature_counts m) = n) \<and> sorted_wrt (<) (map pm_month_index (ps_months s))"

lemma validate_state_Inr: "validate_state s n buckets = Inr u \<longleftrightarrow> state_ok n buckets s"
  by (auto simp: validate_state_def state_ok_def months_unsorted_iff)

text \<open>The pure part of a checkpoint.\<close>

lemma prepare_checkpoint_ok:
  assumes "prepare_checkpoint codecs l g s = Inr (raw, codec, payload, generation)"
  shows "state_ok (length (ul_feature_ids l)) (ul_monthly_buckets l) s \<and> lc_to_vec codecs s = Inr raw
    \<and> length raw \<le> ul_max_raw_payload_bytes l \<and> length payload \<le> ul_max_raw_payload_bytes l
    \<and> (codec = CODEC_RAW \<and> payload = raw \<or> codec = CODEC_ZSTD \<and> lc_compress codecs raw = Inr payload)
    \<and> unat g + 1 < 2 ^ 64 \<and> generation = g + 1"
proof -
  obtain u raw' compressed where c: "validate_state s (length (ul_feature_ids l)) (ul_monthly_buckets l) = Inr u"
      "lc_to_vec codecs s = Inr raw'" "length raw' \<le> ul_max_raw_payload_bytes l" "lc_compress codecs raw' = Inr compressed"
      "(case if length compressed < length raw' then (CODEC_ZSTD, compressed) else (CODEC_RAW, raw') of (codec, payload) \<Rightarrow>
        if length payload > ul_max_raw_payload_bytes l then
          Inl (configuration ''embedded usage ledger encoded state exceeds its fixed slot'')
        else rbind (ok_or (internal ''embedded usage ledger generation exhausted'') (u64_checked_add g 1)) (\<lambda>generation.
          Inr (raw', codec, payload, generation))) = Inr (raw, codec, payload, generation)"
    using assms unfolding prepare_checkpoint_def Let_def rbind_eq_Inr if_Inr map_err_eq_Inr not_less by blast
  define cp where "cp = (if length compressed < length raw' then (CODEC_ZSTD, compressed) else (CODEC_RAW, raw'))"
  obtain c' p' where cp: "cp = (c', p')" by (cases cp)
  have "raw' = raw \<and> c' = codec \<and> p' = payload \<and> length payload \<le> ul_max_raw_payload_bytes l \<and> u64_checked_add g 1 = Some generation"
    using c(5) unfolding cp_def [symmetric] cp prod.case if_Inr rbind_eq_Inr ok_or_eq_Inr by auto
  with c(1-4) cp show ?thesis
    by (auto simp: validate_state_Inr u64_checked_add_eq_Some cp_def split: if_splits)
qed

end
