(* ===== verification/LedgerRecovery.thy ===== *)
theory LedgerRecovery
  imports UsageLedger
begin

text \<open>
  The two-slot file of the usage ledger: a slot as a function of its own bytes, what a checkpoint
  leaves in the file, what recovery returns for it, and the states a crash can leave.
\<close>

section \<open>Slots\<close>

abbreviation no_lfault :: ledger_fault where "no_lfault \<equiv> \<lambda>_. None"

text \<open>The sizes opening fixes: two slots of equal size, each a header and the largest payload.\<close>

definition ledger_geometry :: "usage_ledger \<Rightarrow> bool" where
  "ledger_geometry l \<longleftrightarrow> ul_slot_bytes l = HEADER_BYTES + ul_max_raw_payload_bytes l \<and> 2 * ul_slot_bytes l < 2 ^ 64
     \<and> length (ul_config_fingerprint l) = 32 \<and> \<not> ul_poisoned l"

definition region :: "usage_ledger \<Rightarrow> bytes \<Rightarrow> nat \<Rightarrow> bytes" where
  "region l f k = slice (k * ul_slot_bytes l) (k * ul_slot_bytes l + ul_slot_bytes l) f"

text \<open>A slot as a function of its own bytes.\<close>

definition header_generation :: "ledger_codecs \<Rightarrow> bytes \<Rightarrow> u64 option" where
  "header_generation codecs header =
     (if take 8 header = LEDGER_MAGIC \<and> lc_crc32c codecs (take 64 header) = from_le (slice 64 68 header)
         \<and> from_le (slice 8 10 header) = LEDGER_VERSION
      then Some (from_le (slice 12 20 header)) else None)"

definition read_region :: "ledger_codecs \<Rightarrow> usage_ledger \<Rightarrow> nat \<Rightarrow> bytes \<Rightarrow> slot_read" where
  "read_region codecs l k r =
     (let header = take HEADER_BYTES r; codec = header ! 10;
          payload_len = unat (from_le (slice 20 24 header) :: u32); raw_len = unat (from_le (slice 24 28 header) :: u32);
          payload = slice HEADER_BYTES (HEADER_BYTES + payload_len) r in
      case header_generation codecs header of
        None \<Rightarrow> Invalid
      | Some generation \<Rightarrow>
          if slice 28 60 header \<noteq> ul_config_fingerprint l then OtherConfiguration
          else if codec \<noteq> CODEC_RAW \<and> codec \<noteq> CODEC_ZSTD \<or> payload_len > ul_max_raw_payload_bytes l
            \<or> raw_len > ul_max_raw_payload_bytes l \<or> lc_crc32c codecs payload \<noteq> from_le (slice 60 64 header) then Invalid
          else (case decode_slot_payload codecs codec raw_len payload of
              None \<Rightarrow> Invalid
            | Some raw \<Rightarrow>
                (case from_slice codecs raw of
                   Inl _ \<Rightarrow> Invalid
                 | Inr state \<Rightarrow>
                     if \<not> state_ok (length (ul_feature_ids l)) (ul_monthly_buckets l) state then Invalid
                     else Valid \<lparr>rv_state = state, rv_slot = k, rv_generation = generation,
                       rv_payload_bytes = HEADER_BYTES + payload_len, rv_compressed = (codec = CODEC_ZSTD)\<rparr>)))"

lemma slice_slice: "b \<le> d - c \<Longrightarrow> slice a b (slice c d xs) = slice (c + a) (c + b) xs"
  by (simp add: slice_def drop_take min_def add.commute)

lemma validate_state_ok: "is_ok (validate_state s n b) \<longleftrightarrow> state_ok n b s"
  using validate_state_Inr [of s n b] by (auto simp: is_ok_iff)

lemma read_slot_region:
  assumes g: "ledger_geometry l" and f: "length f = 2 * ul_slot_bytes l" and k: "k < 2"
  shows "read_slot codecs no_lfault f k (ul_slot_bytes l) (ul_max_raw_payload_bytes l) (ul_config_fingerprint l)
      (length (ul_feature_ids l)) (ul_monthly_buckets l) = Inr (read_region codecs l k (region l f k))"
proof -
  let ?s = "ul_slot_bytes l" and ?r = "region l f k"
  have off: "sat64 (?s * k) = k * ?s" "sat64 (k * ?s + HEADER_BYTES) = k * ?s + HEADER_BYTES" "k * ?s + ?s \<le> length f"
    using g f k by (cases k; simp add: ledger_geometry_def sat64_def HEADER_BYTES_def)+
  have at: "read_at no_lfault op f (k * ?s + a) n = Inr (slice a (a + n) ?r)" if "a + n \<le> ?s" for op a n
  proof -
    have "slice a (a + n) ?r = slice (k * ?s + a) (k * ?s + (a + n)) f" using that by (simp add: region_def slice_slice)
    with that off(3) show ?thesis by (simp add: read_at_def lio_def add.assoc)
  qed
  have hd: "read_at no_lfault op f (k * ?s) HEADER_BYTES = Inr (take HEADER_BYTES ?r)" for op
    using at [of 0 HEADER_BYTES op] g by (simp add: ledger_geometry_def slice_zero)
  have pl: "n \<le> ul_max_raw_payload_bytes l \<Longrightarrow>
      read_at no_lfault op f (k * ?s + HEADER_BYTES) n = Inr (slice HEADER_BYTES (HEADER_BYTES + n) ?r)" for op n
    using at [of HEADER_BYTES n op] g by (simp add: ledger_geometry_def)
  define h where "h = take HEADER_BYTES ?r"
  let ?n = "unat (from_le (slice 20 24 h) :: u32)"
  have hd': "read_at no_lfault op f (k * ?s) HEADER_BYTES = Inr h" for op using hd h_def by simp
  note unfold = read_slot_def Let_def off hd' read_region_def header_generation_def rbind.simps h_def [symmetric]
  consider (magic) "take 8 h \<noteq> LEDGER_MAGIC"
    | (crc) "take 8 h = LEDGER_MAGIC" "lc_crc32c codecs (take 64 h) \<noteq> from_le (slice 64 68 h)"
    | (version) "take 8 h = LEDGER_MAGIC" "lc_crc32c codecs (take 64 h) = from_le (slice 64 68 h)" "from_le (slice 8 10 h) \<noteq> LEDGER_VERSION"
    | (ok) "take 8 h = LEDGER_MAGIC" "lc_crc32c codecs (take 64 h) = from_le (slice 64 68 h)" "from_le (slice 8 10 h) = LEDGER_VERSION"
    by blast
  then show ?thesis
  proof cases
    case ok
    consider (other) "slice 28 60 h \<noteq> ul_config_fingerprint l"
      | (codec) "slice 28 60 h = ul_config_fingerprint l" "h ! 10 \<noteq> CODEC_RAW" "h ! 10 \<noteq> CODEC_ZSTD"
      | (long) "slice 28 60 h = ul_config_fingerprint l" "h ! 10 = CODEC_RAW \<or> h ! 10 = CODEC_ZSTD" "?n > ul_max_raw_payload_bytes l"
      | (fits) "slice 28 60 h = ul_config_fingerprint l" "h ! 10 = CODEC_RAW \<or> h ! 10 = CODEC_ZSTD" "?n \<le> ul_max_raw_payload_bytes l"
      by (meson not_le)
    then show ?thesis
    proof cases
      case fits
      have "(h ! 10 \<noteq> CODEC_RAW \<and> h ! 10 \<noteq> CODEC_ZSTD) = False" using fits(2) by blast
      then show ?thesis unfolding unfold using ok fits(1,3) pl [OF fits(3)]
        by (simp add: validate_state_ok split: option.split sum.split) blast
    next
      case long
      have "(h ! 10 \<noteq> CODEC_RAW \<and> h ! 10 \<noteq> CODEC_ZSTD) = False" using long(2) by blast
      then show ?thesis unfolding unfold using ok long(1,3) by simp
    qed (use ok in \<open>simp_all add: unfold\<close>)
  qed (simp_all add: unfold)
qed

section \<open>The documented behaviour of the codecs\<close>

text \<open>The parser returns what was serialised, with the announced sequence lengths; Zstandard restores its input.\<close>

definition raw_seq_of :: "('a \<Rightarrow> 'b) \<Rightarrow> 'a list \<Rightarrow> 'b raw_seq" where
  "raw_seq_of f xs = (Some (length xs), map (\<lambda>x. Inr (f x)) xs)"

definition raw_month_of :: "persisted_month \<Rightarrow> raw_month" where
  "raw_month_of m = \<lparr>rm_month_index = pm_month_index m, rm_feature_counts = raw_seq_of id (pm_feature_counts m),
     rm_active_seconds = pm_active_seconds m, rm_overflow_feature_events = pm_overflow_feature_events m\<rparr>"

definition raw_state_of :: "persisted_state \<Rightarrow> raw_state" where
  "raw_state_of s = \<lparr>rs_feature_counts = raw_seq_of id (ps_feature_counts s), rs_active_seconds = ps_active_seconds s,
     rs_overflow_feature_events = ps_overflow_feature_events s, rs_months = raw_seq_of raw_month_of (ps_months s),
     rs_last_checkpoint = ps_last_checkpoint s\<rparr>"

definition codecs_lossless :: "ledger_codecs \<Rightarrow> bool" where
  "codecs_lossless codecs \<longleftrightarrow>
     (\<forall>s raw. lc_to_vec codecs s = Inr raw \<longrightarrow> lc_parse codecs raw = Inr (raw_state_of s))
     \<and> (\<forall>raw c. lc_compress codecs raw = Inr c \<longrightarrow> lc_decompress codecs c (length raw) = Inr raw)"

lemma visit_elements_ok:
  "length acc + length xs \<le> limit \<Longrightarrow> visit_elements limit expected acc (map Inr xs) = Inr (acc @ xs)"
  by (induction xs arbitrary: acc) auto

lemma visit_seq_ok:
  "length xs \<le> limit \<Longrightarrow> visit_seq limit expected (raw_seq_of id xs) = Inr xs"
  by (simp add: visit_seq_def raw_seq_of_def visit_elements_ok)

lemma visit_elements_bound: "visit_elements limit expected acc es = Inr xs \<Longrightarrow> length acc \<le> limit \<Longrightarrow> length xs \<le> limit"
  by (induction es arbitrary: acc) (auto simp: rbind_eq_Inr split: if_splits)

lemma visit_seq_bound: "visit_seq limit expected s = Inr xs \<Longrightarrow> length xs \<le> limit"
  by (auto simp: visit_seq_def split: prod.splits if_splits dest: visit_elements_bound)

lemma deserialize_month_raw:
  "length (pm_feature_counts m) \<le> MAX_FEATURES \<Longrightarrow> deserialize_month (raw_month_of m) = Inr m"
  by (simp add: deserialize_month_def deserialize_feature_counts_def raw_month_of_def visit_seq_ok)

lemma deserialize_state_raw:
  assumes "state_ok n buckets s" "n \<le> MAX_FEATURES" "buckets \<le> MAX_MONTHLY_BUCKETS"
  shows "deserialize_state (raw_state_of s) = Inr s"
proof -
  have "map (\<lambda>m. deserialize_month (raw_month_of m)) (ps_months s) = map Inr (ps_months s)"
    using assms by (intro map_cong) (auto simp: state_ok_def deserialize_month_raw)
  then have "deserialize_months (raw_seq_of raw_month_of (ps_months s))
      = visit_seq MAX_MONTHLY_BUCKETS ''at most 120 monthly buckets'' (raw_seq_of id (ps_months s))"
    by (simp only: deserialize_months_def raw_seq_of_def prod.case map_map comp_def rbind.simps id_apply)
  with assms show ?thesis
    by (simp add: deserialize_state_def deserialize_feature_counts_def raw_state_of_def state_ok_def visit_seq_ok)
qed

section \<open>Headers and regions\<close>

lemma header_fields:
  assumes "encode_header codecs codec generation payload_len raw_len fingerprint crc = Inr h" "length fingerprint = 32"
  shows "length h = HEADER_BYTES \<and> header_generation codecs h = Some generation \<and> slice 28 60 h = fingerprint
    \<and> h ! 10 = codec \<and> unat (from_le (slice 20 24 h) :: u32) = payload_len \<and> unat (from_le (slice 24 28 h) :: u32) = raw_len
    \<and> from_le (slice 60 64 h) = crc"
proof -
  obtain p r where n: "payload_len = unat p" "raw_len = unat r"
    and h: "h = (LEDGER_MAGIC @ u16_le LEDGER_VERSION @ [codec, 0] @ u64_le generation @ u32_le p
             @ u32_le r @ fingerprint @ u32_le crc) @ u32_le (lc_crc32c codecs (LEDGER_MAGIC @ u16_le LEDGER_VERSION
             @ [codec, 0] @ u64_le generation @ u32_le p @ u32_le r @ fingerprint @ u32_le crc))"
    using assms(1) by (auto simp: encode_header_def Let_def rbind_eq_Inr ok_or_eq_Inr usize_to_u32_Some)
  have m: "length LEDGER_MAGIC = 8" by (simp add: LEDGER_MAGIC_def)
  show ?thesis using assms(2) m
    by (simp add: h n HEADER_BYTES_def header_generation_def slice_def nth_append)
qed

lemma write_at_in: "offset + length bs \<le> length f \<Longrightarrow> write_at offset bs f = take offset f @ bs @ drop (offset + length bs) f"
  by (simp add: write_at_def)

lemma length_write_at: "offset + length bs \<le> length f \<Longrightarrow> length (write_at offset bs f) = length f"
  by (simp add: write_at_in)

lemma slice_write_at_other:
  "offset + length bs \<le> length f \<Longrightarrow> b \<le> offset \<or> offset + length bs \<le> a \<Longrightarrow> slice a b (write_at offset bs f) = slice a b f"
  by (auto simp: write_at_in slice_def drop_take min_def)

lemma slice_write_at_same:
  assumes "a + k + length bs \<le> b" "b \<le> length f"
  shows "slice a b (write_at (a + k) bs f) = write_at k bs (slice a b f)"
proof -
  let ?A = "take a f" and ?M = "slice a b f" and ?C = "drop b f"
  have f: "f = ?A @ ?M @ ?C" using assms by (simp add: slice_drop)
  have len: "length ?A = a" "length ?M = b - a" using assms by auto
  have "write_at (length ?A + k) bs (?A @ ?M @ ?C) = ?A @ write_at k bs ?M @ ?C"
    using assms len by (simp add: write_at_in)
  then have "slice a b (write_at (a + k) bs f) = slice a b (?A @ write_at k bs ?M @ ?C)" using f len(1) by simp
  also have "\<dots> = write_at k bs ?M" using assms len length_write_at [of k bs ?M] by (simp add: slice_def)
  finally show ?thesis .
qed

end
