(* ===== verification/LedgerPersist.thy ===== *)
theory LedgerPersist
  imports LedgerRecovery
begin

text \<open>
  What a checkpoint of the usage ledger leaves in its file, what recovery returns for it, and
  the files an interrupted checkpoint can leave.
\<close>

section \<open>Persisting and recovering\<close>

text \<open>
  What a ledger and its file have in common between updates: the active slot holds the state in
  memory, and the header of the other slot, if it is one at all, is of an older generation.
\<close>

definition other_slot :: "nat \<Rightarrow> nat" where "other_slot k = (k + 1) mod SLOT_COUNT"

definition header_of :: "usage_ledger \<Rightarrow> bytes \<Rightarrow> nat \<Rightarrow> bytes" where
  "header_of l f k = take HEADER_BYTES (region l f k)"

definition slot_holds :: "ledger_codecs \<Rightarrow> usage_ledger \<Rightarrow> bytes \<Rightarrow> nat \<Rightarrow> persisted_state \<Rightarrow> u64 \<Rightarrow> bool" where
  "slot_holds codecs l f k s g \<longleftrightarrow>
     (\<exists>v. read_region codecs l k (region l f k) = Valid v \<and> rv_state v = s \<and> rv_generation v = g \<and> rv_slot v = k)"

definition ledger_shape :: "usage_ledger \<Rightarrow> bool" where
  "ledger_shape l \<longleftrightarrow> ledger_geometry l \<and> length (ul_feature_ids l) \<le> MAX_FEATURES
     \<and> ul_monthly_buckets l \<le> MAX_MONTHLY_BUCKETS \<and> length (li_file (ul_inner l)) = 2 * ul_slot_bytes l
     \<and> li_active_slot (ul_inner l) < 2"

definition ledger_durable :: "ledger_codecs \<Rightarrow> usage_ledger \<Rightarrow> bool" where
  "ledger_durable codecs l \<longleftrightarrow> ledger_shape l
     \<and> (let inner = ul_inner l in
        slot_holds codecs l (li_file inner) (li_active_slot inner) (li_state inner) (li_generation inner)
        \<and> (\<forall>g. header_generation codecs (header_of l (li_file inner) (other_slot (li_active_slot inner))) = Some g
             \<longrightarrow> g < li_generation inner))"

lemma ledger_durable_shape: "ledger_durable codecs l \<Longrightarrow> ledger_shape l"
  by (simp add: ledger_durable_def)

lemma other_slot_simps [simp]: "other_slot 0 = 1" "other_slot 1 = 0" "other_slot (Suc 0) = 0"
  by (simp_all add: other_slot_def SLOT_COUNT_def)

lemma slot_cases: "(k :: nat) < 2 \<Longrightarrow> (k = 0 \<Longrightarrow> P) \<Longrightarrow> (k = 1 \<Longrightarrow> P) \<Longrightarrow> P"
  by linarith

lemma read_region_generation:
  "read_region codecs l k r = Valid v \<Longrightarrow>
     header_generation codecs (take HEADER_BYTES r) = Some (rv_generation v) \<and> rv_slot v = k
     \<and> state_ok (length (ul_feature_ids l)) (ul_monthly_buckets l) (rv_state v)"
  by (auto simp: read_region_def Let_def split: option.splits sum.splits if_splits)

text \<open>Recovery picks the slot with the newest generation.\<close>

lemma ledger_recover_newest:
  assumes g: "ledger_geometry l" and f: "length (li_file (ul_inner l)) = 2 * ul_slot_bytes l" and k: "k < 2"
    and v: "read_region codecs l k (region l (li_file (ul_inner l)) k) = Valid v"
    and stale: "\<And>g. header_generation codecs (header_of l (li_file (ul_inner l)) (other_slot k)) = Some g \<Longrightarrow> g < rv_generation v"
  shows "ledger_recover codecs no_lfault l = Inr v"
proof -
  have old: "rv_generation w < rv_generation v"
    if "read_region codecs l (other_slot k) (region l (li_file (ul_inner l)) (other_slot k)) = Valid w" for w
    using read_region_generation [OF that] stale by (simp add: header_of_def)
  have rd: "recover_slot codecs no_lfault l i (vs, other) =
      (case read_region codecs l i (region l (li_file (ul_inner l)) i) of
         Valid w \<Rightarrow> Inr (vs @ [w], other) | OtherConfiguration \<Rightarrow> Inr (vs, True) | Invalid \<Rightarrow> Inr (vs, other))"
    if "i < 2" for i vs other
    using read_slot_region [OF g f that, of codecs] by (simp add: recover_slot_def)
  have p: "\<not> ul_poisoned l" using g by (simp add: ledger_geometry_def)
  have upt: "[0..<SLOT_COUNT] = [0, 1]" by (simp add: SLOT_COUNT_def upt_rec)
  show ?thesis
  proof (rule slot_cases [OF k])
    assume "k = 0"
    with v old p show ?thesis unfolding ledger_recover_def upt
      by (cases "read_region codecs l 1 (region l (li_file (ul_inner l)) 1)") (auto simp: rd not_le)
  next
    assume "k = 1"
    with v old p show ?thesis unfolding ledger_recover_def upt
      by (cases "read_region codecs l 0 (region l (li_file (ul_inner l)) 0)") (auto simp: rd order.strict_implies_order)
  qed
qed

text \<open>The bytes a successful checkpoint puts into the target slot.\<close>

definition slot_bytes_of :: "ledger_codecs \<Rightarrow> usage_ledger \<Rightarrow> u64 \<Rightarrow> persisted_state \<Rightarrow> bytes \<Rightarrow> bytes \<Rightarrow> bool" where
  "slot_bytes_of codecs l generation s header payload \<longleftrightarrow>
     (\<exists>raw codec. lc_to_vec codecs s = Inr raw \<and> length raw \<le> ul_max_raw_payload_bytes l
       \<and> length payload \<le> ul_max_raw_payload_bytes l
       \<and> (codec = CODEC_RAW \<and> payload = raw \<or> codec = CODEC_ZSTD \<and> lc_compress codecs raw = Inr payload)
       \<and> encode_header codecs codec generation (length payload) (length raw) (ul_config_fingerprint l) (lc_crc32c codecs payload)
           = Inr header)"

lemma lio_no_fault [simp]: "lio no_lfault op = Inr ()"
  by (simp add: lio_def)


section \<open>The file during a checkpoint\<close>

text \<open>
  A checkpoint writes the payload of the inactive slot and then its header.  While the payload is
  being written its area holds arbitrary bytes; while the header is being written its 68 bytes are
  the old ones, the new ones, or a mixture that its checksum rejects.
\<close>

definition target_offset :: "usage_ledger \<Rightarrow> nat" where
  "target_offset l = sat64 (ul_slot_bytes l * other_slot (li_active_slot (ul_inner l)))"

definition payload_written :: "usage_ledger \<Rightarrow> bytes \<Rightarrow> bytes" where
  "payload_written l bs = write_at (sat64 (target_offset l + HEADER_BYTES)) bs (li_file (ul_inner l))"

definition header_written :: "usage_ledger \<Rightarrow> bytes \<Rightarrow> bytes \<Rightarrow> bytes" where
  "header_written l payload bs = write_at (target_offset l) bs (payload_written l payload)"

definition stale_header :: "usage_ledger \<Rightarrow> bytes" where
  "stale_header l = header_of l (li_file (ul_inner l)) (other_slot (li_active_slot (ul_inner l)))"

definition header_torn :: "ledger_codecs \<Rightarrow> usage_ledger \<Rightarrow> bytes \<Rightarrow> bytes \<Rightarrow> bool" where
  "header_torn codecs l h h' \<longleftrightarrow>
     length h' = HEADER_BYTES \<and> (h' = stale_header l \<or> h' = h \<or> header_generation codecs h' = None)"

inductive crash_image :: "ledger_codecs \<Rightarrow> usage_ledger \<Rightarrow> persisted_state \<Rightarrow> bytes \<Rightarrow> bool"
  for codecs l s where
  untouched: "crash_image codecs l s (li_file (ul_inner l))"
| payload: "length junk \<le> ul_max_raw_payload_bytes l \<Longrightarrow> crash_image codecs l s (payload_written l junk)"
| header: "prepare_checkpoint codecs l (li_generation (ul_inner l)) s = Inr (raw, codec, payload, g) \<Longrightarrow>
    encode_header codecs codec g (length payload) (length raw) (ul_config_fingerprint l) (lc_crc32c codecs payload) = Inr h \<Longrightarrow>
    header_torn codecs l h h' \<Longrightarrow> crash_image codecs l s (header_written l payload h')"

lemma target_offset_simp:
  assumes "ledger_geometry l" "li_active_slot (ul_inner l) < 2"
  shows "target_offset l = other_slot (li_active_slot (ul_inner l)) * ul_slot_bytes l"
    "sat64 (target_offset l + HEADER_BYTES) = other_slot (li_active_slot (ul_inner l)) * ul_slot_bytes l + HEADER_BYTES"
proof -
  have "other_slot (li_active_slot (ul_inner l)) = 0 \<or> other_slot (li_active_slot (ul_inner l)) = 1"
    using assms(2) by (auto elim: slot_cases)
  with assms(1) show "target_offset l = other_slot (li_active_slot (ul_inner l)) * ul_slot_bytes l"
    "sat64 (target_offset l + HEADER_BYTES) = other_slot (li_active_slot (ul_inner l)) * ul_slot_bytes l + HEADER_BYTES"
    by (auto simp: ledger_geometry_def target_offset_def sat64_def)
qed

lemma region_write_at:
  assumes "length f = 2 * ul_slot_bytes l" "k < 2" "a + length bs \<le> ul_slot_bytes l"
  shows "length (write_at (other_slot k * ul_slot_bytes l + a) bs f) = 2 * ul_slot_bytes l"
    "region l (write_at (other_slot k * ul_slot_bytes l + a) bs f) k = region l f k"
    "region l (write_at (other_slot k * ul_slot_bytes l + a) bs f) (other_slot k) = write_at a bs (region l f (other_slot k))"
proof -
  have k: "k = 0 \<or> k = 1" using assms(2) by auto
  with assms show "length (write_at (other_slot k * ul_slot_bytes l + a) bs f) = 2 * ul_slot_bytes l"
    by (auto simp: length_write_at)
  show "region l (write_at (other_slot k * ul_slot_bytes l + a) bs f) k = region l f k"
    unfolding region_def using k assms by (intro slice_write_at_other) auto
  show "region l (write_at (other_slot k * ul_slot_bytes l + a) bs f) (other_slot k) = write_at a bs (region l f (other_slot k))"
    unfolding region_def using k assms by (intro slice_write_at_same) auto
qed

lemma length_region: "length f = 2 * ul_slot_bytes l \<Longrightarrow> k < 2 \<Longrightarrow> length (region l f k) = ul_slot_bytes l"
  by (erule slot_cases) (simp_all add: region_def)

definition with_file :: "usage_ledger \<Rightarrow> bytes \<Rightarrow> usage_ledger" where
  "with_file l f = l\<lparr>ul_inner := (ul_inner l)\<lparr>li_file := f\<rparr>\<rparr>"

lemma with_file_simps [simp]:
  "li_file (ul_inner (with_file l f)) = f" "ledger_geometry (with_file l f) = ledger_geometry l"
  "region (with_file l f) = region l" "header_of (with_file l f) = header_of l" "ul_slot_bytes (with_file l f) = ul_slot_bytes l"
  "ul_feature_ids (with_file l f) = ul_feature_ids l" "ul_monthly_buckets (with_file l f) = ul_monthly_buckets l"
  "ul_config_fingerprint (with_file l f) = ul_config_fingerprint l"
  "ul_max_raw_payload_bytes (with_file l f) = ul_max_raw_payload_bytes l"
  by (simp_all add: with_file_def ledger_geometry_def region_def header_of_def fun_eq_iff)

lemma read_region_cong:
  assumes "ul_feature_ids l = ul_feature_ids l'" "ul_monthly_buckets l = ul_monthly_buckets l'"
    "ul_config_fingerprint l = ul_config_fingerprint l'" "ul_max_raw_payload_bytes l = ul_max_raw_payload_bytes l'"
  shows "read_region codecs l = read_region codecs l'"
  by (intro ext) (simp only: read_region_def assms)

lemma read_region_with_file [simp]: "read_region codecs (with_file l f) = read_region codecs l"
  by (rule read_region_cong) simp_all

lemma with_file_same [simp]: "with_file (l\<lparr>ul_inner := inner\<rparr>) (li_file inner) = l\<lparr>ul_inner := inner\<rparr>"
  by (simp add: with_file_def)

lemma payload_regions:
  assumes d: "ledger_shape l" and n: "length junk \<le> ul_max_raw_payload_bytes l"
  defines "k \<equiv> li_active_slot (ul_inner l)" and "f \<equiv> payload_written l junk"
  shows "length f = 2 * ul_slot_bytes l" "region l f k = region l (li_file (ul_inner l)) k"
    "region l f (other_slot k) = write_at HEADER_BYTES junk (region l (li_file (ul_inner l)) (other_slot k))"
    "header_of l f (other_slot k) = stale_header l"
proof -
  have g: "ledger_geometry l" "k < 2" "length (li_file (ul_inner l)) = 2 * ul_slot_bytes l"
    using d by (auto simp: ledger_shape_def k_def)
  have n': "HEADER_BYTES + length junk \<le> ul_slot_bytes l" using g n by (simp add: ledger_geometry_def)
  have o2: "other_slot k < 2" using g(2) by (auto elim: slot_cases)
  note eqs = region_write_at [OF g(3) g(2) n']
  have f: "f = write_at (other_slot k * ul_slot_bytes l + HEADER_BYTES) junk (li_file (ul_inner l))"
    using target_offset_simp [OF g(1)] g(2) by (simp add: f_def payload_written_def k_def)
  show "length f = 2 * ul_slot_bytes l" "region l f k = region l (li_file (ul_inner l)) k"
    and r: "region l f (other_slot k) = write_at HEADER_BYTES junk (region l (li_file (ul_inner l)) (other_slot k))"
    using eqs by (simp_all add: f)
  show "header_of l f (other_slot k) = stale_header l"
    using n' length_region [OF g(3) o2] by (simp add: header_of_def stale_header_def r k_def [symmetric] write_at_in)
qed

lemma header_regions:
  assumes d: "ledger_shape l" and n: "length payload \<le> ul_max_raw_payload_bytes l" and h: "length h = HEADER_BYTES"
  defines "k \<equiv> li_active_slot (ul_inner l)" and "f \<equiv> header_written l payload h"
  shows "length f = 2 * ul_slot_bytes l" "region l f k = region l (li_file (ul_inner l)) k"
    "header_of l f (other_slot k) = h"
    "slice HEADER_BYTES (HEADER_BYTES + length payload) (region l f (other_slot k)) = payload"
proof -
  note p = payload_regions [OF d n, folded k_def]
  have g: "ledger_geometry l" "k < 2" "length (li_file (ul_inner l)) = 2 * ul_slot_bytes l"
    using d by (auto simp: ledger_shape_def k_def)
  have n': "0 + length h \<le> ul_slot_bytes l" "HEADER_BYTES + length payload \<le> ul_slot_bytes l"
    using g n h by (simp_all add: ledger_geometry_def)
  have o2: "other_slot k < 2" using g(2) by (auto elim: slot_cases)
  note eqs = region_write_at [OF p(1) g(2) n'(1)]
  have f: "f = write_at (other_slot k * ul_slot_bytes l + 0) h (payload_written l payload)"
    using target_offset_simp [OF g(1)] g(2) by (simp add: f_def header_written_def k_def)
  have len: "length (region l (li_file (ul_inner l)) (other_slot k)) = ul_slot_bytes l" by (rule length_region [OF g(3) o2])
  have r: "region l f (other_slot k) = h @ payload @ drop (HEADER_BYTES + length payload) (region l (li_file (ul_inner l)) (other_slot k))"
    using n' len h by (simp add: f eqs(3) [simplified] p(3) write_at_in)
  show "length f = 2 * ul_slot_bytes l" "region l f k = region l (li_file (ul_inner l)) k"
    using eqs p by (simp_all add: f)
  show "header_of l f (other_slot k) = h" using h by (simp add: header_of_def r)
  show "slice HEADER_BYTES (HEADER_BYTES + length payload) (region l f (other_slot k)) = payload"
    using h by (simp add: r slice_def)
qed

text \<open>A slot whose header and payload are those of a checkpoint is read back as its state.\<close>

lemma read_region_checkpoint:
  assumes p: "prepare_checkpoint codecs l g s = Inr (raw, codec, payload, generation)"
    and e: "encode_header codecs codec generation (length payload) (length raw) (ul_config_fingerprint l) (lc_crc32c codecs payload) = Inr h"
    and c: "codecs_lossless codecs" and g: "ledger_geometry l"
    and small: "length (ul_feature_ids l) \<le> MAX_FEATURES" "ul_monthly_buckets l \<le> MAX_MONTHLY_BUCKETS"
    and r: "take HEADER_BYTES r = h" "slice HEADER_BYTES (HEADER_BYTES + length payload) r = payload"
  shows "read_region codecs l k r = Valid \<lparr>rv_state = s, rv_slot = k, rv_generation = g + 1,
    rv_payload_bytes = HEADER_BYTES + length payload, rv_compressed = (codec = CODEC_ZSTD)\<rparr>"
proof -
  note ok = prepare_checkpoint_ok [OF p]
  have fp: "length (ul_config_fingerprint l) = 32" using g by (simp add: ledger_geometry_def)
  note hf = header_fields [OF e fp]
  have "decode_slot_payload codecs codec (length raw) payload = Some raw"
    using ok c by (auto simp: decode_slot_payload_def codecs_lossless_def CODEC_RAW_def CODEC_ZSTD_def)
  moreover have "from_slice codecs raw = Inr s"
    using ok c deserialize_state_raw [of _ _ s] small by (auto simp: from_slice_def codecs_lossless_def)
  ultimately show ?thesis using ok hf by (auto simp: read_region_def Let_def r)
qed

lemma other_slot_other [simp]: "k < 2 \<Longrightarrow> other_slot (other_slot k) = k \<and> other_slot k < 2"
  by (erule slot_cases) simp_all

text \<open>Recovery of a file whose active slot is intact and whose other header is stale or broken.\<close>

lemma recover_active:
  assumes d: "ledger_durable codecs l" and f: "length f = 2 * ul_slot_bytes l"
    and same: "region l f (li_active_slot (ul_inner l)) = region l (li_file (ul_inner l)) (li_active_slot (ul_inner l))"
    and h: "header_of l f (other_slot (li_active_slot (ul_inner l))) = stale_header l
      \<or> header_generation codecs (header_of l f (other_slot (li_active_slot (ul_inner l)))) = None"
  shows "\<exists>v. ledger_recover codecs no_lfault (with_file l f) = Inr v \<and> rv_state v = li_state (ul_inner l)
    \<and> rv_generation v = li_generation (ul_inner l) \<and> rv_slot v = li_active_slot (ul_inner l)"
proof -
  obtain v where v: "read_region codecs l (li_active_slot (ul_inner l)) (region l f (li_active_slot (ul_inner l))) = Valid v"
      "rv_state v = li_state (ul_inner l)" "rv_generation v = li_generation (ul_inner l)" "rv_slot v = li_active_slot (ul_inner l)"
    using d same by (auto simp: ledger_durable_def Let_def slot_holds_def)
  have "ledger_recover codecs no_lfault (with_file l f) = Inr v"
  proof (rule ledger_recover_newest)
    show "ledger_geometry (with_file l f)" "li_active_slot (ul_inner l) < 2"
      using d by (simp_all add: ledger_durable_def ledger_shape_def)
    show "g < rv_generation v" if "header_generation codecs (header_of (with_file l f)
        (li_file (ul_inner (with_file l f))) (other_slot (li_active_slot (ul_inner l)))) = Some g" for g
      using that h d v(3) by (auto simp: ledger_durable_def Let_def stale_header_def)
  qed (use f v(1) in simp_all)
  with v show ?thesis by blast
qed

lemma recover_checkpoint:
  assumes d: "ledger_shape l" and c: "codecs_lossless codecs"
    and stale: "\<And>g. header_generation codecs (header_of l (li_file (ul_inner l)) (li_active_slot (ul_inner l))) = Some g
      \<Longrightarrow> g \<le> li_generation (ul_inner l)"
    and p: "prepare_checkpoint codecs l (li_generation (ul_inner l)) s = Inr (raw, codec, payload, g)"
    and e: "encode_header codecs codec g (length payload) (length raw) (ul_config_fingerprint l) (lc_crc32c codecs payload) = Inr h"
  defines "f \<equiv> header_written l payload h" and "k \<equiv> other_slot (li_active_slot (ul_inner l))"
  shows "length f = 2 * ul_slot_bytes l"
    "\<exists>v. read_region codecs l k (region l f k) = Valid v \<and> rv_state v = s \<and> rv_slot v = k
       \<and> rv_generation v = li_generation (ul_inner l) + 1 \<and> ledger_recover codecs no_lfault (with_file l f) = Inr v"
    "header_generation codecs (header_of l f (other_slot k)) = Some g' \<Longrightarrow> g' < li_generation (ul_inner l) + 1"
proof -
  note ok = prepare_checkpoint_ok [OF p]
  have g: "ledger_geometry l" "li_active_slot (ul_inner l) < 2" "length (ul_feature_ids l) \<le> MAX_FEATURES"
      "ul_monthly_buckets l \<le> MAX_MONTHLY_BUCKETS"
    using d by (auto simp: ledger_shape_def)
  have hl: "length h = HEADER_BYTES" using header_fields [OF e] g(1) by (simp add: ledger_geometry_def)
  have n: "length payload \<le> ul_max_raw_payload_bytes l" using ok by simp
  note r = header_regions [OF d n hl, folded f_def k_def]
  note v = read_region_checkpoint [OF p e c g(1,3,4) r(3) [unfolded header_of_def] r(4), of k]
  show len: "length f = 2 * ul_slot_bytes l" by (rule r(1))
  have ok': "other_slot k = li_active_slot (ul_inner l)" using g(2) by (simp add: k_def)
  have lt: "li_generation (ul_inner l) < li_generation (ul_inner l) + 1"
    using ok by (simp add: word_less_nat_alt unat_word_ariths)
  show old: "g' < li_generation (ul_inner l) + 1"
    if "header_generation codecs (header_of l f (other_slot k)) = Some g'" for g'
    using that stale [of g'] lt unfolding ok' header_of_def r(2) by simp
  show "\<exists>v. read_region codecs l k (region l f k) = Valid v \<and> rv_state v = s \<and> rv_slot v = k
       \<and> rv_generation v = li_generation (ul_inner l) + 1 \<and> ledger_recover codecs no_lfault (with_file l f) = Inr v"
  proof (intro exI conjI)
    show "ledger_recover codecs no_lfault (with_file l f) = Inr \<lparr>rv_state = s, rv_slot = k, rv_generation = li_generation (ul_inner l) + 1,
        rv_payload_bytes = HEADER_BYTES + length payload, rv_compressed = (codec = CODEC_ZSTD)\<rparr>"
      using v g len old by (intro ledger_recover_newest [of _ k]) (simp_all add: k_def)
  qed (use v in simp_all)
qed

lemma active_generation:
  "ledger_durable codecs l \<Longrightarrow>
     header_generation codecs (header_of l (li_file (ul_inner l)) (li_active_slot (ul_inner l))) = Some (li_generation (ul_inner l))"
  unfolding header_of_def using read_region_generation [of codecs l]
  by (auto simp: ledger_durable_def Let_def slot_holds_def)

text \<open>
  A header write that stops after some of its bytes leaves the rest of the old header behind.  That
  the header's CRC-32C tells such a mixture from a header is a property of the bytes at hand.
\<close>

definition torn_header_rejected :: "ledger_codecs \<Rightarrow> usage_ledger \<Rightarrow> persisted_state \<Rightarrow> nat \<Rightarrow> bool" where
  "torn_header_rejected codecs l s partial \<longleftrightarrow>
     (\<forall>raw codec payload g h. prepare_checkpoint codecs l (li_generation (ul_inner l)) s = Inr (raw, codec, payload, g)
        \<longrightarrow> encode_header codecs codec g (length payload) (length raw) (ul_config_fingerprint l) (lc_crc32c codecs payload) = Inr h
        \<longrightarrow> header_torn codecs l h (take partial h @ drop partial (stale_header l)))"

lemma write_at_rest: "offset + n \<le> length f \<Longrightarrow> length bs \<le> n \<Longrightarrow>
    write_at offset bs f = write_at offset (bs @ slice (offset + length bs) (offset + n) f) f"
  by (simp add: write_at_in slice_drop add.assoc [symmetric])

lemma header_partly_written:
  assumes d: "ledger_shape l" and n: "length payload \<le> ul_max_raw_payload_bytes l" and h: "length h = HEADER_BYTES"
  shows "header_written l payload (take m h) = header_written l payload (take m h @ drop m (stale_header l))"
proof -
  let ?k = "other_slot (li_active_slot (ul_inner l))" and ?f = "payload_written l payload"
  have g: "ledger_geometry l" "li_active_slot (ul_inner l) < 2" using d by (auto simp: ledger_shape_def)
  note o = target_offset_simp(1) [OF g]
  have fit: "target_offset l + HEADER_BYTES \<le> length ?f" "HEADER_BYTES \<le> ul_slot_bytes l"
    using payload_regions(1) [OF d n] g by (auto simp: o ledger_geometry_def elim!: slot_cases)
  have "stale_header l = slice (target_offset l) (target_offset l + HEADER_BYTES) ?f"
    using payload_regions(4) [OF d n] fit(2)
    by (simp add: header_of_def region_def o slice_zero [symmetric] slice_slice)
  then have "drop m (stale_header l) = slice (target_offset l + length (take m h)) (target_offset l + HEADER_BYTES) ?f"
    using h fit(1) by (cases "m \<le> HEADER_BYTES") (simp_all add: slice_def drop_take add.commute min_def)
  with write_at_rest [OF fit(1), of "take m h"] h show ?thesis by (simp add: header_written_def)
qed

text \<open>Every outcome of a checkpoint, with any fault at any of its four writes and syncs.\<close>

lemma persist_outcome:
  assumes d: "ledger_shape l" and t: "torn_header_rejected codecs l s partial"
    and run: "persist_locked codecs fault partial l (ul_inner l) s = (r, inner)"
  shows "crash_image codecs l s (li_file inner)
    \<and> (\<forall>e. r = Inl e \<longrightarrow> inner = (ul_inner l)\<lparr>li_file := li_file inner\<rparr>)
    \<and> (r = Inr () \<longrightarrow> li_state inner = s \<and> li_generation inner = li_generation (ul_inner l) + 1
        \<and> li_active_slot inner = other_slot (li_active_slot (ul_inner l))
        \<and> (\<exists>raw codec payload g h. prepare_checkpoint codecs l (li_generation (ul_inner l)) s = Inr (raw, codec, payload, g)
            \<and> encode_header codecs codec g (length payload) (length raw) (ul_config_fingerprint l) (lc_crc32c codecs payload) = Inr h
            \<and> li_file inner = header_written l payload h))"
proof (cases "prepare_checkpoint codecs l (li_generation (ul_inner l)) s")
  case (Inl e)
  with run show ?thesis by (auto simp: persist_locked_def intro: crash_image.untouched)
next
  case (Inr q)
  obtain raw codec payload g where q: "q = (raw, codec, payload, g)" by (cases q)
  note p = Inr [unfolded q]
  note ok = prepare_checkpoint_ok [OF p]
  have junk: "crash_image codecs l s (payload_written l (take n payload))" for n
    using ok by (intro crash_image.payload) auto
  note run' = run [unfolded persist_locked_def p Let_def sum.case prod.case, folded other_slot_def, folded target_offset_def]
  let ?h = "encode_header codecs codec g (length payload) (length raw) (ul_config_fingerprint l) (lc_crc32c codecs payload)"
  show ?thesis
  proof (cases "lio fault ''write payload''")
    case (Inl e)
    with run' junk [of partial] show ?thesis by (auto simp: payload_written_def)
  next
    case (Inr u)
    note run1 = run' [unfolded Inr sum.case]
    show ?thesis
    proof (cases "rbind (lio fault ''sync payload'') (\<lambda>_. ?h)")
      case (Inl e)
      with run1 junk [of "length payload"] show ?thesis by (auto simp: payload_written_def)
    next
      case (Inr h)
      then have e: "?h = Inr h" by (auto simp: rbind_eq_Inr)
      have len: "length h = HEADER_BYTES"
        using header_fields [OF e] d by (simp add: ledger_shape_def ledger_geometry_def)
      have part: "crash_image codecs l s (header_written l payload (take partial h))"
        unfolding header_partly_written [OF d conjunct1 [OF conjunct2 [OF conjunct2 [OF conjunct2 [OF ok]]]] len]
        using t p e by (intro crash_image.header [OF p e]) (simp add: torn_header_rejected_def)
      have full: "crash_image codecs l s (header_written l payload h)"
        by (rule crash_image.header [OF p e]) (simp add: header_torn_def len)
      note run2 = run1 [unfolded Inr sum.case]
      show ?thesis
      proof (cases "lio fault ''write header''")
        case (Inl e')
        with run2 part show ?thesis by (auto simp: payload_written_def header_written_def)
      next
        case (Inr u)
        note run3 = run2 [unfolded Inr sum.case]
        show ?thesis
        proof (cases "lio fault ''sync header''")
          case (Inl e')
          with run3 full show ?thesis by (auto simp: payload_written_def header_written_def)
        next
          case (Inr u)
          with run3 full p e ok show ?thesis by (auto simp: payload_written_def header_written_def)
        qed
      qed
    qed
  qed
qed

lemma shape_inner:
  "ledger_shape (l\<lparr>ul_inner := inner\<rparr>) \<longleftrightarrow> ledger_geometry l \<and> length (ul_feature_ids l) \<le> MAX_FEATURES
     \<and> ul_monthly_buckets l \<le> MAX_MONTHLY_BUCKETS \<and> length (li_file inner) = 2 * ul_slot_bytes l \<and> li_active_slot inner < 2"
  by (simp add: ledger_shape_def ledger_geometry_def)

lemma slot_holds_inner [simp]:
  "slot_holds codecs (l\<lparr>ul_inner := inner\<rparr>) = slot_holds codecs l" "header_of (l\<lparr>ul_inner := inner\<rparr>) = header_of l"
proof -
  have "read_region codecs (l\<lparr>ul_inner := inner\<rparr>) = read_region codecs l" "region (l\<lparr>ul_inner := inner\<rparr>) = region l"
    by (rule read_region_cong; simp) (simp add: region_def fun_eq_iff)
  then show "slot_holds codecs (l\<lparr>ul_inner := inner\<rparr>) = slot_holds codecs l" "header_of (l\<lparr>ul_inner := inner\<rparr>) = header_of l"
    by (simp_all add: slot_holds_def header_of_def fun_eq_iff)
qed

text \<open>A checkpoint that succeeds leaves a durable ledger.\<close>

lemma persist_durable:
  assumes d: "ledger_shape l" and c: "codecs_lossless codecs"
    and stale: "\<And>g. header_generation codecs (header_of l (li_file (ul_inner l)) (li_active_slot (ul_inner l))) = Some g
      \<Longrightarrow> g \<le> li_generation (ul_inner l)"
    and t: "torn_header_rejected codecs l s partial"
    and run: "persist_locked codecs fault partial l (ul_inner l) s = (Inr (), inner)"
  shows "ledger_durable codecs (l\<lparr>ul_inner := inner\<rparr>) \<and> li_state inner = s \<and> li_generation inner = li_generation (ul_inner l) + 1
    \<and> (\<exists>v. ledger_recover codecs no_lfault (l\<lparr>ul_inner := inner\<rparr>) = Inr v \<and> rv_state v = s
        \<and> rv_generation v = li_generation inner \<and> rv_slot v = li_active_slot inner)"
proof -
  obtain raw codec payload g h where o: "li_state inner = s" "li_generation inner = li_generation (ul_inner l) + 1"
      "li_active_slot inner = other_slot (li_active_slot (ul_inner l))"
      "prepare_checkpoint codecs l (li_generation (ul_inner l)) s = Inr (raw, codec, payload, g)"
      "encode_header codecs codec g (length payload) (length raw) (ul_config_fingerprint l) (lc_crc32c codecs payload) = Inr h"
      "li_file inner = header_written l payload h"
    using persist_outcome [OF d t run] by auto
  note r = recover_checkpoint [OF d c stale o(4,5), folded o(6), folded o(3)]
  have sh: "ledger_shape (l\<lparr>ul_inner := inner\<rparr>)" using d r(1) o(3) by (simp add: shape_inner) (simp add: ledger_shape_def)
  obtain v where v: "read_region codecs l (li_active_slot inner) (region l (li_file inner) (li_active_slot inner)) = Valid v"
      "rv_state v = s" "rv_slot v = li_active_slot inner" "rv_generation v = li_generation inner"
    using r(2) o(2) by auto
  have dur: "ledger_durable codecs (l\<lparr>ul_inner := inner\<rparr>)"
    using sh v r(3) o(1,2) by (auto simp: ledger_durable_def Let_def slot_holds_def [of codecs l])
  from recover_active [OF dur, of "li_file inner"] dur o v
  have "\<exists>v. ledger_recover codecs no_lfault (l\<lparr>ul_inner := inner\<rparr>) = Inr v \<and> rv_state v = s
        \<and> rv_generation v = li_generation inner \<and> rv_slot v = li_active_slot inner"
    unfolding with_file_same by (auto simp: stale_header_def ledger_durable_def ledger_shape_def)
  with dur o(1,2) show ?thesis by simp
qed

end
