(* ===== verification/LedgerAccounting.thy ===== *)
theory LedgerAccounting
  imports UsageLedger
begin

text \<open>
  What an update of the usage ledger adds to the totals and to the month it falls into: the
  counters of the model are 64-bit words, the sums below are over natural numbers, so each
  equation also says that nothing wrapped around.
\<close>

section \<open>The registry\<close>

lemma map_of_feature_indexes:
  assumes "distinct ids"
  shows "map_of (feature_indexes ids) f = Some i \<longleftrightarrow> i < length ids \<and> ids ! i = f"
  using assms
proof (induction ids rule: rev_induct)
  case (snoc x ids)
  have "map_of (feature_indexes (ids @ [x])) = (map_of (feature_indexes ids))(x \<mapsto> length ids)"
    by (simp add: feature_indexes_def enumerate_append_eq)
  with snoc show ?case by (auto simp: nth_append less_Suc_eq)
qed (simp add: feature_indexes_def)

lemma map_of_feature_indexes_None:
  "distinct ids \<Longrightarrow> map_of (feature_indexes ids) f = None \<longleftrightarrow> f \<notin> set ids"
  using map_of_feature_indexes [of ids f] by (metis in_set_conv_nth not_None_eq)

definition ledger_wf :: "usage_ledger \<Rightarrow> bool" where
  "ledger_wf l \<longleftrightarrow> ul_feature_indexes l = feature_indexes (ul_feature_ids l) \<and> distinct (ul_feature_ids l)
     \<and> (\<forall>f \<in> set (ul_feature_ids l). length f \<le> MAX_FEATURE_ID_BYTES)
     \<and> state_ok (length (ul_feature_ids l)) (ul_monthly_buckets l) (li_state (ul_inner l))"

text \<open>What a batch asks for: the events of a registered feature, and those of all unregistered ones.\<close>

definition usage_of :: "(bytes \<times> u64) list \<Rightarrow> bytes \<Rightarrow> nat" where
  "usage_of updates f = sum_list (map (\<lambda>u. if fst u = f then unat (snd u) else 0) updates)"

definition unknown_of :: "bytes list \<Rightarrow> (bytes \<times> u64) list \<Rightarrow> nat" where
  "unknown_of ids updates = sum_list (map (\<lambda>u. if fst u \<in> set ids then 0 else unat (snd u)) updates)"

lemma usage_of_simps [simp]:
  "usage_of [] f = 0" "usage_of (u # us) f = (if fst u = f then unat (snd u) else 0) + usage_of us f"
  "unknown_of ids [] = 0" "unknown_of ids (u # us) = (if fst u \<in> set ids then 0 else unat (snd u)) + unknown_of ids us"
  by (simp_all add: usage_of_def unknown_of_def)

lemma checked_add_Inr: "checked_add a b = Inr c \<longleftrightarrow> unat a + unat b < 2 ^ 64 \<and> c = a + b"
  by (simp add: checked_add_def ok_or_eq_Inr u64_checked_add_eq_Some)

lemma checked_add_unat: "checked_add a b = Inr c \<Longrightarrow> unat c = unat a + unat b"
  by (auto simp: checked_add_def ok_or_eq_Inr dest: u64_checked_add_Some)

text \<open>One feature update of a batch.\<close>

lemma accumulate_feature_ok:
  assumes wf: "ledger_wf l" and n: "length incs = length (ul_feature_ids l)"
    and run: "accumulate_feature l (f, v) (incs, ov, c) = Inr (incs', ov', c')"
  shows "c' = c + 1 \<and> c' \<le> MAX_FEATURE_UPDATES_PER_BATCH \<and> length incs' = length incs
    \<and> (\<forall>i < length incs. unat (incs' ! i) = unat (incs ! i) + (if f = ul_feature_ids l ! i then unat v else 0))
    \<and> unat ov' = unat ov + (if f \<in> set (ul_feature_ids l) then 0 else unat v)
    \<and> (ul_policy l = Reject \<longrightarrow> v \<noteq> 0 \<longrightarrow> f \<in> set (ul_feature_ids l))"
proof -
  let ?ids = "ul_feature_ids l"
  have wf': "distinct ?ids" "ul_feature_indexes l = feature_indexes ?ids" "\<And>f. f \<in> set ?ids \<Longrightarrow> length f \<le> MAX_FEATURE_ID_BYTES"
    using wf by (auto simp: ledger_wf_def)
  note run' = run [unfolded accumulate_feature_def Let_def prod.case]
  have c: "\<not> c + 1 > MAX_FEATURE_UPDATES_PER_BATCH" using run' unfolding if_Inr by (rule conjunct1)
  note run1 = run' [unfolded if_not_P [OF c]]
  consider (zero) "v = 0" | (long) "v \<noteq> 0" "length f > MAX_FEATURE_ID_BYTES"
    | (known) i where "v \<noteq> 0" "\<not> length f > MAX_FEATURE_ID_BYTES" "map_of (feature_indexes ?ids) f = Some i"
    | (unknown) "v \<noteq> 0" "\<not> length f > MAX_FEATURE_ID_BYTES" "map_of (feature_indexes ?ids) f = None"
    by fastforce
  then show ?thesis
  proof cases
    case zero
    with run1 c show ?thesis by simp
  next
    case long
    then have "f \<notin> set ?ids" using wf'(3) by fastforce
    moreover from this have "\<And>i. i < length incs \<Longrightarrow> f \<noteq> ?ids ! i" using n by auto
    ultimately show ?thesis using long run1 c
      by (auto simp: rbind_eq_Inr map_err_eq_Inr dest: checked_add_unat split: unknown_feature_policy.splits)
  next
    case known
    then have i: "i < length ?ids" "?ids ! i = f" using map_of_feature_indexes [OF wf'(1)] by auto
    then have "f \<in> set ?ids" and "\<And>j. j < length incs \<Longrightarrow> f = ?ids ! j \<longleftrightarrow> j = i"
      using n wf'(1) by (auto simp: nth_eq_iff_index_eq)
    with known i n run1 c show ?thesis
      by (auto simp: rbind_eq_Inr map_err_eq_Inr wf'(2) nth_list_update dest: checked_add_unat)
  next
    case unknown
    then have "f \<notin> set ?ids" using map_of_feature_indexes_None [OF wf'(1)] by simp
    moreover from this have "\<And>i. i < length incs \<Longrightarrow> f \<noteq> ?ids ! i" using n by auto
    ultimately show ?thesis using unknown run1 c
      by (auto simp: wf'(2) rbind_eq_Inr map_err_eq_Inr dest: checked_add_unat split: unknown_feature_policy.splits)
  qed
qed

lemma accumulate_ok:
  assumes wf: "ledger_wf l" and n: "length incs = length (ul_feature_ids l)"
    and run: "rfold (accumulate_feature l) updates (incs, ov, c) = Inr (incs', ov', c')"
  shows "c' = c + length updates \<and> length incs' = length incs
    \<and> (\<forall>i < length incs. unat (incs' ! i) = unat (incs ! i) + usage_of updates (ul_feature_ids l ! i))
    \<and> unat ov' = unat ov + unknown_of (ul_feature_ids l) updates
    \<and> (ul_policy l = Reject \<longrightarrow> (\<forall>u \<in> set updates. snd u \<noteq> 0 \<longrightarrow> fst u \<in> set (ul_feature_ids l)))
    \<and> (updates \<noteq> [] \<longrightarrow> c' \<le> MAX_FEATURE_UPDATES_PER_BATCH)"
  using n run
proof (induction updates arbitrary: incs ov c)
  case (Cons u us)
  obtain f v where u: "u = (f, v)" by (cases u)
  obtain incs1 ov1 c1 where s: "accumulate_feature l (f, v) (incs, ov, c) = Inr (incs1, ov1, c1)"
      "rfold (accumulate_feature l) us (incs1, ov1, c1) = Inr (incs', ov', c')"
    using Cons.prems(2) by (auto simp: rbind_eq_Inr u)
  note a = accumulate_feature_ok [OF wf Cons.prems(1) s(1)]
  have n1: "length incs1 = length (ul_feature_ids l)" using a Cons.prems(1) by simp
  note b = Cons.IH [OF n1 s(2)]
  have "\<forall>i < length incs. unat (incs' ! i) = unat (incs ! i) + usage_of (u # us) (ul_feature_ids l ! i)"
    using a b by (auto simp: u)
  moreover have "c' = c + length (u # us) \<and> c' \<le> MAX_FEATURE_UPDATES_PER_BATCH"
    using a b by (cases "us = []") auto
  ultimately show ?case using a b by (auto simp: u)
qed simp

section \<open>Staging an update\<close>

text \<open>The counters of one list after adding those of another, position by position.\<close>

definition counts_added :: "u64 list \<Rightarrow> u64 list \<Rightarrow> u64 list \<Rightarrow> bool" where
  "counts_added incs c c' \<longleftrightarrow> length c' = length c
     \<and> (\<forall>i < length c. unat (c' ! i) = unat (c ! i) + (if i < length incs then unat (incs ! i) else 0))"

definition month_added :: "u64 list \<Rightarrow> u64 \<Rightarrow> u64 \<Rightarrow> persisted_month \<Rightarrow> persisted_month \<Rightarrow> bool" where
  "month_added incs active ov m m' \<longleftrightarrow> pm_month_index m' = pm_month_index m
     \<and> counts_added incs (pm_feature_counts m) (pm_feature_counts m')
     \<and> unat (pm_active_seconds m') = unat (pm_active_seconds m) + unat active
     \<and> unat (pm_overflow_feature_events m') = unat (pm_overflow_feature_events m) + unat ov"

definition totals_added :: "u64 list \<Rightarrow> u64 \<Rightarrow> u64 \<Rightarrow> persisted_state \<Rightarrow> persisted_state \<Rightarrow> bool" where
  "totals_added incs active ov s s' \<longleftrightarrow> counts_added incs (ps_feature_counts s) (ps_feature_counts s')
     \<and> unat (ps_active_seconds s') = unat (ps_active_seconds s) + unat active
     \<and> unat (ps_overflow_feature_events s') = unat (ps_overflow_feature_events s) + unat ov
     \<and> ps_last_checkpoint s' = ps_last_checkpoint s"

definition months_added :: "nat option \<Rightarrow> u64 list \<Rightarrow> u64 \<Rightarrow> u64 \<Rightarrow> persisted_state \<Rightarrow> persisted_state \<Rightarrow> bool" where
  "months_added mp incs active ov s s' \<longleftrightarrow> (case mp of
       None \<Rightarrow> ps_months s' = ps_months s
     | Some p \<Rightarrow> \<exists>m'. ps_months s' = (ps_months s)[p := m'] \<and> month_added incs active ov (ps_months s ! p) m')"

definition month_fits :: "nat option \<Rightarrow> nat \<Rightarrow> persisted_state \<Rightarrow> bool" where
  "month_fits mp n s \<longleftrightarrow> (\<forall>p. mp = Some p \<longrightarrow> p < length (ps_months s) \<and> n \<le> length (pm_feature_counts (ps_months s ! p)))"

lemma counts_added_Nil [simp]: "counts_added [] c c' \<longleftrightarrow> c' = c"
  by (auto simp: counts_added_def word_unat_eq_iff [symmetric] intro: nth_equalityI)

lemma counts_added_snoc:
  assumes "counts_added incs c c1" "length incs < length c" "checked_add (c1 ! length incs) v = Inr w"
  shows "counts_added (incs @ [v]) c (c1[length incs := w])"
  using assms checked_add_unat [OF assms(3)]
  by (auto simp: counts_added_def nth_list_update nth_append less_Suc_eq)

lemma counts_added_zero: "counts_added incs c c' \<Longrightarrow> counts_added (incs @ [0]) c c'"
  by (auto simp: counts_added_def nth_append less_Suc_eq)

lemma add_features_ok:
  assumes "rfold (add_feature mp) (enumerate 0 incs) s = Inr s'"
    "length incs \<le> length (ps_feature_counts s)" "month_fits mp (length incs) s"
  shows "totals_added incs 0 0 s s' \<and> months_added mp incs 0 0 s s'"
  using assms
proof (induction incs arbitrary: s' rule: rev_induct)
  case Nil
  then show ?case
    by (auto simp: totals_added_def months_added_def month_fits_def month_added_def list_update_id intro!: exI split: option.splits)
next
  case (snoc v incs)
  obtain s1 where s1: "rfold (add_feature mp) (enumerate 0 incs) s = Inr s1" "add_feature mp (length incs, v) s1 = Inr s'"
    using snoc.prems(1) by (auto simp: enumerate_append_eq rbind_eq_Inr)
  have ih: "totals_added incs 0 0 s s1" "months_added mp incs 0 0 s s1"
    using snoc.IH [OF s1(1)] snoc.prems(2,3) by (simp_all add: month_fits_def Suc_le_lessD order.strict_implies_order)
  show ?case
  proof (cases "v = 0")
    case True
    with s1(2) ih show ?thesis
      by (auto simp: add_feature_def totals_added_def months_added_def month_added_def counts_added_zero split: option.splits)
  next
    case False
    obtain w where w: "checked_add (ps_feature_counts s1 ! length incs) v = Inr w"
      and m: "add_month_feature mp (length incs) v (s1\<lparr>ps_feature_counts := (ps_feature_counts s1)[length incs := w]\<rparr>) = Inr s'"
      using s1(2) False by (auto simp: add_feature_def rbind_eq_Inr)
    have c: "counts_added (incs @ [v]) (ps_feature_counts s) ((ps_feature_counts s1)[length incs := w])"
      using ih(1) snoc.prems(2) w by (intro counts_added_snoc) (auto simp: totals_added_def)
    show ?thesis
    proof (cases mp)
      case None
      with m c ih show ?thesis by (auto simp: add_month_feature_def totals_added_def months_added_def)
    next
      case (Some p)
      obtain m1 where m1: "ps_months s1 = (ps_months s)[p := m1]" "month_added incs 0 0 (ps_months s ! p) m1"
        using ih(2) Some by (auto simp: months_added_def)
      have p: "p < length (ps_months s)" "length incs < length (pm_feature_counts (ps_months s ! p))"
        using snoc.prems(3) Some by (auto simp: month_fits_def)
      obtain x where x: "checked_add (pm_feature_counts m1 ! length incs) v = Inr x"
        and s': "s' = s1\<lparr>ps_feature_counts := (ps_feature_counts s1)[length incs := w],
           ps_months := (ps_months s)[p := m1\<lparr>pm_feature_counts := (pm_feature_counts m1)[length incs := x]\<rparr>]\<rparr>"
        using m Some m1(1) p(1) by (auto simp: add_month_feature_def Let_def rbind_eq_Inr)
      have "counts_added (incs @ [v]) (pm_feature_counts (ps_months s ! p)) ((pm_feature_counts m1)[length incs := x])"
        using m1(2) p(2) x by (intro counts_added_snoc) (auto simp: month_added_def)
      with c ih(1) m1(2) s' Some show ?thesis by (auto simp: totals_added_def months_added_def month_added_def intro!: exI)
    qed
  qed
qed

text \<open>A staged update adds the whole batch to the totals and, when it has a month, to that month.\<close>

lemma counts_added_length: "counts_added incs c c' \<Longrightarrow> length c' = length c"
  by (simp add: counts_added_def)

lemma months_added_Some:
  "ps_months s' = (ps_months s)[p := m'] \<Longrightarrow> month_added incs active ov (ps_months s ! p) m' \<Longrightarrow> months_added (Some p) incs active ov s s'"
  by (auto simp: months_added_def)

lemma add_active_ok:
  assumes "add_active mp active s = Inr s'"
  shows "totals_added [] active 0 s s' \<and> months_added mp [] active 0 s s'"
proof (cases mp)
  case None
  with assms show ?thesis by (auto simp: add_active_def rbind_eq_Inr totals_added_def months_added_def Let_def dest!: checked_add_unat)
next
  case (Some p)
  then obtain x y where "checked_add (ps_active_seconds s) active = Inr x" "checked_add (pm_active_seconds (ps_months s ! p)) active = Inr y"
      "s' = s\<lparr>ps_active_seconds := x, ps_months := (ps_months s)[p := (ps_months s ! p)\<lparr>pm_active_seconds := y\<rparr>]\<rparr>"
    using assms by (auto simp: add_active_def rbind_eq_Inr Let_def)
  with Some show ?thesis by (auto simp: totals_added_def month_added_def dest!: checked_add_unat intro!: months_added_Some)
qed

lemma add_overflow_ok:
  assumes "add_overflow mp ov s = Inr s'"
  shows "totals_added [] 0 ov s s' \<and> months_added mp [] 0 ov s s'"
proof (cases mp)
  case None
  with assms show ?thesis by (auto simp: add_overflow_def rbind_eq_Inr totals_added_def months_added_def Let_def dest!: checked_add_unat)
next
  case (Some p)
  then obtain x y where "checked_add (ps_overflow_feature_events s) ov = Inr x"
      "checked_add (pm_overflow_feature_events (ps_months s ! p)) ov = Inr y"
      "s' = s\<lparr>ps_overflow_feature_events := x,
         ps_months := (ps_months s)[p := (ps_months s ! p)\<lparr>pm_overflow_feature_events := y\<rparr>]\<rparr>"
    using assms by (auto simp: add_overflow_def rbind_eq_Inr Let_def)
  with Some show ?thesis by (auto simp: totals_added_def month_added_def dest!: checked_add_unat intro!: months_added_Some)
qed

lemma stage_update_ok:
  assumes run: "stage_update mp active incs ov s = Inr s'"
    and n: "length incs = length (ps_feature_counts s)" and m: "month_fits mp (length incs) s"
  shows "totals_added incs active ov s s' \<and> months_added mp incs active ov s s'"
proof -
  obtain s1 s2 where a: "add_active mp active s = Inr s1" and f: "rfold (add_feature mp) (enumerate 0 incs) s1 = Inr s2"
    and o: "add_overflow mp ov s2 = Inr s'"
    using run by (auto simp: stage_update_def rbind_eq_Inr)
  note a1 = add_active_ok [OF a] and o1 = add_overflow_ok [OF o]
  have n1: "length incs \<le> length (ps_feature_counts s1)" using a1 n by (simp add: totals_added_def)
  have m1: "month_fits mp (length incs) s1"
    using a1 m by (auto simp: month_fits_def months_added_def month_added_def)
  note b = add_features_ok [OF f n1 m1]
  have "totals_added incs active ov s s'" using a1 b o1 by (auto simp: totals_added_def)
  moreover have "months_added mp incs active ov s s'"
  proof (cases mp)
    case None
    with a1 b o1 show ?thesis by (simp add: months_added_def)
  next
    case (Some p)
    then have "p < length (ps_months s)" using m by (simp add: month_fits_def)
    with Some a1 b o1 show ?thesis by (auto simp: months_added_def month_added_def)
  qed
  ultimately show ?thesis ..
qed

section \<open>The window of months\<close>

lemma sorted_takeWhile_less:
  fixes k :: "'a::linorder"
  assumes "sorted_wrt (<) (map f xs)"
  defines "p \<equiv> length (takeWhile (\<lambda>x. f x < k) xs)"
  shows "\<forall>x \<in> set (take p xs). f x < k" "\<forall>x \<in> set (drop p xs). k \<le> f x" "p \<le> length xs"
proof -
  have t: "take p xs = takeWhile (\<lambda>x. f x < k) xs" by (simp add: p_def takeWhile_eq_take [symmetric])
  have d: "drop p xs = dropWhile (\<lambda>x. f x < k) xs" by (simp add: p_def dropWhile_eq_drop)
  show "\<forall>x \<in> set (take p xs). f x < k" unfolding t by (auto dest: set_takeWhileD)
  show "p \<le> length xs" by (simp add: p_def length_takeWhile_le)
  show "\<forall>x \<in> set (drop p xs). k \<le> f x"
  proof (cases "drop p xs")
    case (Cons y ys)
    then have "k \<le> f y" using hd_dropWhile [of "\<lambda>x. f x < k" xs] by (simp add: d)
    moreover have "sorted_wrt (<) (map f (y # ys))" using assms(1) Cons by (metis drop_map sorted_wrt_drop)
    ultimately show ?thesis unfolding Cons by fastforce
  qed simp
qed

lemma month_search_ok:
  assumes "sorted_wrt (<) (map pm_month_index ms)"
  shows "month_search ms k = Inr p \<Longrightarrow> p < length ms \<and> pm_month_index (ms ! p) = k"
    "month_search ms k = Inl p \<Longrightarrow> p \<le> length ms \<and> (\<forall>m \<in> set (take p ms). pm_month_index m < k)
       \<and> (\<forall>m \<in> set (drop p ms). k < pm_month_index m)"
proof -
  note s = sorted_takeWhile_less [OF assms, of k]
  show "month_search ms k = Inr p \<Longrightarrow> p < length ms \<and> pm_month_index (ms ! p) = k"
    by (auto simp: month_search_def Let_def split: if_splits)
  assume p: "month_search ms k = Inl p"
  then have len: "p = length (takeWhile (\<lambda>m. pm_month_index m < k) ms)" "p < length ms \<Longrightarrow> pm_month_index (ms ! p) \<noteq> k"
    by (auto simp: month_search_def Let_def split: if_splits)
  have "k < pm_month_index m" if m: "m \<in> set (drop p ms)" for m
  proof -
    have lt: "p < length ms" using m by (cases "p < length ms") auto
    then have dr: "drop p ms = ms ! p # drop (Suc p) ms" by (rule Cons_nth_drop_Suc [symmetric])
    have "k \<le> pm_month_index (ms ! p)" using s(2) [folded len(1)] by (simp add: dr)
    then have "k < pm_month_index (ms ! p)" using len(2) [OF lt] by simp
    moreover have "sorted_wrt (<) (map pm_month_index (drop p ms))" using assms by (metis drop_map sorted_wrt_drop)
    ultimately show ?thesis using m unfolding dr by (auto dest: order.strict_trans)
  qed
  with s(1,3) [folded len(1)] show "p \<le> length ms \<and> (\<forall>m \<in> set (take p ms). pm_month_index m < k) \<and> (\<forall>m \<in> set (drop p ms). k < pm_month_index m)"
    by simp
qed

lemma list_insert_sorted:
  assumes "sorted_wrt (<) (map f xs)" "\<forall>x \<in> set (take p xs). f x < f y" "\<forall>x \<in> set (drop p xs). f y < f x" "p \<le> length xs"
  shows "sorted_wrt (<) (map f (list_insert p y xs))"
proof -
  have "sorted_wrt (<) (map f (take p xs @ drop p xs))" using assms(1) by simp
  then show ?thesis using assms(2,3) unfolding list_insert_def map_append sorted_wrt_append by auto
qed

lemma set_list_insert: "set (list_insert p y xs) = insert y (set xs)"
  unfolding list_insert_def using append_take_drop_id [of p xs] by (metis Un_insert_right list.simps(15) set_append)

lemma nth_list_insert: "p \<le> length xs \<Longrightarrow> list_insert p y xs ! p = y"
  by (simp add: list_insert_def nth_append)

lemma length_list_insert [simp]: "length (list_insert p y xs) = Suc (length xs)"
  by (simp add: list_insert_def)

text \<open>
  Preparing the month of an update: the months stay within the window and in order, the month
  that will be changed is that of the update, and a full window gives up its oldest month.
\<close>

definition window_step :: "nat \<Rightarrow> u32 \<Rightarrow> persisted_month list \<Rightarrow> persisted_month list \<Rightarrow> bool" where
  "window_step n k ms ms' \<longleftrightarrow>
     set ms' \<subseteq> insert (fresh_month n k) (set ms)
     \<and> (fresh_month n k \<in> set ms' \<longrightarrow> fresh_month n k \<in> set ms \<or> k \<notin> pm_month_index ` set ms)
     \<and> (\<forall>m \<in> set ms - set ms'. \<forall>m' \<in> set ms'. pm_month_index m < pm_month_index m')"

lemma window_step_refl [simp]: "window_step n k ms ms"
  by (auto simp: window_step_def)

lemma prepare_month_ok:
  assumes ok: "state_ok (length (ul_feature_ids l)) (ul_monthly_buckets l) s"
    and run: "prepare_month l s k = (s1, mp, outside)"
  shows "\<exists>ms. s1 = s\<lparr>ps_months := ms\<rparr> \<and> state_ok (length (ul_feature_ids l)) (ul_monthly_buckets l) s1
    \<and> month_fits mp (length (ul_feature_ids l)) s1 \<and> (\<forall>p. mp = Some p \<longrightarrow> pm_month_index (ms ! p) = k)
    \<and> window_step (length (ul_feature_ids l)) k (ps_months s) ms
    \<and> (mp = None \<longrightarrow> ms = ps_months s \<and> (ul_monthly_buckets l = 0 \<or> outside \<and> length ms = ul_monthly_buckets l
         \<and> (\<forall>m \<in> set ms. k < pm_month_index m)))
    \<and> (length (ps_months s) < ul_monthly_buckets l \<longrightarrow> set (ps_months s) \<subseteq> set ms)"
proof (cases "ul_monthly_buckets l = 0")
  case True
  with ok run show ?thesis by (auto simp: prepare_month_def month_fits_def intro!: exI [of _ "ps_months s"])
next
  case False
  let ?n = "length (ul_feature_ids l)" and ?b = "ul_monthly_buckets l" and ?ms = "ps_months s"
  let ?new = "fresh_month ?n k"
  have st: "length (ps_feature_counts s) = ?n" "length ?ms \<le> ?b" "\<forall>m \<in> set ?ms. length (pm_feature_counts m) = ?n"
      and sorted: "sorted_wrt (<) (map pm_month_index ?ms)"
    using ok by (auto simp: state_ok_def)
  have new: "pm_month_index ?new = k" "length (pm_feature_counts ?new) = ?n" by (simp_all add: fresh_month_def)
  show ?thesis
  proof (cases "month_search ?ms k")
    case (Inr p)
    with month_search_ok(1) [OF sorted Inr] run False ok st(3) show ?thesis
      by (auto simp: prepare_month_def month_fits_def Let_def intro!: exI [of _ ?ms])
  next
    case (Inl p)
    note p = month_search_ok(2) [OF sorted Inl]
    have all: "set ?ms = set (take p ?ms) \<union> set (drop p ?ms)" by (metis append_take_drop_id set_append)
    have absent: "k \<notin> pm_month_index ` set ?ms" unfolding all using p by auto
    consider (room) "length ?ms < ?b" | (old) "\<not> length ?ms < ?b" "p = 0" | (full) q where "\<not> length ?ms < ?b" "p = Suc q"
      by (cases p) auto
    then show ?thesis
    proof cases
      case room
      let ?ms' = "list_insert p ?new ?ms"
      have eq: "s1 = s\<lparr>ps_months := ?ms'\<rparr>" "mp = Some p" using run False room Inl by (auto simp: prepare_month_def Let_def)
      have "sorted_wrt (<) (map pm_month_index ?ms')" using p sorted new by (intro list_insert_sorted) simp_all
      with room st new p absent show ?thesis
        by (auto simp: eq state_ok_def month_fits_def nth_list_insert set_list_insert window_step_def intro!: exI [of _ ?ms'])
    next
      case old
      with run False Inl p ok st show ?thesis
        by (auto simp: prepare_month_def Let_def month_fits_def intro!: exI [of _ ?ms])
    next
      case full
      let ?ms' = "list_insert q ?new (tl ?ms)"
      have eq: "s1 = s\<lparr>ps_months := ?ms'\<rparr>" "mp = Some q" using run False full Inl by (auto simp: prepare_month_def Let_def)
      obtain m0 rest where ms: "?ms = m0 # rest" using p full(2) by (cases ?ms) auto
      have q: "q \<le> length rest" "\<forall>m \<in> set (take q rest). pm_month_index m < k" "\<forall>m \<in> set (drop q rest). k < pm_month_index m"
          "pm_month_index m0 < k" "sorted_wrt (<) (map pm_month_index rest)" "\<forall>m \<in> set rest. pm_month_index m0 < pm_month_index m"
        using p full(2) ms sorted by auto
      have "sorted_wrt (<) (map pm_month_index ?ms')" using q new by (simp add: ms) (intro list_insert_sorted; simp)
      with full(1) st new q absent ms show ?thesis
        by (auto simp: eq state_ok_def month_fits_def nth_list_insert set_list_insert window_step_def intro!: exI [of _ ?ms'])
    qed
  qed
qed

section \<open>Recording a batch\<close>

lemma persist_locked_cong:
  assumes "ul_feature_ids l = ul_feature_ids l'" "ul_monthly_buckets l = ul_monthly_buckets l'"
    "ul_config_fingerprint l = ul_config_fingerprint l'" "ul_max_raw_payload_bytes l = ul_max_raw_payload_bytes l'"
    "ul_slot_bytes l = ul_slot_bytes l'"
  shows "persist_locked codecs fault partial l inner s = persist_locked codecs fault partial l' inner s"
  by (simp only: persist_locked_def prepare_checkpoint_def assms)

lemma persist_locked_state:
  assumes "persist_locked codecs fault partial l inner s = (r, inner')"
  shows "(r = Inr () \<longrightarrow> li_state inner' = s \<and> li_generation inner' = li_generation inner + 1
      \<and> state_ok (length (ul_feature_ids l)) (ul_monthly_buckets l) s)
    \<and> (r \<noteq> Inr () \<longrightarrow> inner' = inner\<lparr>li_file := li_file inner'\<rparr>)"
proof (cases "prepare_checkpoint codecs l (li_generation inner) s")
  case (Inr q)
  obtain raw codec payload g where q: "q = (raw, codec, payload, g)" by (cases q)
  note ok = prepare_checkpoint_ok [OF Inr [unfolded q]]
  note run = assms [unfolded persist_locked_def Inr q Let_def sum.case prod.case]
  show ?thesis
  proof (cases "lio fault ''write payload''")
    case (Inr u)
    note run1 = run [unfolded Inr sum.case]
    let ?h = "rbind (lio fault ''sync payload'') (\<lambda>_. encode_header codecs codec g (length payload) (length raw)
        (ul_config_fingerprint l) (lc_crc32c codecs payload))"
    show ?thesis
    proof (cases ?h)
      case (Inr h)
      note run2 = run1 [unfolded Inr sum.case]
      show ?thesis
      proof (cases "lio fault ''write header''")
        case (Inr u)
        note run3 = run2 [unfolded Inr sum.case]
        show ?thesis using run3 ok by (cases "lio fault ''sync header''") auto
      qed (use run2 in auto)
    qed (use run1 in auto)
  qed (use run in auto)
qed (use assms in \<open>auto simp: persist_locked_def\<close>)

text \<open>A batch that is recorded was all zero, or was staged and made durable.\<close>

lemma record_batch_cases:
  assumes "record_batch_at codecs fault partial now l ts active updates = (Inr (), l')"
  obtains incs ov c where "rfold (accumulate_feature l) updates (replicate (length (ul_feature_ids l)) 0, 0, 0) = Inr (incs, ov, c)"
      "active = 0" "ov = 0" "\<forall>v \<in> set incs. v = 0" "l' = l"
  | incs ov c k s1 mp outside s2 inner
    where "rfold (accumulate_feature l) updates (replicate (length (ul_feature_ids l)) 0, 0, 0) = Inr (incs, ov, c)"
      "if ul_monthly_buckets l = 0 then k = 0 else calendar_month_index codecs ts = Inr k"
      "prepare_month l (li_state (ul_inner l)) k = (s1, mp, outside)" "stage_update mp active incs ov s1 = Inr s2"
      "persist_locked codecs fault partial l (ul_inner l) (s2\<lparr>ps_last_checkpoint := max now (ps_last_checkpoint s2)\<rparr>) = (Inr (), inner)"
      "l' = l\<lparr>ul_monthly_updates_outside_window := ul_monthly_updates_outside_window l + (if outside then 1 else 0),
        ul_inner := inner, ul_overflowed_unknown_events := ul_overflowed_unknown_events l + ov\<rparr>" "\<not> ul_poisoned l"
proof -
  note run = assms [unfolded record_batch_at_def Let_def]
  obtain incs ov c where acc: "rfold (accumulate_feature l) updates (replicate (length (ul_feature_ids l)) 0, 0, 0) = Inr (incs, ov, c)"
    using run by (cases "rfold (accumulate_feature l) updates (replicate (length (ul_feature_ids l)) 0, 0, 0)") auto
  note run1 = run [unfolded acc sum.case prod.case]
  show thesis
  proof (cases "active = 0 \<and> ov = 0 \<and> (\<forall>v \<in> set incs. v = 0)")
    case True
    with run1 acc show thesis by (intro that(1) [of incs ov c]) auto
  next
    case False
    note run2 = run1 [unfolded if_not_P [OF False]]
    obtain k where k: "(if ul_monthly_buckets l = 0 then Inr 0 else calendar_month_index codecs ts) = Inr k"
      using run2 by (cases "if ul_monthly_buckets l = 0 then Inr 0 else calendar_month_index codecs ts") auto
    note run3 = run2 [unfolded k sum.case]
    have np: "\<not> ul_poisoned l" using run3 by (cases "ul_poisoned l") auto
    obtain s1 mp outside where pm: "prepare_month l (li_state (ul_inner l)) k = (s1, mp, outside)"
      by (cases "prepare_month l (li_state (ul_inner l)) k")
    note run4 = run3 [unfolded if_not_P [OF np] pm prod.case]
    obtain s2 where s2: "stage_update mp active incs ov s1 = Inr s2" using run4 by (cases "stage_update mp active incs ov s1") auto
    let ?l1 = "if outside then l\<lparr>ul_monthly_updates_outside_window := ul_monthly_updates_outside_window l + 1\<rparr> else l"
    let ?s = "s2\<lparr>ps_last_checkpoint := max now (ps_last_checkpoint s2)\<rparr>"
    note run5 = run4 [unfolded s2 sum.case]
    obtain r inner where p: "persist_locked codecs fault partial ?l1 (ul_inner ?l1) ?s = (r, inner)" by fastforce
    have r: "r = Inr ()" using run5 unfolding p by (cases r) auto
    have p': "persist_locked codecs fault partial l (ul_inner l) ?s = (Inr (), inner)"
      using p r persist_locked_cong [of ?l1 l codecs fault partial "ul_inner ?l1" ?s] by (cases outside) auto
    have "l' = ?l1\<lparr>ul_inner := inner, ul_overflowed_unknown_events := ul_overflowed_unknown_events ?l1 + ov\<rparr>"
      using run5 unfolding p r by simp
    then have "l' = l\<lparr>ul_monthly_updates_outside_window := ul_monthly_updates_outside_window l + (if outside then 1 else 0),
        ul_inner := inner, ul_overflowed_unknown_events := ul_overflowed_unknown_events l + ov\<rparr>" by (cases outside) auto
    with acc k pm s2 p' np show thesis by (intro that(2)) (auto split: if_splits)
  qed
qed

text \<open>What a recorded batch did to the state, whether or not anything had to be written.\<close>

lemma counts_added_zeros: "\<forall>v \<in> set incs. v = 0 \<Longrightarrow> counts_added incs c c"
  by (auto simp: counts_added_def dest!: nth_mem)

lemma ledger_wf_inner:
  "ledger_wf (l\<lparr>ul_monthly_updates_outside_window := x, ul_inner := inner, ul_overflowed_unknown_events := y\<rparr>) \<longleftrightarrow>
     ul_feature_indexes l = feature_indexes (ul_feature_ids l) \<and> distinct (ul_feature_ids l)
     \<and> (\<forall>f \<in> set (ul_feature_ids l). length f \<le> MAX_FEATURE_ID_BYTES)
     \<and> state_ok (length (ul_feature_ids l)) (ul_monthly_buckets l) (li_state inner)"
  by (simp add: ledger_wf_def)

definition window_after :: "usage_ledger \<Rightarrow> u32 \<Rightarrow> u64 list \<Rightarrow> u64 \<Rightarrow> u64 \<Rightarrow> persisted_state \<Rightarrow> persisted_state \<Rightarrow> bool" where
  "window_after l k incs active ov s s' \<longleftrightarrow>
     (\<exists>ms mp. window_step (length (ul_feature_ids l)) k (ps_months s) ms \<and> months_added mp incs active ov (s\<lparr>ps_months := ms\<rparr>) s'
        \<and> month_fits mp (length (ul_feature_ids l)) (s\<lparr>ps_months := ms\<rparr>) \<and> (\<forall>p. mp = Some p \<longrightarrow> pm_month_index (ms ! p) = k)
        \<and> state_ok (length (ul_feature_ids l)) (ul_monthly_buckets l) (s\<lparr>ps_months := ms\<rparr>)
        \<and> (mp = None \<longrightarrow> ms = ps_months s
             \<and> (ul_monthly_buckets l = 0 \<or> length (ps_months s) = ul_monthly_buckets l \<and> (\<forall>m \<in> set (ps_months s). k < pm_month_index m)))
        \<and> (length (ps_months s) < ul_monthly_buckets l \<longrightarrow> set (ps_months s) \<subseteq> set ms))"

lemma stage_effect:
  assumes wf: "ledger_wf l"
    and acc: "rfold (accumulate_feature l) updates (replicate (length (ul_feature_ids l)) 0, 0, 0) = Inr (incs, ov, c)"
    and pm: "prepare_month l (li_state (ul_inner l)) k = (s1, mp, outside)" and st: "stage_update mp active incs ov s1 = Inr s2"
  shows "length incs = length (ul_feature_ids l) \<and> totals_added incs active ov (li_state (ul_inner l)) s2
    \<and> window_after l k incs active ov (li_state (ul_inner l)) s2"
proof -
  let ?s = "li_state (ul_inner l)" and ?n = "length (ul_feature_ids l)"
  have ok: "state_ok ?n (ul_monthly_buckets l) ?s" using wf by (simp add: ledger_wf_def)
  have n: "length incs = ?n" using accumulate_ok [OF wf _ acc] by simp
  obtain ms where ms: "s1 = ?s\<lparr>ps_months := ms\<rparr>" "state_ok ?n (ul_monthly_buckets l) s1" "month_fits mp ?n s1"
      "\<forall>p. mp = Some p \<longrightarrow> pm_month_index (ms ! p) = k" "window_step ?n k (ps_months ?s) ms"
      "mp = None \<longrightarrow> ms = ps_months ?s \<and> (ul_monthly_buckets l = 0 \<or> outside \<and> length ms = ul_monthly_buckets l
         \<and> (\<forall>m \<in> set ms. k < pm_month_index m))" "length (ps_months ?s) < ul_monthly_buckets l \<longrightarrow> set (ps_months ?s) \<subseteq> set ms"
    using prepare_month_ok [OF ok pm] by blast
  have st2: "totals_added incs active ov s1 s2 \<and> months_added mp incs active ov s1 s2"
    using stage_update_ok [OF st] n ms ok by (auto simp: state_ok_def)
  have "totals_added incs active ov ?s s2" using st2 ms(1) by (simp add: totals_added_def)
  moreover have "window_after l k incs active ov ?s s2"
    unfolding window_after_def using st2 ms by (intro exI [of _ ms] exI [of _ mp]) auto
  ultimately show ?thesis using n by blast
qed

lemma record_batch_effect:
  assumes wf: "ledger_wf l" and run: "record_batch_at codecs fault partial now l ts active updates = (Inr (), l')"
  obtains incs ov c
  where "rfold (accumulate_feature l) updates (replicate (length (ul_feature_ids l)) 0, 0, 0) = Inr (incs, ov, c)"
    "length incs = length (ul_feature_ids l)" "l' = l" "active = 0" "ov = 0" "\<forall>v \<in> set incs. v = 0"
  | incs ov c k s2
  where "rfold (accumulate_feature l) updates (replicate (length (ul_feature_ids l)) 0, 0, 0) = Inr (incs, ov, c)"
    "length incs = length (ul_feature_ids l)" "totals_added incs active ov (li_state (ul_inner l)) s2"
    "window_after l k incs active ov (li_state (ul_inner l)) s2" "calendar_month_index codecs ts = Inr k \<or> ul_monthly_buckets l = 0"
    "li_state (ul_inner l') = s2\<lparr>ps_last_checkpoint := max now (ps_last_checkpoint s2)\<rparr>" "ledger_wf l'"
    "ul_feature_ids l' = ul_feature_ids l" "ul_monthly_buckets l' = ul_monthly_buckets l"
    "li_generation (ul_inner l') = li_generation (ul_inner l) + 1"
  using run
proof (cases rule: record_batch_cases)
  case (1 incs ov c)
  with accumulate_ok [OF wf, of "replicate (length (ul_feature_ids l)) 0" updates] show thesis by (intro that(1)) auto
next
  case (2 incs ov c k s1 mp outside s2 inner)
  note st = stage_effect [OF wf 2(1,3,4)] and ps = persist_locked_state [OF 2(5)]
  show thesis
  proof (rule that(2) [OF 2(1)])
    show "ledger_wf l'" unfolding 2(6) ledger_wf_inner using wf ps by (simp add: ledger_wf_def)
  qed (use 2 ps st in \<open>auto split: if_splits\<close>)
qed

text \<open>The state a batch is about to make durable.\<close>

definition batch_stages :: "ledger_codecs \<Rightarrow> u64 \<Rightarrow> usage_ledger \<Rightarrow> u64 \<Rightarrow> u64 \<Rightarrow> (bytes \<times> u64) list \<Rightarrow> persisted_state \<Rightarrow> bool" where
  "batch_stages codecs now l ts active updates s \<longleftrightarrow>
     (\<exists>incs ov c k s1 mp outside s2.
        rfold (accumulate_feature l) updates (replicate (length (ul_feature_ids l)) 0, 0, 0) = Inr (incs, ov, c)
        \<and> prepare_month l (li_state (ul_inner l)) k = (s1, mp, outside) \<and> stage_update mp active incs ov s1 = Inr s2
        \<and> s = s2\<lparr>ps_last_checkpoint := max now (ps_last_checkpoint s2)\<rparr>
        \<and> (if ul_monthly_buckets l = 0 then k = 0 else calendar_month_index codecs ts = Inr k))"

text \<open>The fields of a ledger that no operation changes.\<close>

definition same_config :: "usage_ledger \<Rightarrow> usage_ledger \<Rightarrow> bool" where
  "same_config l l' \<longleftrightarrow> ul_feature_ids l' = ul_feature_ids l \<and> ul_feature_indexes l' = ul_feature_indexes l
     \<and> ul_monthly_buckets l' = ul_monthly_buckets l \<and> ul_policy l' = ul_policy l \<and> ul_slot_bytes l' = ul_slot_bytes l
     \<and> ul_max_raw_payload_bytes l' = ul_max_raw_payload_bytes l \<and> ul_config_fingerprint l' = ul_config_fingerprint l
     \<and> ul_poisoned l' = ul_poisoned l"

lemma record_batch_error:
  assumes "record_batch_at codecs fault partial now l ts active updates = (Inl e, l')"
  shows "same_config l l' \<and> (\<not> ul_poisoned l \<longrightarrow> ul_rejected_updates l' = ul_rejected_updates l + 1)
    \<and> (ul_inner l' = ul_inner l \<or> (\<exists>s. batch_stages codecs now l ts active updates s
        \<and> persist_locked codecs fault partial l (ul_inner l) s = (Inl e, ul_inner l')))"
proof -
  note run = assms [unfolded record_batch_at_def Let_def]
  show ?thesis
  proof (cases "rfold (accumulate_feature l) updates (replicate (length (ul_feature_ids l)) 0, 0, 0)")
    case (Inl q)
    with run show ?thesis by (cases q; cases "snd q") (auto simp: same_config_def)
  next
    case (Inr q)
    obtain incs ov c where q: "q = (incs, ov, c)" by (cases q)
    note acc = Inr [unfolded q]
    note run1 = run [unfolded acc sum.case prod.case]
    have False: "\<not> (active = 0 \<and> ov = 0 \<and> (\<forall>v \<in> set incs. v = 0))" using run1 by (auto split: if_splits)
    note run2 = run1 [unfolded if_not_P [OF False]]
    show ?thesis
    proof (cases "if ul_monthly_buckets l = 0 then Inr 0 else calendar_month_index codecs ts")
      case (Inl e')
      with run2 show ?thesis by (auto simp: same_config_def)
    next
      case (Inr k)
      note run3 = run2 [unfolded Inr sum.case]
      have k: "if ul_monthly_buckets l = 0 then k = 0 else calendar_month_index codecs ts = Inr k" using Inr by (auto split: if_splits)
      obtain s1 mp outside where pm: "prepare_month l (li_state (ul_inner l)) k = (s1, mp, outside)"
        by (cases "prepare_month l (li_state (ul_inner l)) k")
      let ?l1 = "if outside then l\<lparr>ul_monthly_updates_outside_window := ul_monthly_updates_outside_window l + 1\<rparr> else l"
      note run4 = run3 [unfolded pm prod.case]
      show ?thesis
      proof (cases "stage_update mp active incs ov s1")
        case (Inl e')
        with run4 show ?thesis by (cases outside) (auto simp: same_config_def split: if_splits)
      next
        case (Inr s2)
        let ?s = "s2\<lparr>ps_last_checkpoint := max now (ps_last_checkpoint s2)\<rparr>"
        have st: "batch_stages codecs now l ts active updates ?s" unfolding batch_stages_def using acc pm Inr k by blast
        obtain r inner where p: "persist_locked codecs fault partial ?l1 (ul_inner ?l1) ?s = (r, inner)" by fastforce
        have p': "persist_locked codecs fault partial l (ul_inner l) ?s = (r, inner)"
          using p persist_locked_cong [of ?l1 l codecs fault partial "ul_inner ?l1" ?s] by (cases outside) auto
        note run5 = run4 [unfolded Inr sum.case p prod.case]
        show ?thesis
        proof (cases "ul_poisoned l")
          case True
          with run5 show ?thesis by (simp add: same_config_def)
        next
          case False
          note run6 = run5 [unfolded if_not_P [OF False]]
          obtain e' where r: "r = Inl e'" using run6 by (cases r) auto
          have l': "e' = e" "ul_inner l' = inner" "same_config l l'" "ul_rejected_updates l' = ul_rejected_updates l + 1"
            using run6 r by (cases outside; auto simp: same_config_def)+
          with p' r st show ?thesis by blast
        qed
      qed
    qed
  qed
qed

lemma record_batch_error_state:
  assumes "record_batch_at codecs fault partial now l ts active updates = (Inl e, l')"
  shows "ul_inner l' = (ul_inner l)\<lparr>li_file := li_file (ul_inner l')\<rparr>"
  using record_batch_error [OF assms] persist_locked_state by fastforce

section \<open>The sums of the months stay within the totals\<close>

definition months_within_totals :: "persisted_state \<Rightarrow> bool" where
  "months_within_totals s \<longleftrightarrow>
     (\<forall>i < length (ps_feature_counts s).
        sum_list (map (\<lambda>m. unat (pm_feature_counts m ! i)) (ps_months s)) \<le> unat (ps_feature_counts s ! i))
     \<and> sum_list (map (\<lambda>m. unat (pm_active_seconds m)) (ps_months s)) \<le> unat (ps_active_seconds s)
     \<and> sum_list (map (\<lambda>m. unat (pm_overflow_feature_events m)) (ps_months s)) \<le> unat (ps_overflow_feature_events s)"

lemma sum_list_update_month:
  fixes f :: "persisted_month \<Rightarrow> nat"
  assumes "p < length ms" "f m' = f (ms ! p) + d" "sum_list (map f ms) \<le> t" "t' = t + d"
  shows "sum_list (map f (ms[p := m'])) \<le> t'"
proof -
  have "f (ms ! p) \<le> sum_list (map f ms)" using assms(1) by (intro member_le_sum_list) simp_all
  with assms show ?thesis by (simp add: map_update sum_list_update)
qed

lemma window_step_sum:
  assumes w: "window_step n k ms ms'" and d: "distinct ms" "distinct ms'" and z: "f (fresh_month n k) = (0 :: nat)"
  shows "sum_list (map f ms') \<le> sum_list (map f ms)"
proof -
  have "sum_list (map f ms') = sum f (set ms')" "sum_list (map f ms) = sum f (set ms)"
    using d by (simp_all add: sum_list_distinct_conv_sum_set)
  moreover have "sum f (set ms') \<le> sum f (insert (fresh_month n k) (set ms))"
    using w by (intro sum_mono2) (auto simp: window_step_def)
  moreover have "sum f (insert (fresh_month n k) (set ms)) = sum f (set ms)" using z by (simp add: sum.insert_if)
  ultimately show ?thesis by simp
qed

lemma state_ok_distinct: "state_ok n b s \<Longrightarrow> distinct (ps_months s)"
  by (auto simp: state_ok_def strict_sorted_iff distinct_map)

lemma months_within_totals_step:
  assumes ok: "state_ok (length (ul_feature_ids l)) (ul_monthly_buckets l) s" and b: "months_within_totals s"
    and t: "totals_added incs active ov s s'" and w: "window_after l k incs active ov s s'"
    and n: "length incs = length (ul_feature_ids l)"
  shows "months_within_totals s'"
proof -
  let ?n = "length (ul_feature_ids l)"
  obtain ms mp where w: "window_step ?n k (ps_months s) ms" "months_added mp incs active ov (s\<lparr>ps_months := ms\<rparr>) s'"
      "month_fits mp ?n (s\<lparr>ps_months := ms\<rparr>)" "state_ok ?n (ul_monthly_buckets l) (s\<lparr>ps_months := ms\<rparr>)"
    using w unfolding window_after_def by blast
  have dist: "distinct (ps_months s)" "distinct ms" using state_ok_distinct [OF ok] state_ok_distinct [OF w(4)] by simp_all
  note le = window_step_sum [OF w(1) dist]
  have c: "length (ps_feature_counts s) = ?n" "length (ps_feature_counts s') = ?n"
    using ok t by (auto simp: state_ok_def totals_added_def counts_added_def)
  have b1: "sum_list (map (\<lambda>m. unat (pm_feature_counts m ! i)) ms) \<le> unat (ps_feature_counts s ! i)" if "i < ?n" for i
    using le [of "\<lambda>m. unat (pm_feature_counts m ! i)"] b that c by (force simp: months_within_totals_def fresh_month_def)
  have b2: "sum_list (map (\<lambda>m. unat (pm_active_seconds m)) ms) \<le> unat (ps_active_seconds s)"
    using le [of "\<lambda>m. unat (pm_active_seconds m)"] b by (force simp: months_within_totals_def fresh_month_def)
  have b3: "sum_list (map (\<lambda>m. unat (pm_overflow_feature_events m)) ms) \<le> unat (ps_overflow_feature_events s)"
    using le [of "\<lambda>m. unat (pm_overflow_feature_events m)"] b by (force simp: months_within_totals_def fresh_month_def)
  show ?thesis
  proof (cases mp)
    case None
    with b1 b2 b3 w(2) t c n show ?thesis
      by (auto simp: months_within_totals_def months_added_def totals_added_def counts_added_def intro: trans_le_add1)
  next
    case (Some p)
    obtain m' where m': "ps_months s' = ms[p := m']" "month_added incs active ov (ms ! p) m'"
      using w(2) Some by (auto simp: months_added_def)
    have p: "p < length ms" "length (pm_feature_counts (ms ! p)) = ?n"
      using w(3,4) Some by (auto simp: month_fits_def state_ok_def)
    show ?thesis unfolding months_within_totals_def m'(1) c
    proof (intro conjI allI impI)
      fix i assume "i < ?n"
      then show "sum_list (map (\<lambda>m. unat (pm_feature_counts m ! i)) (ms[p := m'])) \<le> unat (ps_feature_counts s' ! i)"
        using p m'(2) b1 t c n by (intro sum_list_update_month [of p ms _ m' "unat (incs ! i)" "unat (ps_feature_counts s ! i)"])
          (auto simp: month_added_def totals_added_def counts_added_def)
    next
      show "sum_list (map (\<lambda>m. unat (pm_active_seconds m)) (ms[p := m'])) \<le> unat (ps_active_seconds s')"
        using p m'(2) b2 t by (intro sum_list_update_month [of p ms _ m' "unat active" "unat (ps_active_seconds s)"])
          (auto simp: month_added_def totals_added_def)
      show "sum_list (map (\<lambda>m. unat (pm_overflow_feature_events m)) (ms[p := m'])) \<le> unat (ps_overflow_feature_events s')"
        using p m'(2) b3 t by (intro sum_list_update_month [of p ms _ m' "unat ov" "unat (ps_overflow_feature_events s)"])
          (auto simp: month_added_def totals_added_def)
    qed
  qed
qed

section \<open>A batch that fits is recorded\<close>

definition codecs_total :: "ledger_codecs \<Rightarrow> usage_ledger \<Rightarrow> bool" where
  "codecs_total codecs l \<longleftrightarrow>
     (\<forall>s. state_ok (length (ul_feature_ids l)) (ul_monthly_buckets l) s
        \<longrightarrow> (\<exists>raw. lc_to_vec codecs s = Inr raw \<and> length raw \<le> ul_max_raw_payload_bytes l))
     \<and> (\<forall>raw. \<exists>c. lc_compress codecs raw = Inr c)"

definition batch_fits :: "usage_ledger \<Rightarrow> u64 \<Rightarrow> (bytes \<times> u64) list \<Rightarrow> bool" where
  "batch_fits l active updates \<longleftrightarrow> (let s = li_state (ul_inner l) in
     length updates \<le> MAX_FEATURE_UPDATES_PER_BATCH
     \<and> (ul_policy l = AccumulateOverflow \<or> (\<forall>u \<in> set updates. snd u \<noteq> 0 \<longrightarrow> fst u \<in> set (ul_feature_ids l)))
     \<and> (\<forall>i < length (ul_feature_ids l). unat (ps_feature_counts s ! i) + usage_of updates (ul_feature_ids l ! i) < 2 ^ 64)
     \<and> unat (ps_active_seconds s) + unat active < 2 ^ 64
     \<and> unat (ps_overflow_feature_events s) + unknown_of (ul_feature_ids l) updates < 2 ^ 64)"

lemma accumulate_feature_succeeds:
  assumes wf: "ledger_wf l" and n: "length incs = length (ul_feature_ids l)" and c: "c < MAX_FEATURE_UPDATES_PER_BATCH"
    and pol: "ul_policy l = AccumulateOverflow \<or> v = 0 \<or> f \<in> set (ul_feature_ids l)"
    and fits: "\<And>i. i < length incs \<Longrightarrow> ul_feature_ids l ! i = f \<Longrightarrow> unat (incs ! i) + unat v < 2 ^ 64"
      "f \<notin> set (ul_feature_ids l) \<Longrightarrow> unat ov + unat v < 2 ^ 64"
  shows "\<exists>r. accumulate_feature l (f, v) (incs, ov, c) = Inr r"
proof -
  let ?ids = "ul_feature_ids l"
  have wf': "distinct ?ids" "ul_feature_indexes l = feature_indexes ?ids" "\<And>f. f \<in> set ?ids \<Longrightarrow> length f \<le> MAX_FEATURE_ID_BYTES"
    using wf by (auto simp: ledger_wf_def)
  have c': "\<not> c + 1 > MAX_FEATURE_UPDATES_PER_BATCH" using c by simp
  note unfold = accumulate_feature_def Let_def prod.case if_not_P [OF c']
  consider (zero) "v = 0" | (unknown) "v \<noteq> 0" "f \<notin> set ?ids" "ul_policy l = AccumulateOverflow"
    | (known) i where "v \<noteq> 0" "f \<in> set ?ids" "i < length ?ids" "?ids ! i = f"
    using pol in_set_conv_nth [of f ?ids] by blast
  then show ?thesis
  proof cases
    case zero
    then show ?thesis unfolding unfold by simp
  next
    case unknown
    then have "map_of (feature_indexes ?ids) f = None" "checked_add ov v = Inr (ov + v)"
      using map_of_feature_indexes_None [OF wf'(1)] fits(2) by (simp_all add: checked_add_Inr)
    then show ?thesis unfolding unfold wf'(2) if_not_P [OF unknown(1)] unknown(3)
      by (simp only: option.case unknown_feature_policy.case map_err_simps rbind.simps if_cancel) blast
  next
    case known
    then have "map_of (feature_indexes ?ids) f = Some i" "checked_add (incs ! i) v = Inr (incs ! i + v)"
      using map_of_feature_indexes [OF wf'(1)] fits(1) n by (simp_all add: checked_add_Inr)
    moreover have "\<not> length f > MAX_FEATURE_ID_BYTES" using wf'(3) [OF known(2)] by simp
    ultimately show ?thesis unfolding unfold wf'(2) if_not_P [OF known(1)] by (simp only: if_False option.case map_err_simps rbind.simps) blast
  qed
qed

lemma accumulate_succeeds:
  assumes wf: "ledger_wf l" and n: "length incs = length (ul_feature_ids l)" and c: "c + length updates \<le> MAX_FEATURE_UPDATES_PER_BATCH"
    and known: "ul_policy l = AccumulateOverflow \<or> (\<forall>u \<in> set updates. snd u \<noteq> 0 \<longrightarrow> fst u \<in> set (ul_feature_ids l))"
    and fits: "\<And>i. i < length incs \<Longrightarrow> unat (incs ! i) + usage_of updates (ul_feature_ids l ! i) < 2 ^ 64"
      "unat ov + unknown_of (ul_feature_ids l) updates < 2 ^ 64"
  shows "\<exists>r. rfold (accumulate_feature l) updates (incs, ov, c) = Inr r"
  using n c known fits
proof (induction updates arbitrary: incs ov c)
  case (Cons u us)
  obtain f v where u: "u = (f, v)" by (cases u)
  have "\<exists>r. accumulate_feature l (f, v) (incs, ov, c) = Inr r"
  proof (rule accumulate_feature_succeeds [OF wf Cons.prems(1)])
    show "unat (incs ! i) + unat v < 2 ^ 64" if "i < length incs" "ul_feature_ids l ! i = f" for i
      using Cons.prems(4) [OF that(1)] that(2) by (simp add: u)
    show "unat ov + unat v < 2 ^ 64" if "f \<notin> set (ul_feature_ids l)" using Cons.prems(5) that by (simp add: u)
  qed (use Cons.prems u in auto)
  then obtain incs1 ov1 c1 where s: "accumulate_feature l (f, v) (incs, ov, c) = Inr (incs1, ov1, c1)" by auto
  note a = accumulate_feature_ok [OF wf Cons.prems(1) s]
  have "\<exists>r. rfold (accumulate_feature l) us (incs1, ov1, c1) = Inr r"
  proof (rule Cons.IH)
    show "unat (incs1 ! i) + usage_of us (ul_feature_ids l ! i) < 2 ^ 64" if "i < length incs1" for i
      using Cons.prems(4) [of i] a that by (simp add: u split: if_splits)
    show "unat ov1 + unknown_of (ul_feature_ids l) us < 2 ^ 64" using Cons.prems(5) a by (simp add: u split: if_splits)
  qed (use Cons.prems a in auto)
  with s show ?case by (simp add: u)
qed simp

definition month_room :: "nat option \<Rightarrow> u64 list \<Rightarrow> u64 \<Rightarrow> u64 \<Rightarrow> persisted_state \<Rightarrow> bool" where
  "month_room mp incs active ov s \<longleftrightarrow> (\<forall>p. mp = Some p \<longrightarrow> (let m = ps_months s ! p in
     (\<forall>i < length incs. unat (pm_feature_counts m ! i) + unat (incs ! i) < 2 ^ 64)
     \<and> unat (pm_active_seconds m) + unat active < 2 ^ 64 \<and> unat (pm_overflow_feature_events m) + unat ov < 2 ^ 64))"

lemma month_room_snoc: "month_room mp (incs @ [v]) active ov s \<Longrightarrow> month_room mp incs active ov s"
  unfolding month_room_def Let_def by (metis (no_types, lifting) less_SucI length_append_singleton nth_append)

lemma add_features_succeed:
  assumes "length incs \<le> length (ps_feature_counts s)" "month_fits mp (length incs) s" "month_room mp incs 0 0 s"
    "\<And>i. i < length incs \<Longrightarrow> unat (ps_feature_counts s ! i) + unat (incs ! i) < 2 ^ 64"
  shows "\<exists>s'. rfold (add_feature mp) (enumerate 0 incs) s = Inr s'"
  using assms
proof (induction incs rule: rev_induct)
  case (snoc v incs)
  have m: "month_fits mp (length incs) s" "month_room mp incs 0 0 s" "length incs \<le> length (ps_feature_counts s)"
    using snoc.prems(1-3) by (auto simp: month_fits_def month_room_snoc)
  have "unat (ps_feature_counts s ! i) + unat (incs ! i) < 2 ^ 64" if "i < length incs" for i
    using snoc.prems(4) [of i] that by (simp add: nth_append)
  with snoc.IH m obtain s1 where s1: "rfold (add_feature mp) (enumerate 0 incs) s = Inr s1" by auto
  note ok = add_features_ok [OF s1 m(3,1)]
  have c: "checked_add (ps_feature_counts s1 ! length incs) v = Inr (ps_feature_counts s1 ! length incs + v)"
    using snoc.prems(1) snoc.prems(4) [of "length incs"] ok by (simp add: checked_add_Inr totals_added_def counts_added_def)
  have "\<exists>s'. add_feature mp (length incs, v) s1 = Inr s'"
  proof (cases mp)
    case None
    with c show ?thesis by (simp add: add_feature_def add_month_feature_def)
  next
    case (Some p)
    obtain m1 where m1: "ps_months s1 = (ps_months s)[p := m1]" "month_added incs 0 0 (ps_months s ! p) m1"
      using ok Some by (auto simp: months_added_def)
    have p: "p < length (ps_months s)" "length incs < length (pm_feature_counts (ps_months s ! p))"
      using snoc.prems(2) Some by (auto simp: month_fits_def)
    have "checked_add (pm_feature_counts m1 ! length incs) v = Inr (pm_feature_counts m1 ! length incs + v)"
      using snoc.prems(3) Some m1(2) p(2) by (auto simp: checked_add_Inr month_room_def Let_def month_added_def counts_added_def nth_append)
    with Some m1(1) p c show ?thesis by (simp add: add_feature_def add_month_feature_def Let_def)
  qed
  with s1 show ?case by (auto simp: enumerate_append_eq)
qed simp

lemma stage_update_succeeds:
  assumes n: "length incs = length (ps_feature_counts s)" and m: "month_fits mp (length incs) s" "month_room mp incs active ov s"
    and fits: "\<And>i. i < length incs \<Longrightarrow> unat (ps_feature_counts s ! i) + unat (incs ! i) < 2 ^ 64"
      "unat (ps_active_seconds s) + unat active < 2 ^ 64" "unat (ps_overflow_feature_events s) + unat ov < 2 ^ 64"
  shows "\<exists>s'. stage_update mp active incs ov s = Inr s'"
proof -
  have "\<exists>s1. add_active mp active s = Inr s1"
    using fits(2) m(2) by (cases mp) (auto simp: add_active_def Let_def month_room_def checked_add_Inr rbind_eq_Inr)
  then obtain s1 where s1: "add_active mp active s = Inr s1" ..
  note a = add_active_ok [OF s1]
  have m1: "month_fits mp (length incs) s1" "month_room mp incs 0 0 s1"
    using a m by (auto simp: month_fits_def month_room_def Let_def months_added_def month_added_def split: option.splits)
  have "\<exists>s2. rfold (add_feature mp) (enumerate 0 incs) s1 = Inr s2"
    using a n fits(1) m1 by (intro add_features_succeed) (auto simp: totals_added_def)
  then obtain s2 where s2: "rfold (add_feature mp) (enumerate 0 incs) s1 = Inr s2" ..
  have b: "totals_added incs 0 0 s1 s2 \<and> months_added mp incs 0 0 s1 s2"
    using s2 a n m1 by (intro add_features_ok) (auto simp: totals_added_def)
  have "\<exists>s3. add_overflow mp ov s2 = Inr s3"
    using fits(3) m a b by (cases mp) (auto simp: add_overflow_def Let_def month_room_def month_fits_def checked_add_Inr rbind_eq_Inr
        totals_added_def months_added_def month_added_def)
  with s1 s2 show ?thesis by (auto simp: stage_update_def)
qed

lemma prepare_month_room:
  assumes ok: "state_ok (length (ul_feature_ids l)) (ul_monthly_buckets l) s" and b: "months_within_totals s"
    and run: "prepare_month l s k = (s1, mp, outside)" and n: "length incs = length (ul_feature_ids l)"
    and fits: "\<And>i. i < length incs \<Longrightarrow> unat (ps_feature_counts s ! i) + unat (incs ! i) < 2 ^ 64"
      "unat (ps_active_seconds s) + unat active < 2 ^ 64" "unat (ps_overflow_feature_events s) + unat ov < 2 ^ 64"
  shows "month_room mp incs active ov s1"
proof -
  let ?n = "length (ul_feature_ids l)"
  obtain ms where s1: "s1 = s\<lparr>ps_months := ms\<rparr>" and fit: "month_fits mp ?n s1" and w: "window_step ?n k (ps_months s) ms"
    using prepare_month_ok [OF ok run] by blast
  have c: "length (ps_feature_counts s) = ?n" using ok by (simp add: state_ok_def)
  have le: "f m \<le> sum_list (map f (ps_months s))" if "m \<in> set ms" "f (fresh_month ?n k) = 0" for m and f :: "persisted_month \<Rightarrow> nat"
  proof -
    have "m = fresh_month ?n k \<or> m \<in> set (ps_months s)" using w that(1) by (auto simp: window_step_def)
    then show ?thesis using that(2) by (auto intro: member_le_sum_list)
  qed
  have f1: "unat (pm_feature_counts m ! i) \<le> unat (ps_feature_counts s ! i)" if "m \<in> set ms" "i < ?n" for m i
    using le [OF that(1), of "\<lambda>m. unat (pm_feature_counts m ! i)"] b that(2) c
    by (auto simp: months_within_totals_def fresh_month_def intro: order.trans)
  have f2: "unat (pm_active_seconds m) \<le> unat (ps_active_seconds s)" if "m \<in> set ms" for m
    using le [OF that, of "\<lambda>m. unat (pm_active_seconds m)"] b by (auto simp: months_within_totals_def fresh_month_def intro: order.trans)
  have f3: "unat (pm_overflow_feature_events m) \<le> unat (ps_overflow_feature_events s)" if "m \<in> set ms" for m
    using le [OF that, of "\<lambda>m. unat (pm_overflow_feature_events m)"] b
    by (auto simp: months_within_totals_def fresh_month_def intro: order.trans)
  show ?thesis unfolding month_room_def Let_def
  proof (intro allI impI)
    fix p assume "mp = Some p"
    then have mem: "ps_months s1 ! p \<in> set ms" using fit by (simp add: month_fits_def s1)
    show "(\<forall>i<length incs. unat (pm_feature_counts (ps_months s1 ! p) ! i) + unat (incs ! i) < 2 ^ 64)
      \<and> unat (pm_active_seconds (ps_months s1 ! p)) + unat active < 2 ^ 64
      \<and> unat (pm_overflow_feature_events (ps_months s1 ! p)) + unat ov < 2 ^ 64"
      using le_less_trans [OF add_le_mono1 [OF f1 [OF mem]] fits(1)] le_less_trans [OF add_le_mono1 [OF f2 [OF mem]] fits(2)]
        le_less_trans [OF add_le_mono1 [OF f3 [OF mem]] fits(3)] by (auto simp: n)
  qed
qed

lemma months_added_state_ok:
  assumes "totals_added incs active ov s1 s2 \<and> months_added mp incs active ov s1 s2" "state_ok n b s1" "month_fits mp n s1"
  shows "state_ok n b (s2\<lparr>ps_last_checkpoint := x\<rparr>)"
proof (cases mp)
  case None
  with assms show ?thesis by (simp add: state_ok_def totals_added_def counts_added_def months_added_def)
next
  case (Some p)
  obtain m' where m': "ps_months s2 = (ps_months s1)[p := m']" "month_added incs active ov (ps_months s1 ! p) m'"
    using assms(1) Some by (auto simp: months_added_def)
  have p: "p < length (ps_months s1)" using assms(3) Some by (simp add: month_fits_def)
  have "map pm_month_index (ps_months s2) = map pm_month_index (ps_months s1)"
    using m' p by (simp add: map_update month_added_def) (metis list_update_id length_map nth_map)
  moreover have "\<forall>m \<in> set (ps_months s2). length (pm_feature_counts m) = n"
    using m' p assms(2) by (auto simp: state_ok_def month_added_def counts_added_def dest!: set_update_subset_insert [THEN subsetD])
  ultimately show ?thesis using assms(1,2) m'(1) by (simp add: state_ok_def totals_added_def counts_added_def)
qed

lemma persist_succeeds:
  assumes c: "codecs_total codecs l" and s: "state_ok (length (ul_feature_ids l)) (ul_monthly_buckets l) s"
    and g: "unat (li_generation inner) + 1 < 2 ^ 64" and m: "ul_max_raw_payload_bytes l < 2 ^ 32"
  shows "\<exists>inner'. persist_locked codecs (\<lambda>_. None) partial l inner s = (Inr (), inner')"
proof -
  obtain raw compressed where r: "lc_to_vec codecs s = Inr raw" "length raw \<le> ul_max_raw_payload_bytes l"
      "lc_compress codecs raw = Inr compressed"
    using c s unfolding codecs_total_def by blast
  have v: "validate_state s (length (ul_feature_ids l)) (ul_monthly_buckets l) = Inr ()" using s by (simp add: validate_state_Inr)
  have gen: "u64_checked_add (li_generation inner) 1 = Some (li_generation inner + 1)" using g by (simp add: u64_checked_add_def)
  obtain codec payload where cp: "(if length compressed < length raw then (CODEC_ZSTD, compressed) else (CODEC_RAW, raw)) = (codec, payload)"
    by (cases "length compressed < length raw") auto
  have len: "\<not> ul_max_raw_payload_bytes l < length payload" "\<not> ul_max_raw_payload_bytes l < length raw"
    using cp r(2) by (auto split: if_splits)
  have p: "prepare_checkpoint codecs l (li_generation inner) s = Inr (raw, codec, payload, li_generation inner + 1)"
    unfolding prepare_checkpoint_def v r rbind.simps map_err_simps Let_def cp prod.case gen if_not_P [OF len(1)] if_not_P [OF len(2)]
    by simp
  have "usize_to_u32 (length payload) = Some (of_nat (length payload))" "usize_to_u32 (length raw) = Some (of_nat (length raw))"
    using m len by (simp_all add: usize_to_u32_def)
  then obtain h where h: "encode_header codecs codec (li_generation inner + 1) (length payload) (length raw) (ul_config_fingerprint l)
      (lc_crc32c codecs payload) = Inr h"
    by (simp add: encode_header_def Let_def)
  show ?thesis unfolding persist_locked_def p Let_def lio_def by (simp add: h)
qed

lemma record_batch_succeeds:
  assumes wf: "ledger_wf l" and b: "months_within_totals (li_state (ul_inner l))" and fits: "batch_fits l active updates"
    and c: "codecs_total codecs l" and np: "\<not> ul_poisoned l" and k: "ul_monthly_buckets l = 0 \<or> calendar_month_index codecs ts = Inr k"
    and g: "unat (li_generation (ul_inner l)) + 1 < 2 ^ 64" and m: "ul_max_raw_payload_bytes l < 2 ^ 32"
  shows "\<exists>l'. record_batch_at codecs (\<lambda>_. None) partial now l ts active updates = (Inr (), l')"
proof -
  let ?n = "length (ul_feature_ids l)" and ?s = "li_state (ul_inner l)"
  note fits' = fits [unfolded batch_fits_def Let_def]
  have "\<exists>r. rfold (accumulate_feature l) updates (replicate ?n 0, 0, 0) = Inr r"
    using fits' by (intro accumulate_succeeds [OF wf]) (auto intro: le_less_trans [rotated])
  then obtain incs ov c' where acc: "rfold (accumulate_feature l) updates (replicate ?n 0, 0, 0) = Inr (incs, ov, c')" by auto
  have a: "length incs = ?n" "\<And>i. i < ?n \<Longrightarrow> unat (incs ! i) = usage_of updates (ul_feature_ids l ! i)"
      "unat ov = unknown_of (ul_feature_ids l) updates"
    using accumulate_ok [OF wf _ acc] by auto
  obtain k' where k': "(if ul_monthly_buckets l = 0 then Inr 0 else calendar_month_index codecs ts) = Inr k'"
    using k by (cases "ul_monthly_buckets l = 0") auto
  obtain s1 mp outside where pm: "prepare_month l ?s k' = (s1, mp, outside)" by (cases "prepare_month l ?s k'")
  have ok: "state_ok ?n (ul_monthly_buckets l) ?s" using wf by (simp add: ledger_wf_def)
  have room: "month_room mp incs active ov s1"
    using fits' a by (intro prepare_month_room [OF ok b pm]) auto
  obtain ms where ms: "s1 = ?s\<lparr>ps_months := ms\<rparr>" "state_ok ?n (ul_monthly_buckets l) s1" "month_fits mp ?n s1"
    using prepare_month_ok [OF ok pm] by blast
  have n1: "length incs = length (ps_feature_counts s1)" using a ms(2) by (simp add: state_ok_def)
  have "\<exists>s2. stage_update mp active incs ov s1 = Inr s2"
    using fits' a room ms n1 by (intro stage_update_succeeds) auto
  then obtain s2 where s2: "stage_update mp active incs ov s1 = Inr s2" ..
  have st: "totals_added incs active ov s1 s2 \<and> months_added mp incs active ov s1 s2"
    using stage_update_ok [OF s2 n1] ms a by simp
  have ok2: "state_ok ?n (ul_monthly_buckets l) (s2\<lparr>ps_last_checkpoint := x\<rparr>)" for x
    using st ms(2,3) by (rule months_added_state_ok)
  let ?l1 = "if outside then l\<lparr>ul_monthly_updates_outside_window := ul_monthly_updates_outside_window l + 1\<rparr> else l"
  let ?s2 = "s2\<lparr>ps_last_checkpoint := max now (ps_last_checkpoint s2)\<rparr>"
  have in1: "ul_inner ?l1 = ul_inner l" by simp
  obtain inner where p: "persist_locked codecs (\<lambda>_. None) partial l (ul_inner l) ?s2 = (Inr (), inner)"
    using persist_succeeds [OF c ok2 g m] by blast
  have p1: "persist_locked codecs (\<lambda>_. None) partial ?l1 (ul_inner l) ?s2 = (Inr (), inner)"
    unfolding p [symmetric] by (rule persist_locked_cong) simp_all
  show ?thesis
  proof (cases "active = 0 \<and> ov = 0 \<and> (\<forall>v \<in> set incs. v = 0)")
    case True
    then show ?thesis unfolding record_batch_at_def Let_def acc by simp
  next
    case False
    show ?thesis unfolding record_batch_at_def Let_def acc sum.case prod.case if_not_P [OF False] k' if_not_P [OF np] pm s2 in1 p1
      by blast
  qed
qed

end
