(* ===== verification/LedgerSession.thy ===== *)
theory LedgerSession
  imports LedgerPersist LedgerAccounting
begin

text \<open>
  Sessions of the usage ledger: opening a new and an existing file, and the states that opening,
  updating and reopening can reach.
\<close>

section \<open>Checkpoints without faults\<close>

lemma persist_no_fault:
  "persist_locked codecs no_lfault partial l inner s = persist_locked codecs no_lfault HEADER_BYTES l inner s"
  unfolding persist_locked_def lio_no_fault sum.case rbind.simps by (rule refl)

lemma whole_header_rejected: "ledger_shape l \<Longrightarrow> torn_header_rejected codecs l s HEADER_BYTES"
  unfolding torn_header_rejected_def header_torn_def
proof (intro allI impI)
  fix raw codec payload g h
  assume l: "ledger_shape l"
    and e: "encode_header codecs codec g (length payload) (length raw) (ul_config_fingerprint l) (lc_crc32c codecs payload) = Inr h"
  have "length h = HEADER_BYTES" using header_fields [OF e] l by (simp add: ledger_shape_def ledger_geometry_def)
  moreover have "length (stale_header l) \<le> HEADER_BYTES" by (simp add: stale_header_def header_of_def)
  ultimately show "length (take HEADER_BYTES h @ drop HEADER_BYTES (stale_header l)) = HEADER_BYTES
      \<and> (take HEADER_BYTES h @ drop HEADER_BYTES (stale_header l) = stale_header l
        \<or> take HEADER_BYTES h @ drop HEADER_BYTES (stale_header l) = h
        \<or> header_generation codecs (take HEADER_BYTES h @ drop HEADER_BYTES (stale_header l)) = None)"
    by simp
qed

lemma persist_durable_plain:
  assumes d: "ledger_shape l" and c: "codecs_lossless codecs"
    and stale: "\<And>g. header_generation codecs (header_of l (li_file (ul_inner l)) (li_active_slot (ul_inner l))) = Some g
      \<Longrightarrow> g \<le> li_generation (ul_inner l)"
    and run: "persist_locked codecs no_lfault partial l (ul_inner l) s = (Inr (), inner)"
  shows "ledger_durable codecs (l\<lparr>ul_inner := inner\<rparr>) \<and> li_state inner = s \<and> li_generation inner = li_generation (ul_inner l) + 1"
  using persist_durable [OF d c stale whole_header_rejected [OF d] run [unfolded persist_no_fault [of codecs partial]]] by blast

text \<open>A checkpoint that is refused without a fault leaves the active slot and the other header alone.\<close>

lemma durable_file_cong:
  assumes d: "ledger_durable codecs l" and f: "length f = 2 * ul_slot_bytes l"
    and same: "region l f (li_active_slot (ul_inner l)) = region l (li_file (ul_inner l)) (li_active_slot (ul_inner l))"
    and h: "header_of l f (other_slot (li_active_slot (ul_inner l))) = stale_header l"
  shows "ledger_durable codecs (with_file l f)"
proof -
  have a: "li_active_slot (ul_inner (with_file l f)) = li_active_slot (ul_inner l)"
      "li_state (ul_inner (with_file l f)) = li_state (ul_inner l)" "li_generation (ul_inner (with_file l f)) = li_generation (ul_inner l)"
    by (simp_all add: with_file_def)
  have "slot_holds codecs (with_file l f) = slot_holds codecs l" by (simp add: slot_holds_def fun_eq_iff)
  with assms a show ?thesis by (simp add: ledger_durable_def ledger_shape_def Let_def slot_holds_def stale_header_def)
qed

lemma persist_reject_durable:
  assumes d: "ledger_durable codecs l" and run: "persist_locked codecs no_lfault partial l (ul_inner l) s = (Inl e, inner)"
  shows "ledger_durable codecs (l\<lparr>ul_inner := inner\<rparr>)"
proof (cases "prepare_checkpoint codecs l (li_generation (ul_inner l)) s")
  case (Inl e')
  with run have "inner = ul_inner l" by (simp add: persist_locked_def)
  with d show ?thesis by simp
next
  case (Inr q)
  obtain raw codec payload g where q: "q = (raw, codec, payload, g)" by (cases q)
  note ok = prepare_checkpoint_ok [OF Inr [unfolded q]]
  let ?h = "encode_header codecs codec g (length payload) (length raw) (ul_config_fingerprint l) (lc_crc32c codecs payload)"
  have "inner = (ul_inner l)\<lparr>li_file := payload_written l payload\<rparr>"
    using run [unfolded persist_locked_def Inr q Let_def lio_no_fault sum.case prod.case rbind.simps, folded other_slot_def]
    by (cases ?h) (auto simp: payload_written_def target_offset_def)
  then have "l\<lparr>ul_inner := inner\<rparr> = with_file l (payload_written l payload)" by (simp add: with_file_def)
  with d ok payload_regions [OF ledger_durable_shape [OF d], of payload] show ?thesis by (simp add: durable_file_cong)
qed

section \<open>Opening\<close>

text \<open>The sizes a configuration fixes, and that they are within the quota and what the filesystem reserved.\<close>

definition sized :: "ledger_codecs \<Rightarrow> nat \<Rightarrow> usage_config \<Rightarrow> usage_config \<Rightarrow> bytes \<Rightarrow> bool" where
  "sized codecs allocated config c raw \<longleftrightarrow> normalized config = Inr c
     \<and> lc_to_vec codecs (maximum_sized (length (uc_feature_ids c)) (uc_monthly_buckets c)) = Inr raw
     \<and> 2 * (HEADER_BYTES + length raw) \<le> allocated \<and> allocated \<le> unat (uc_max_file_bytes c) \<and> unat (uc_max_file_bytes c) < 2 ^ 64 - 1"

definition entry_bytes :: "path_entry \<Rightarrow> bytes" where
  "entry_bytes entry = (case entry of RegularFile bs \<Rightarrow> bs | _ \<Rightarrow> [])"

lemma sized_bound: "sized codecs allocated config c raw \<Longrightarrow> 2 * (HEADER_BYTES + length raw) < 2 ^ 64 - 1"
  by (simp add: sized_def)

lemma ledger_open_eq:
  assumes s: "sized codecs allocated config c raw" and e: "entry \<noteq> OtherFile"
    and f: "entry_bytes entry = [] \<or> length (entry_bytes entry) = 2 * (HEADER_BYTES + length raw)"
  defines "slot \<equiv> HEADER_BYTES + length raw"
  defines "file \<equiv> entry_bytes entry @ replicate (2 * slot - length (entry_bytes entry)) 0"
  assumes i: "(if entry_bytes entry = [] then Inr True else slots_are_pristine no_lfault file slot) = Inr initialize"
    and r: "ledger_ready codecs no_lfault partial now initialize (new_ledger codecs c (2 * slot) allocated slot (length raw) file) = (Inr u, l)"
  shows "ledger_open codecs no_lfault partial now allocated config entry = (Inr l, RegularFile (li_file (ul_inner l)))"
proof -
  have b: "sat64 (HEADER_BYTES + length raw) = slot" "sat64 (slot * SLOT_COUNT) = 2 * slot"
    using sized_bound [OF s] by (simp_all add: sat64_def slot_def SLOT_COUNT_def)
  have n: "normalized config = Inr c" "lc_to_vec codecs (maximum_sized (length (uc_feature_ids c)) (uc_monthly_buckets c)) = Inr raw"
      "(2 * slot > unat (uc_max_file_bytes c)) = False" "(allocated < 2 * slot) = False" "(allocated > unat (uc_max_file_bytes c)) = False"
    using s by (simp_all add: sized_def slot_def not_less)
  have ef: "(entry = OtherFile) = False" "(entry_bytes entry \<noteq> [] \<and> length (entry_bytes entry) \<noteq> 2 * slot) = False"
    using e f by (auto simp: slot_def)
  have is_new: "(if entry_bytes entry = [] then Inr () else Inr ()) = Inr ()" by simp
  show ?thesis
    unfolding ledger_open_def n(1,2) rbind.simps map_err_simps Let_def b n ef if_False lio_no_fault sum.case prod.case
      option.case entry_bytes_def [symmetric] file_def [symmetric] is_new i r by simp
qed

lemma sized_config: "sized codecs allocated config c raw \<Longrightarrow> config_ok c"
  unfolding sized_def normalized_Inr by blast

text \<open>A ledger that a configuration opened.\<close>

definition ledger_of :: "ledger_codecs \<Rightarrow> usage_config \<Rightarrow> bytes \<Rightarrow> usage_ledger \<Rightarrow> bool" where
  "ledger_of codecs c raw l \<longleftrightarrow> ul_feature_ids l = uc_feature_ids c \<and> ul_feature_indexes l = feature_indexes (uc_feature_ids c)
     \<and> ul_monthly_buckets l = uc_monthly_buckets c \<and> ul_policy l = uc_policy c \<and> ul_slot_bytes l = HEADER_BYTES + length raw
     \<and> ul_max_raw_payload_bytes l = length raw \<and> \<not> ul_poisoned l
     \<and> ul_config_fingerprint l = configuration_fingerprint codecs (uc_feature_ids c) (uc_monthly_buckets c) (uc_policy c)"

lemma ledger_of_new: "ledger_of codecs c raw (new_ledger codecs c n allocated (HEADER_BYTES + length raw) (length raw) file)"
  by (simp add: ledger_of_def new_ledger_def)

definition hashes :: "ledger_codecs \<Rightarrow> bool" where
  "hashes codecs \<longleftrightarrow> (\<forall>bs. length (lc_blake3 codecs bs) = 32)"

lemma ledger_of_shape:
  assumes s: "sized codecs allocated config c raw" and l: "ledger_of codecs c raw l" and h: "hashes codecs"
    and f: "length (li_file (ul_inner l)) = 2 * (HEADER_BYTES + length raw)" "li_active_slot (ul_inner l) < 2"
  shows "ledger_shape l"
proof -
  have "config_ok c" by (rule sized_config [OF s])
  with l f h sized_bound [OF s] show ?thesis
    by (simp add: ledger_shape_def ledger_geometry_def ledger_of_def config_ok_def hashes_def configuration_fingerprint_def)
qed

lemma ledger_of_wf:
  assumes s: "sized codecs allocated config c raw" and l: "ledger_of codecs c raw l"
    and st: "state_ok (length (ul_feature_ids l)) (ul_monthly_buckets l) (li_state (ul_inner l))"
  shows "ledger_wf l"
proof -
  have "config_ok c" by (rule sized_config [OF s])
  then have "distinct (uc_feature_ids c)" "\<forall>f \<in> set (uc_feature_ids c). length f \<le> MAX_FEATURE_ID_BYTES"
    by (auto simp: config_ok_def strict_sorted_iff)
  with l st show ?thesis by (simp add: ledger_wf_def ledger_of_def)
qed

text \<open>A file without a magic in either slot has no header.\<close>

lemma zero_header:
  assumes "take 8 h = replicate 8 0"
  shows "header_generation codecs h = None"
proof -
  have "replicate 8 (0 :: u8) = [0, 0, 0, 0, 0, 0, 0, 0]" by (simp add: eval_nat_numeral)
  then have "take 8 h \<noteq> LEDGER_MAGIC" using assms by (simp add: LEDGER_MAGIC_def ascii_def)
  then show ?thesis by (simp add: header_generation_def)
qed

section \<open>Resuming\<close>

text \<open>The ledger that opening makes of the slot recovery chose.\<close>

definition resumed :: "usage_ledger \<Rightarrow> bytes \<Rightarrow> recovered_slot \<Rightarrow> usage_ledger" where
  "resumed l f v = l\<lparr>ul_inner := \<lparr>li_file = f, li_state = rv_state v, li_active_slot = rv_slot v, li_generation = rv_generation v,
     li_current_generation_bytes = rv_payload_bytes v, li_compressed = rv_compressed v\<rparr>\<rparr>"

lemma recover_resumes:
  assumes d: "ledger_shape l" and f: "length f = 2 * ul_slot_bytes l" and k: "k < 2"
    and v: "read_region codecs l k (region l f k) = Valid v"
    and stale: "\<And>g. header_generation codecs (header_of l f (other_slot k)) = Some g \<Longrightarrow> g < rv_generation v"
  shows "ledger_recover codecs no_lfault (with_file l f) = Inr v \<and> ledger_durable codecs (resumed l f v)
    \<and> take 8 (region l f k) = LEDGER_MAGIC"
proof -
  note g = read_region_generation [OF v]
  have "ledger_recover codecs no_lfault (with_file l f) = Inr v"
    using d f k v stale by (intro ledger_recover_newest) (simp_all add: ledger_shape_def)
  moreover have "ledger_durable codecs (resumed l f v)"
    using d f k v g stale by (simp add: ledger_durable_def resumed_def shape_inner) (auto simp: ledger_shape_def slot_holds_def)
  moreover have "take 8 (region l f k) = LEDGER_MAGIC"
    using g by (auto simp: header_generation_def HEADER_BYTES_def split: if_splits)
  ultimately show ?thesis by blast
qed

text \<open>Every file an interrupted checkpoint can leave resumes as the state before or after it.\<close>

lemma crash_image_resumes:
  assumes d: "ledger_durable codecs l" and c: "codecs_lossless codecs" and i: "crash_image codecs l s f"
  shows "\<exists>v k. ledger_recover codecs no_lfault (with_file l f) = Inr v \<and> ledger_durable codecs (resumed l f v)
    \<and> length f = 2 * ul_slot_bytes l \<and> k < 2 \<and> take 8 (region l f k) = LEDGER_MAGIC
    \<and> (rv_state v = li_state (ul_inner l) \<and> rv_generation v = li_generation (ul_inner l)
       \<or> rv_state v = s \<and> rv_generation v = li_generation (ul_inner l) + 1)"
proof -
  note sh = ledger_durable_shape [OF d]
  let ?k = "li_active_slot (ul_inner l)"
  have k: "?k < 2" using sh by (simp add: ledger_shape_def)
  obtain v where v: "read_region codecs l ?k (region l (li_file (ul_inner l)) ?k) = Valid v"
      "rv_state v = li_state (ul_inner l)" "rv_generation v = li_generation (ul_inner l)"
    using d by (auto simp: ledger_durable_def Let_def slot_holds_def)
  have stale: "header_generation codecs (stale_header l) = Some g \<Longrightarrow> g < rv_generation v" for g
    using d v(3) by (auto simp: ledger_durable_def Let_def stale_header_def)
  have old: ?thesis if "length f = 2 * ul_slot_bytes l" "region l f ?k = region l (li_file (ul_inner l)) ?k"
    "header_of l f (other_slot ?k) = stale_header l \<or> header_generation codecs (header_of l f (other_slot ?k)) = None"
    using recover_resumes [OF sh that(1) k, of codecs v] that v stale k by (intro exI [of _ v] exI [of _ ?k]) auto
  show ?thesis using i
  proof cases
    case untouched
    with sh show ?thesis by (intro old) (simp_all add: ledger_shape_def stale_header_def)
  next
    case (payload junk)
    with payload_regions [OF sh payload(2)] show ?thesis by (intro old) simp_all
  next
    case (header raw codec payload g h h')
    have "length payload \<le> ul_max_raw_payload_bytes l" using prepare_checkpoint_ok [OF header(2)] by simp
    note r = header_regions [OF sh this, of h', folded header(1)]
    show ?thesis
    proof (cases "h' = h")
      case True
      have st: "g' \<le> li_generation (ul_inner l)"
        if "header_generation codecs (header_of l (li_file (ul_inner l)) ?k) = Some g'" for g'
        using that active_generation [OF d] by simp
      note rc = recover_checkpoint [OF sh c st header(2,3), folded True, folded header(1)]
      obtain w where w: "read_region codecs l (other_slot ?k) (region l f (other_slot ?k)) = Valid w"
          "rv_state w = s" "rv_generation w = li_generation (ul_inner l) + 1"
        using rc(2) by blast
      have k': "other_slot ?k < 2" using k by simp
      show ?thesis
        using recover_resumes [OF sh rc(1) k' w(1)] rc(1,3) w k' by (intro exI [of _ w] exI [of _ "other_slot ?k"]) auto
    next
      case False
      with header(4) r show ?thesis by (intro old) (auto simp: header_torn_def)
    qed
  qed
qed

section \<open>Opening a new and an existing file\<close>

lemma ledger_recover_cong:
  assumes "ul_feature_ids l = ul_feature_ids l'" "ul_monthly_buckets l = ul_monthly_buckets l'"
    "ul_config_fingerprint l = ul_config_fingerprint l'" "ul_max_raw_payload_bytes l = ul_max_raw_payload_bytes l'"
    "ul_slot_bytes l = ul_slot_bytes l'" "ul_poisoned l = ul_poisoned l'" "li_file (ul_inner l) = li_file (ul_inner l')"
  shows "ledger_recover codecs fault l = ledger_recover codecs fault l'"
proof -
  have "recover_slot codecs fault l = recover_slot codecs fault l'" by (intro ext) (simp only: recover_slot_def assms)
  then show ?thesis by (simp only: ledger_recover_def assms)
qed

lemma not_pristine:
  assumes f: "length f = 2 * slot" and s: "8 \<le> slot" "2 * slot < 2 ^ 64" and k: "k < 2"
    and m: "take 8 (slice (k * slot) (k * slot + slot) f) = LEDGER_MAGIC"
  shows "slots_are_pristine no_lfault f slot = Inr False"
proof -
  have l8: "length LEDGER_MAGIC = 8" by (simp add: LEDGER_MAGIC_def)
  have rd: "read_at no_lfault op f (sat64 (slot * i)) (length LEDGER_MAGIC) = Inr (slice (i * slot) (i * slot + 8) f)" if "i < 2" for op i
    using that f s by (elim slot_cases) (simp_all add: read_at_def sat64_def l8)
  have "slice (k * slot) (k * slot + 8) f = LEDGER_MAGIC"
    using m s(1) by (simp add: slice_def take_take min_def)
  moreover have "\<not> (\<forall>b \<in> set LEDGER_MAGIC. b = 0)" by (simp add: LEDGER_MAGIC_def ascii_def)
  moreover have "[0..<SLOT_COUNT] = [0, 1]" by (simp add: SLOT_COUNT_def upt_rec)
  ultimately show ?thesis using k
    by (elim slot_cases) (auto simp: slots_are_pristine_def slot_pristine_def rd [where i = 0, simplified] rd [where i = "Suc 0", simplified])
qed

lemma ledger_open_resumes:
  assumes s: "sized codecs allocated config c raw" and l: "ledger_of codecs c raw l" and f: "length f = 2 * ul_slot_bytes l"
    and v: "ledger_recover codecs no_lfault (with_file l f) = Inr v" and k: "k < 2" and m: "take 8 (region l f k) = LEDGER_MAGIC"
  shows "\<exists>l'. ledger_open codecs no_lfault partial now allocated config (RegularFile f) = (Inr l', RegularFile f)
    \<and> ledger_of codecs c raw l' \<and> ul_inner l' = ul_inner (resumed l f v)"
proof -
  let ?slot = "HEADER_BYTES + length raw" and ?n = "new_ledger codecs c (2 * (HEADER_BYTES + length raw)) allocated (HEADER_BYTES + length raw) (length raw) f"
  have slot: "ul_slot_bytes l = ?slot" using l by (simp add: ledger_of_def)
  have ne: "f \<noteq> []" using f slot by (auto simp: HEADER_BYTES_def)
  have "slots_are_pristine no_lfault f ?slot = Inr False"
    using f slot k m sized_bound [OF s] by (intro not_pristine) (simp_all add: HEADER_BYTES_def region_def)
  then have i: "(if entry_bytes (RegularFile f) = [] then Inr True else slots_are_pristine no_lfault
      (entry_bytes (RegularFile f) @ replicate (2 * ?slot - length (entry_bytes (RegularFile f))) 0) ?slot) = Inr False"
    using ne f slot by (simp add: entry_bytes_def)
  have "ledger_recover codecs no_lfault ?n = ledger_recover codecs no_lfault (with_file l f)"
    using l by (intro ledger_recover_cong) (simp_all add: new_ledger_def ledger_of_def with_file_def)
  then have rd: "ledger_ready codecs no_lfault partial now False ?n = (Inr (), resumed ?n f v)"
    using v by (simp add: ledger_ready_def resumed_def) (simp add: new_ledger_def)
  have r: "ledger_ready codecs no_lfault partial now False (new_ledger codecs c (2 * ?slot) allocated ?slot (length raw)
      (entry_bytes (RegularFile f) @ replicate (2 * ?slot - length (entry_bytes (RegularFile f))) 0)) = (Inr (), resumed ?n f v)"
    using rd f slot by (simp add: entry_bytes_def)
  have "ledger_open codecs no_lfault partial now allocated config (RegularFile f)
      = (Inr (resumed ?n f v), RegularFile (li_file (ul_inner (resumed ?n f v))))"
    using f slot by (intro ledger_open_eq [OF s _ _ i r]) (simp_all add: entry_bytes_def)
  moreover have "ledger_of codecs c raw (resumed ?n f v)"
    using ledger_of_new [of codecs c raw _ allocated f] by (simp add: ledger_of_def resumed_def)
  ultimately show ?thesis by (intro exI [of _ "resumed ?n f v"]) (simp add: resumed_def)
qed

lemma ledger_open_fails:
  assumes s: "sized codecs allocated config c raw" and e: "entry \<noteq> OtherFile" "entry_bytes entry = []"
    and r: "ledger_ready codecs no_lfault partial now True (new_ledger codecs c (2 * (HEADER_BYTES + length raw)) allocated
      (HEADER_BYTES + length raw) (length raw) (replicate (2 * (HEADER_BYTES + length raw)) 0)) = (Inl err, l)"
  shows "fst (ledger_open codecs no_lfault partial now allocated config entry) = Inl err"
proof -
  have b: "sat64 (HEADER_BYTES + length raw) = HEADER_BYTES + length raw"
      "sat64 ((HEADER_BYTES + length raw) * SLOT_COUNT) = 2 * (HEADER_BYTES + length raw)"
    using sized_bound [OF s] by (simp_all add: sat64_def SLOT_COUNT_def)
  have n: "normalized config = Inr c" "lc_to_vec codecs (maximum_sized (length (uc_feature_ids c)) (uc_monthly_buckets c)) = Inr raw"
      "(2 * (HEADER_BYTES + length raw) > unat (uc_max_file_bytes c)) = False" "(allocated < 2 * (HEADER_BYTES + length raw)) = False"
      "(allocated > unat (uc_max_file_bytes c)) = False"
    using s by (simp_all add: sized_def not_less)
  have ef: "(entry = OtherFile) = False" "([] \<noteq> [] \<and> length [] \<noteq> 2 * (HEADER_BYTES + length raw)) = False"
      "[] @ replicate (2 * (HEADER_BYTES + length raw) - length []) (0 :: u8) = replicate (2 * (HEADER_BYTES + length raw)) 0"
    using e by simp_all
  show ?thesis
    unfolding ledger_open_def n(1,2) rbind.simps map_err_simps Let_def b n ef(1) if_False lio_no_fault sum.case prod.case
      option.case entry_bytes_def [symmetric] e(2) ef(2,3) refl if_True by (simp add: clean_up_failed_open_def r [simplified])
qed

lemma ledger_open_fresh:
  assumes s: "sized codecs allocated config c raw" and e: "entry = Absent \<or> entry = RegularFile []"
    and c: "codecs_lossless codecs" and h: "hashes codecs"
    and run: "ledger_open codecs no_lfault partial now allocated config entry = (Inr l, e')"
  shows "ledger_of codecs c raw l \<and> ledger_durable codecs l \<and> e' = RegularFile (li_file (ul_inner l))
    \<and> li_state (ul_inner l) = (state_empty (length (uc_feature_ids c)))\<lparr>ps_last_checkpoint := now\<rparr>
    \<and> li_generation (ul_inner l) = 1"
proof -
  let ?slot = "HEADER_BYTES + length raw"
  let ?f = "replicate (2 * (HEADER_BYTES + length raw)) (0 :: u8)"
  let ?n = "new_ledger codecs c (2 * (HEADER_BYTES + length raw)) allocated (HEADER_BYTES + length raw) (length raw) ?f"
  let ?e = "state_empty (length (ul_feature_ids ?n))"
  let ?l = "?n\<lparr>ul_inner := (ul_inner ?n)\<lparr>li_state := ?e\<rparr>\<rparr>" and ?s = "?e\<lparr>ps_last_checkpoint := now\<rparr>"
  have lof: "ledger_of codecs c raw ?l" using ledger_of_new [of codecs c raw _ allocated ?f] by (simp add: ledger_of_def)
  have sh: "ledger_shape ?l" by (rule ledger_of_shape [OF s lof h]) (simp_all add: new_ledger_def)
  have zero: "header_generation codecs (header_of ?l (li_file (ul_inner ?l)) (li_active_slot (ul_inner ?l))) = None"
    by (rule zero_header) (simp add: header_of_def region_def new_ledger_def slice_def HEADER_BYTES_def)
  obtain r inner where p: "persist_locked codecs no_lfault partial ?n (ul_inner ?l) ?s = (r, inner)" by fastforce
  have p': "persist_locked codecs no_lfault partial ?l (ul_inner ?l) ?s = (r, inner)"
    unfolding p [symmetric] by (rule persist_locked_cong) simp_all
  have ready: "ledger_ready codecs no_lfault partial now True ?n = (r, ?n\<lparr>ul_inner := inner\<rparr>)"
    using p by (simp add: ledger_ready_def Let_def)
  have eb: "entry_bytes entry = []" "entry \<noteq> OtherFile" using e by (auto simp: entry_bytes_def)
  have "r = Inr ()"
  proof (cases r)
    case (Inl err)
    show ?thesis using run ledger_open_fails [OF s eb(2,1) ready [unfolded Inl]] by simp
  qed simp
  note ready' = ready [unfolded this]
  have r2: "ledger_ready codecs no_lfault partial now True (new_ledger codecs c (2 * ?slot) allocated ?slot (length raw)
      (entry_bytes entry @ replicate (2 * ?slot - length (entry_bytes entry)) 0)) = (Inr (), ?n\<lparr>ul_inner := inner\<rparr>)"
    using ready' eb by simp
  have i: "(if entry_bytes entry = [] then Inr True else slots_are_pristine no_lfault
      (entry_bytes entry @ replicate (2 * ?slot - length (entry_bytes entry)) 0) ?slot) = Inr True" using eb by simp
  have l: "l = ?l\<lparr>ul_inner := inner\<rparr>" "e' = RegularFile (li_file (ul_inner l))"
    using run ledger_open_eq [OF s eb(2) _ i r2] eb by auto
  have d: "ledger_durable codecs l \<and> li_state inner = ?s \<and> li_generation inner = li_generation (ul_inner ?l) + 1"
    using persist_durable_plain [OF sh c _ p' [unfolded \<open>r = Inr ()\<close>]] zero by (simp add: l)
  moreover have "ledger_of codecs c raw l" using lof by (simp add: l ledger_of_def)
  ultimately show ?thesis using l by (simp add: new_ledger_def)
qed

lemma state_ok_empty: "state_ok n b ((state_empty n)\<lparr>ps_last_checkpoint := now\<rparr>)"
  by (simp add: state_ok_def state_empty_def)

lemma codecs_total_cong:
  "ledger_of codecs c raw l \<Longrightarrow> ledger_of codecs c raw l' \<Longrightarrow> codecs_total codecs l = codecs_total codecs l'"
  by (simp add: codecs_total_def ledger_of_def)

lemma ledger_open_succeeds:
  assumes s: "sized codecs allocated config c raw" and e: "entry = Absent \<or> entry = RegularFile []"
    and l: "ledger_of codecs c raw l" and t: "codecs_total codecs l" and m: "length raw < 2 ^ 32"
  shows "\<exists>l e'. ledger_open codecs no_lfault partial now allocated config entry = (Inr l, e')"
proof -
  let ?slot = "HEADER_BYTES + length raw" and ?f = "replicate (2 * (HEADER_BYTES + length raw)) (0 :: u8)"
  let ?n = "new_ledger codecs c (2 * (HEADER_BYTES + length raw)) allocated (HEADER_BYTES + length raw) (length raw) ?f"
  let ?e = "state_empty (length (ul_feature_ids ?n))"
  have eb: "entry_bytes entry = []" "entry \<noteq> OtherFile" using e by (auto simp: entry_bytes_def)
  have "\<exists>inner. persist_locked codecs no_lfault partial ?n ((ul_inner ?n)\<lparr>li_state := ?e\<rparr>) (?e\<lparr>ps_last_checkpoint := now\<rparr>) = (Inr (), inner)"
  proof (rule persist_succeeds)
    show "codecs_total codecs ?n" using t codecs_total_cong [OF l ledger_of_new] by simp
    show "state_ok (length (ul_feature_ids ?n)) (ul_monthly_buckets ?n) (?e\<lparr>ps_last_checkpoint := now\<rparr>)" by (rule state_ok_empty)
  qed (use m in \<open>simp_all add: new_ledger_def\<close>)
  then obtain inner where p: "persist_locked codecs no_lfault partial ?n ((ul_inner ?n)\<lparr>li_state := ?e\<rparr>)
      (?e\<lparr>ps_last_checkpoint := now\<rparr>) = (Inr (), inner)" ..
  have r: "ledger_ready codecs no_lfault partial now True (new_ledger codecs c (2 * ?slot) allocated ?slot (length raw)
      (entry_bytes entry @ replicate (2 * ?slot - length (entry_bytes entry)) 0)) = (Inr (), ?n\<lparr>ul_inner := inner\<rparr>)"
    using p eb by (simp add: ledger_ready_def Let_def)
  have i: "(if entry_bytes entry = [] then Inr True else slots_are_pristine no_lfault
      (entry_bytes entry @ replicate (2 * ?slot - length (entry_bytes entry)) 0) ?slot) = Inr True" using eb by simp
  from ledger_open_eq [OF s eb(2) _ i r] eb show ?thesis by auto
qed

section \<open>Runs\<close>

text \<open>
  A run opens a new file and then records batches, accepted or rejected, and at any time loses the
  process in the middle of a checkpoint and opens what is left of the file.
\<close>

inductive ledger_run :: "ledger_codecs \<Rightarrow> nat \<Rightarrow> usage_config \<Rightarrow> usage_ledger \<Rightarrow> bool"
  for codecs allocated config where
  opened: "entry = Absent \<or> entry = RegularFile [] \<Longrightarrow>
    ledger_open codecs no_lfault partial now allocated config entry = (Inr l, e) \<Longrightarrow> ledger_run codecs allocated config l"
| recorded: "ledger_run codecs allocated config l \<Longrightarrow>
    record_batch_at codecs no_lfault partial now l ts active updates = (r, l') \<Longrightarrow> ledger_run codecs allocated config l'"
| crashed: "ledger_run codecs allocated config l \<Longrightarrow> batch_stages codecs now l ts active updates s \<Longrightarrow> crash_image codecs l s f \<Longrightarrow>
    ledger_open codecs no_lfault partial now' allocated config (RegularFile f) = (Inr l', e) \<Longrightarrow> ledger_run codecs allocated config l'"

definition ledger_inv :: "ledger_codecs \<Rightarrow> usage_config \<Rightarrow> bytes \<Rightarrow> usage_ledger \<Rightarrow> bool" where
  "ledger_inv codecs c raw l \<longleftrightarrow> ledger_of codecs c raw l \<and> ledger_durable codecs l \<and> ledger_wf l
     \<and> months_within_totals (li_state (ul_inner l))"

lemma durable_state_ok:
  "ledger_durable codecs l \<Longrightarrow> state_ok (length (ul_feature_ids l)) (ul_monthly_buckets l) (li_state (ul_inner l))"
  by (auto simp: ledger_durable_def Let_def slot_holds_def dest!: read_region_generation)

lemma batch_stages_ok:
  assumes wf: "ledger_wf l" and b: "months_within_totals (li_state (ul_inner l))" and st: "batch_stages codecs now l ts active updates s"
  shows "months_within_totals s"
proof -
  let ?s = "li_state (ul_inner l)" and ?n = "length (ul_feature_ids l)"
  obtain incs ov c k s1 mp outside s2
    where a: "rfold (accumulate_feature l) updates (replicate ?n 0, 0, 0) = Inr (incs, ov, c)"
      "prepare_month l ?s k = (s1, mp, outside)" "stage_update mp active incs ov s1 = Inr s2"
      and s: "s = s2\<lparr>ps_last_checkpoint := max now (ps_last_checkpoint s2)\<rparr>"
    using st unfolding batch_stages_def by blast
  have ok: "state_ok ?n (ul_monthly_buckets l) ?s" using wf by (simp add: ledger_wf_def)
  have "months_within_totals s2" using stage_effect [OF wf a] months_within_totals_step [OF ok b] by blast
  then show ?thesis by (simp add: s months_within_totals_def)
qed

text \<open>Durability depends on the configuration and the inner state only.\<close>

lemma durable_cong:
  assumes d: "ledger_durable codecs l" and c: "same_config l l'" and i: "ul_inner l' = ul_inner l"
  shows "ledger_durable codecs l'"
proof -
  note c' = c [unfolded same_config_def]
  have r: "read_region codecs l = read_region codecs l'" using c' by (intro read_region_cong) simp_all
  have g: "region l = region l'" "ledger_geometry l = ledger_geometry l'"
    using c' by (simp_all add: region_def ledger_geometry_def fun_eq_iff)
  show ?thesis using d c' i unfolding ledger_durable_def ledger_shape_def slot_holds_def header_of_def r g by simp
qed

lemma same_config_ledger_of: "same_config l l' \<Longrightarrow> ledger_of codecs c raw l' = ledger_of codecs c raw l"
  by (auto simp: same_config_def ledger_of_def)

lemma durable_set_inner:
  "ledger_durable codecs (l\<lparr>ul_inner := inner\<rparr>) \<Longrightarrow> same_config l l' \<Longrightarrow> ul_inner l' = inner \<Longrightarrow> ledger_durable codecs l'"
  by (erule durable_cong) (simp_all add: same_config_def)

lemma record_batch_inv:
  assumes inv: "ledger_inv codecs c raw l" and c: "codecs_lossless codecs"
    and run: "record_batch_at codecs no_lfault partial now l ts active updates = (r, l')"
  shows "ledger_inv codecs c raw l'"
proof (cases r)
  case (Inl e)
  note err = record_batch_error [OF run [unfolded Inl]]
  have inv': "ledger_of codecs c raw l" "ledger_durable codecs l" "ledger_wf l" "months_within_totals (li_state (ul_inner l))"
    using inv by (auto simp: ledger_inv_def)
  have d: "ledger_durable codecs l'" using err durable_cong [OF inv'(2)] persist_reject_durable [OF inv'(2)] durable_set_inner by blast
  have "li_state (ul_inner l') = li_state (ul_inner l)"
    using arg_cong [OF record_batch_error_state [OF run [unfolded Inl]], of li_state] by simp
  with inv' err d same_config_ledger_of [of l l'] show ?thesis by (simp add: ledger_inv_def ledger_wf_def) (simp add: same_config_def)
next
  case (Inr u)
  have wf: "ledger_wf l" and d: "ledger_durable codecs l" and b: "months_within_totals (li_state (ul_inner l))"
    and lof: "ledger_of codecs c raw l" using inv by (auto simp: ledger_inv_def)
  from run [unfolded Inr] show ?thesis unfolding unit_eq [of u]
  proof (cases rule: record_batch_cases)
    case 1
    with inv show ?thesis by simp
  next
    case (2 incs ov ct k s1 mp outside s2 inner)
    let ?s = "s2\<lparr>ps_last_checkpoint := max now (ps_last_checkpoint s2)\<rparr>"
    have "batch_stages codecs now l ts active updates ?s" unfolding batch_stages_def using 2 by blast
    then have m: "months_within_totals ?s" by (rule batch_stages_ok [OF wf b])
    have st: "g \<le> li_generation (ul_inner l)"
      if "header_generation codecs (header_of l (li_file (ul_inner l)) (li_active_slot (ul_inner l))) = Some g" for g
      using that active_generation [OF d] by simp
    note p = persist_durable_plain [OF ledger_durable_shape [OF d] c st 2(5)]
    have d': "ledger_durable codecs l'"
      by (rule durable_set_inner [OF conjunct1 [OF p]]) (simp_all add: 2(6) same_config_def)
    have "ledger_of codecs c raw l'" using lof unfolding 2(6) by (simp add: ledger_of_def)
    moreover have "ledger_wf l'" unfolding 2(6) ledger_wf_inner using wf durable_state_ok [OF d'] 2(6) by (simp add: ledger_wf_def)
    ultimately show ?thesis using d' m p 2(6) by (simp add: ledger_inv_def)
  qed
qed

lemma ledger_run_inv:
  assumes s: "sized codecs allocated config c raw" and c: "codecs_lossless codecs" and h: "hashes codecs"
    and run: "ledger_run codecs allocated config l"
  shows "ledger_inv codecs c raw l"
  using run
proof induction
  case (opened entry partial now l e)
  note o = ledger_open_fresh [OF s opened(1) c h opened(2)]
  then have "ledger_wf l" using ledger_of_wf [OF s] durable_state_ok by blast
  with o show ?case by (simp add: ledger_inv_def months_within_totals_def state_empty_def)
next
  case (recorded l partial now ts active updates r l')
  from record_batch_inv [OF recorded.IH c recorded.hyps(2)] show ?case .
next
  case (crashed l now ts active updates s f partial now' l' e)
  have inv: "ledger_of codecs c raw l" "ledger_durable codecs l" "ledger_wf l" "months_within_totals (li_state (ul_inner l))"
    using crashed.IH by (auto simp: ledger_inv_def)
  have m: "months_within_totals s" by (rule batch_stages_ok [OF inv(3,4) crashed.hyps(2)])
  obtain v k where v: "ledger_recover codecs no_lfault (with_file l f) = Inr v" "ledger_durable codecs (resumed l f v)"
      "length f = 2 * ul_slot_bytes l" "k < 2" "take 8 (region l f k) = LEDGER_MAGIC"
      "rv_state v = li_state (ul_inner l) \<or> rv_state v = s"
    using crash_image_resumes [OF inv(2) c crashed.hyps(3)] by blast
  have l': "ledger_of codecs c raw l'" "ul_inner l' = ul_inner (resumed l f v)"
    using ledger_open_resumes [OF s inv(1) v(3,1,4,5), of partial now'] crashed.hyps(4) by auto
  have d: "ledger_durable codecs l'"
    by (rule durable_cong [OF v(2)]) (use l' inv(1) in \<open>simp_all add: ledger_of_def resumed_def same_config_def\<close>)
  moreover have "months_within_totals (li_state (ul_inner l'))" using v(6) m inv(4) l'(2) by (auto simp: resumed_def)
  ultimately show ?case using l'(1) ledger_of_wf [OF s l'(1) durable_state_ok [OF d]] by (simp add: ledger_inv_def)
qed

end
