(* ===== verification/LedgerGuarantees.thy ===== *)
theory LedgerGuarantees
  imports LedgerSession
begin

text \<open>
  What the usage ledger guarantees its callers, with a codec that shows the assumptions on the
  external libraries to be satisfiable.
\<close>

section \<open>A concrete codec\<close>

text \<open>Every field as a little-endian 64-bit word, sequences with their length first, no compression.\<close>

definition words_of_month :: "persisted_month \<Rightarrow> u64 list" where
  "words_of_month m = ucast (pm_month_index m) # pm_active_seconds m # pm_overflow_feature_events m
     # of_nat (length (pm_feature_counts m)) # pm_feature_counts m"

definition words_of_state :: "persisted_state \<Rightarrow> u64 list" where
  "words_of_state s = ps_active_seconds s # ps_overflow_feature_events s # ps_last_checkpoint s
     # of_nat (length (ps_feature_counts s)) # ps_feature_counts s
     @ of_nat (length (ps_months s)) # concat (map words_of_month (ps_months s))"

definition plain_to_vec :: "persisted_state \<Rightarrow> string + bytes" where
  "plain_to_vec s =
     (if length (ps_feature_counts s) < 2 ^ 64 \<and> length (ps_months s) < 2 ^ 64
         \<and> (\<forall>m \<in> set (ps_months s). length (pm_feature_counts m) < 2 ^ 64)
      then Inr (concat (map u64_le (words_of_state s))) else Inl ''sequence too long'')"

function words_from :: "bytes \<Rightarrow> u64 list" where
  "words_from bs = (if length bs < 8 then [] else from_le (take 8 bs) # words_from (drop 8 bs))"
  by auto
termination
  by (relation "measure length") auto

declare words_from.simps [simp del]

fun read_months :: "nat \<Rightarrow> u64 list \<Rightarrow> persisted_month list" where
  "read_months (Suc k) (i # a # o' # n # ws) =
     \<lparr>pm_month_index = ucast i, pm_feature_counts = take (unat n) ws, pm_active_seconds = a,
      pm_overflow_feature_events = o'\<rparr> # read_months k (drop (unat n) ws)"
| "read_months _ _ = []"

fun read_state :: "u64 list \<Rightarrow> persisted_state option" where
  "read_state (a # o' # t # n # ws) = (case drop (unat n) ws of
       k # ms \<Rightarrow> Some \<lparr>ps_feature_counts = take (unat n) ws, ps_active_seconds = a, ps_overflow_feature_events = o',
         ps_months = read_months (unat k) ms, ps_last_checkpoint = t\<rparr>
     | [] \<Rightarrow> None)"
| "read_state _ = None"

definition plain_codecs :: ledger_codecs where
  "plain_codecs = \<lparr>lc_to_vec = plain_to_vec,
     lc_parse = (\<lambda>bs. case read_state (words_from bs) of Some s \<Rightarrow> Inr (raw_state_of s) | None \<Rightarrow> Inl ''truncated''),
     lc_compress = Inr, lc_decompress = (\<lambda>bs _. Inr bs), lc_crc32c = (\<lambda>bs. of_nat (sum_list (map unat bs))),
     lc_blake3 = (\<lambda>bs. replicate 32 (of_nat (length bs))),
     lc_civil = (\<lambda>t. Some (1970 + t div 31557600, of_int (t mod 31557600 div 2629800 + 1)))\<rparr>"

lemma words_from_concat: "words_from (concat (map u64_le ws)) = ws"
proof (induction ws)
  case (Cons w ws)
  then show ?case by (subst words_from.simps) simp
qed (simp add: words_from.simps)

lemma ucast_ucast_u32: "ucast (ucast (w :: u32) :: u64) = w"
  by transfer simp

lemma read_months_words:
  "\<forall>m \<in> set ms. length (pm_feature_counts m) < 2 ^ 64 \<Longrightarrow> read_months (length ms) (concat (map words_of_month ms)) = ms"
  by (induction ms) (auto simp: words_of_month_def unat_of_nat_u64 ucast_ucast_u32)

lemma plain_lossless: "codecs_lossless plain_codecs"
proof -
  have "read_state (words_of_state s) = Some s" if "plain_to_vec s = Inr raw" for s raw
    using that by (auto simp: plain_to_vec_def words_of_state_def unat_of_nat_u64 unat_of_nat take_bit_nat_eq_self read_months_words split: if_splits)
  then show ?thesis
    by (auto simp: codecs_lossless_def plain_codecs_def words_from_concat plain_to_vec_def split: if_splits)
qed

lemma plain_hashes: "hashes plain_codecs"
  by (simp add: hashes_def plain_codecs_def)

section \<open>Guarantees\<close>

lemma snapshot_cong:
  "ul_feature_ids l' = ul_feature_ids l \<Longrightarrow> ul_poisoned l' = ul_poisoned l \<Longrightarrow> li_state (ul_inner l') = li_state (ul_inner l)
   \<Longrightarrow> li_generation (ul_inner l') = li_generation (ul_inner l) \<Longrightarrow> snapshot l' = snapshot l"
  by (simp add: snapshot_def public_snapshot_def Let_def)


text \<open>
  C30: a ledger can always be reopened. Closing it at any point of a run and opening the same file with
  the same configuration succeeds, and the snapshot is the one it had.
\<close>

theorem usage_reopen:
  assumes s: "sized codecs allocated config c raw" and c: "codecs_lossless codecs" and h: "hashes codecs"
    and run: "ledger_run codecs allocated config l"
  shows "\<exists>l'. ledger_open codecs no_lfault partial now' allocated config (RegularFile (li_file (ul_inner l)))
      = (Inr l', RegularFile (li_file (ul_inner l))) \<and> snapshot l' = snapshot l"
proof -
  note inv = ledger_run_inv [OF s c h run, unfolded ledger_inv_def]
  then have lof: "ledger_of codecs c raw l" and d: "ledger_durable codecs l" by auto
  let ?f = "li_file (ul_inner l)" and ?k = "li_active_slot (ul_inner l)"
  obtain v where v: "read_region codecs l ?k (region l ?f ?k) = Valid v" "rv_state v = li_state (ul_inner l)"
      "rv_generation v = li_generation (ul_inner l)"
    using d by (auto simp: ledger_durable_def Let_def slot_holds_def)
  have k: "?k < 2" "length ?f = 2 * ul_slot_bytes l" using d by (auto simp: ledger_durable_def ledger_shape_def)
  have r: "ledger_recover codecs no_lfault (with_file l ?f) = Inr v" "take 8 (region l ?f ?k) = LEDGER_MAGIC"
    using recover_resumes [OF ledger_durable_shape [OF d] k(2,1) v(1)] d v(3) by (auto simp: ledger_durable_def Let_def)
  obtain l' where "ledger_open codecs no_lfault partial now' allocated config (RegularFile ?f) = (Inr l', RegularFile ?f)"
      "ledger_of codecs c raw l'" "ul_inner l' = ul_inner (resumed l ?f v)"
    using ledger_open_resumes [OF s lof k(2) r(1) k(1) r(2), of partial now'] by auto
  moreover from this have "snapshot l' = snapshot l" using lof v by (intro snapshot_cong) (auto simp: resumed_def ledger_of_def)
  ultimately show ?thesis by blast
qed

text \<open>
  C7: a recorded batch is counted exactly. Every registered feature gains the sum of its increments in
  the batch, the overflow counter the sum of all others, and the active seconds those of the batch;
  no counter wraps around.
\<close>

theorem usage_batch_exact:
  assumes wf: "ledger_wf l" and run: "record_batch_at codecs fault partial now l ts active updates = (Inr (), l')"
  shows "(\<forall>i < length (ul_feature_ids l). unat (ps_feature_counts (li_state (ul_inner l')) ! i)
        = unat (ps_feature_counts (li_state (ul_inner l)) ! i) + usage_of updates (ul_feature_ids l ! i))
    \<and> unat (ps_active_seconds (li_state (ul_inner l'))) = unat (ps_active_seconds (li_state (ul_inner l))) + unat active
    \<and> unat (ps_overflow_feature_events (li_state (ul_inner l')))
        = unat (ps_overflow_feature_events (li_state (ul_inner l))) + unknown_of (ul_feature_ids l) updates
    \<and> (ul_policy l = Reject \<longrightarrow> unknown_of (ul_feature_ids l) updates = 0)"
proof -
  let ?n = "length (ul_feature_ids l)"
  have n: "length (ps_feature_counts (li_state (ul_inner l))) = ?n" using wf by (simp add: ledger_wf_def state_ok_def)
  have rej: "ul_policy l = Reject \<longrightarrow> unknown_of (ul_feature_ids l) updates = 0"
    if "rfold (accumulate_feature l) updates (replicate ?n 0, 0, 0) = Inr (incs, ov, c)" for incs ov c
    using accumulate_ok [OF wf _ that] by (force simp: unknown_of_def)
  from wf run show ?thesis
  proof (cases rule: record_batch_effect)
    case (1 incs ov c)
    have z: "unat (incs ! i) = 0" if "i < ?n" for i using 1(2,6) that by (metis nth_mem unsigned_0)
    show ?thesis using accumulate_ok [OF wf _ 1(1)] rej [OF 1(1)] 1 z by simp
  next
    case (2 incs ov c k s2)
    then show ?thesis using accumulate_ok [OF wf _ 2(1)] rej [OF 2(1)] n by (simp add: totals_added_def counts_added_def)
  qed
qed

text \<open>
  C8: a batch that fits is always recorded. In any run, when the batch has at most 4096 updates of
  features the policy accepts, no total would pass the 64-bit range, the timestamp has a calendar
  month and generations are left, recording it succeeds; in particular the months never get in the
  way, because their counters stay below the totals.
\<close>

theorem usage_batch_recorded:
  assumes s: "sized codecs allocated config c raw" and c: "codecs_lossless codecs" and h: "hashes codecs"
    and run: "ledger_run codecs allocated config l" and t: "codecs_total codecs l" and m: "length raw < 2 ^ 32"
    and fits: "batch_fits l active updates" and g: "unat (li_generation (ul_inner l)) + 1 < 2 ^ 64"
    and k: "ul_monthly_buckets l = 0 \<or> calendar_month_index codecs ts = Inr k"
  shows "\<exists>l'. record_batch_at codecs no_lfault partial now l ts active updates = (Inr (), l')"
proof -
  note inv = ledger_run_inv [OF s c h run, unfolded ledger_inv_def]
  then have "\<not> ul_poisoned l" "ul_max_raw_payload_bytes l = length raw" by (auto simp: ledger_of_def)
  with inv m show ?thesis by (intro record_batch_succeeds [OF _ _ fits t _ k g]) auto
qed


text \<open>
  C39: the one failure that is visible later. When only the last sync of a checkpoint fails, the caller
  gets an error and the ledger in memory keeps the old state, but the file already holds the new
  generation: recovery returns the state that was reported as not recorded.
\<close>

theorem usage_failed_sync_recovers_new:
  assumes d: "ledger_durable codecs l" and c: "codecs_lossless codecs"
    and run: "persist_locked codecs no_lfault partial l (ul_inner l) s = (Inr (), inner)"
    and fault: "fault = (\<lambda>op. if op = ''sync header'' then Some e else None)"
  shows "\<exists>inner'. persist_locked codecs fault partial l (ul_inner l) s = (Inl (ledger_io e), inner')
    \<and> li_state inner' = li_state (ul_inner l) \<and> li_generation inner' = li_generation (ul_inner l)
    \<and> (\<exists>v. ledger_recover codecs no_lfault (l\<lparr>ul_inner := inner'\<rparr>) = Inr v \<and> rv_state v = s
        \<and> rv_generation v = li_generation (ul_inner l) + 1)"
proof -
  note sh = ledger_durable_shape [OF d]
  obtain raw codec payload g h where o: "prepare_checkpoint codecs l (li_generation (ul_inner l)) s = Inr (raw, codec, payload, g)"
      "encode_header codecs codec g (length payload) (length raw) (ul_config_fingerprint l) (lc_crc32c codecs payload) = Inr h"
    using persist_outcome [OF sh whole_header_rejected [OF sh] run [unfolded persist_no_fault [of codecs partial]]] by blast
  let ?inner = "(ul_inner l)\<lparr>li_file := header_written l payload h\<rparr>"
  have l1: "lio fault ''write payload'' = Inr ()" "lio fault ''sync payload'' = Inr ()" "lio fault ''write header'' = Inr ()"
      "lio fault ''sync header'' = Inl (ledger_io e)"
    by (simp_all add: lio_def fault)
  have p: "persist_locked codecs fault partial l (ul_inner l) s = (Inl (ledger_io e), ?inner)"
    unfolding persist_locked_def o sum.case prod.case Let_def l1 rbind.simps
    by (simp add: header_written_def payload_written_def target_offset_def other_slot_def)
  have st: "g' \<le> li_generation (ul_inner l)"
    if "header_generation codecs (header_of l (li_file (ul_inner l)) (li_active_slot (ul_inner l))) = Some g'" for g'
    using that active_generation [OF d] by simp
  have "l\<lparr>ul_inner := ?inner\<rparr> = with_file l (header_written l payload h)" by (simp add: with_file_def)
  with recover_checkpoint(2) [OF sh c st o] p show ?thesis by auto
qed


text \<open>The month an update falls into, as it was before: an existing month or a new one.\<close>

definition month_before :: "nat \<Rightarrow> u32 \<Rightarrow> persisted_state \<Rightarrow> persisted_month" where
  "month_before n k s = (case find (\<lambda>m. pm_month_index m = k) (ps_months s) of Some m \<Rightarrow> m | None \<Rightarrow> fresh_month n k)"

lemma month_before_in:
  assumes "state_ok n b s" "m \<in> set (ps_months s)" "pm_month_index m = k"
  shows "month_before n' k s = m"
proof -
  have "inj_on pm_month_index (set (ps_months s))"
    using assms(1) by (auto simp: state_ok_def strict_sorted_iff distinct_map)
  with assms(2,3) show ?thesis
    by (auto simp: month_before_def find_None_iff find_Some_iff inj_on_def split: option.splits)
qed

lemma month_before_fresh: "k \<notin> pm_month_index ` set (ps_months s) \<Longrightarrow> month_before n k s = fresh_month n k"
  by (auto simp: month_before_def find_Some_iff split: option.splits)

lemma months_after_update:
  assumes "state_ok n b (s\<lparr>ps_months := ms\<rparr>)" "p < length ms" "pm_month_index (ms ! p) = k" "pm_month_index m' = k"
  shows "m \<in> set (ms[p := m']) \<longleftrightarrow> m = m' \<or> m \<in> set ms \<and> pm_month_index m \<noteq> k"
proof -
  have d: "distinct (map pm_month_index ms)" using assms(1) by (auto simp: state_ok_def strict_sorted_iff)
  have "pm_month_index (ms ! q) = k \<longleftrightarrow> q = p" if "q < length ms" for q
    using that d assms(2,3) by (metis length_map nth_eq_iff_index_eq nth_map)
  with assms(2,4) show ?thesis by (fastforce simp: in_set_conv_nth nth_list_update)
qed

text \<open>The slot that a batch updates held its month before, or an empty month.\<close>

lemma month_before_slot:
  assumes ok: "state_ok n b before" and w: "window_step n k (ps_months before) ms" and p: "p < length ms" "pm_month_index (ms ! p) = k"
  shows "month_before n k before = ms ! p"
proof (cases "ms ! p \<in> set (ps_months before)")
  case True
  with p(2) show ?thesis by (intro month_before_in [OF ok])
next
  case False
  then have "ms ! p = fresh_month n k" "fresh_month n k \<in> set ms" "fresh_month n k \<notin> set (ps_months before)"
    using w nth_mem [OF p(1)] by (auto simp: window_step_def)
  then show ?thesis using w month_before_fresh [of k before n] by (simp add: window_step_def)
qed

lemma window_updated:
  assumes ok: "state_ok n b before" and w: "window_step n k (ps_months before) ms" "state_ok n b (before\<lparr>ps_months := ms\<rparr>)"
      "length (ps_months before) < b \<longrightarrow> set (ps_months before) \<subseteq> set ms"
    and p: "p < length ms" "pm_month_index (ms ! p) = k" and m': "pm_month_index m' = k"
  shows "m \<in> set (ms[p := m']) \<Longrightarrow> pm_month_index m \<noteq> k \<Longrightarrow> m \<in> set (ps_months before)"
    and "m \<in> set (ps_months before) \<Longrightarrow> pm_month_index m \<noteq> k \<Longrightarrow> m \<in> set (ms[p := m'])
      \<or> length (ps_months before) = b \<and> (\<forall>m'' \<in> set (ms[p := m']). pm_month_index m < pm_month_index m'')"
    and "m \<in> set (ms[p := m']) \<Longrightarrow> pm_month_index m = k \<Longrightarrow> m = m'"
proof -
  note after = months_after_update [OF w(2) p m']
  have drop: "length (ps_months before) = b \<and> (\<forall>m'' \<in> set ms. pm_month_index m < pm_month_index m'')"
    if "m \<in> set (ps_months before)" "m \<notin> set ms" for m
    using that w(1,3) ok by (auto simp: window_step_def state_ok_def)
  have fresh: "pm_month_index (fresh_month n k) = k" by (simp add: fresh_month_def)
  show "m \<in> set (ps_months before)" if "m \<in> set (ms[p := m'])" "pm_month_index m \<noteq> k"
    using that after w(1) fresh m' by (auto simp: window_step_def)
  show "m \<in> set (ms[p := m']) \<or> length (ps_months before) = b \<and> (\<forall>m'' \<in> set (ms[p := m']). pm_month_index m < pm_month_index m'')"
    if "m \<in> set (ps_months before)" "pm_month_index m \<noteq> k"
    using that after drop [of m] p m' by (metis insert_iff nth_mem set_update_subset_insert subsetD)
  show "m = m'" if "m \<in> set (ms[p := m'])" "pm_month_index m = k" using that after by auto
qed


lemma plain_length:
  "length (concat (map u64_le (words_of_state s))) = 8 * (5 + length (ps_feature_counts s)
     + sum_list (map (\<lambda>m. 4 + length (pm_feature_counts m)) (ps_months s)))"
proof -
  have "length (concat (map u64_le ws)) = 8 * length ws" for ws by (induction ws) simp_all
  moreover have "length (concat (map words_of_month ms)) = sum_list (map (\<lambda>m. 4 + length (pm_feature_counts m)) ms)" for ms
    by (induction ms) (simp_all add: words_of_month_def)
  ultimately show ?thesis by (simp add: words_of_state_def)
qed

section \<open>A session\<close>

text \<open>Two features, two months, unknown features counted.\<close>

definition demo_config :: usage_config where
  "demo_config = with_unknown_feature_policy AccumulateOverflow (with_monthly_buckets 2 (usage_config_new ''usage'' [[98], [97]]))"

definition demo_normalized :: usage_config where
  "demo_normalized = demo_config\<lparr>uc_feature_ids := [[97], [98]]\<rparr>"

definition demo_raw :: bytes where
  "demo_raw = concat (map u64_le (words_of_state (maximum_sized 2 2)))"

definition demo_updates :: "(bytes \<times> u64) list" where "demo_updates = [([97], 3), ([98], 0), ([99], 2), ([97], 4)]"

definition demo_state :: persisted_state where
  "demo_state = \<lparr>ps_feature_counts = [0, 0], ps_active_seconds = 0, ps_overflow_feature_events = 0, ps_months = [],
     ps_last_checkpoint = 5\<rparr>"

lemmas demo_config_simps = demo_normalized_def demo_config_def with_unknown_feature_policy_def with_monthly_buckets_def
  usage_config_new_def DEFAULT_MAX_FILE_BYTES_def

lemma demo_raw_length: "length demo_raw = 152"
  by (simp add: demo_raw_def plain_length maximum_sized_def sum_list_replicate del: length_concat)

lemma demo_sized: "sized plain_codecs 4096 demo_config demo_normalized demo_raw"
proof -
  have "normalized demo_config = Inr demo_normalized"
    by (simp add: normalized_def demo_config_simps MAX_FEATURES_def MAX_MONTHLY_BUCKETS_def MAX_FEATURE_ID_BYTES_def)
  moreover have "lc_to_vec plain_codecs (maximum_sized 2 2) = Inr demo_raw"
    by (simp add: plain_codecs_def plain_to_vec_def demo_raw_def maximum_sized_def)
  moreover have "length (uc_feature_ids demo_normalized) = 2" "uc_monthly_buckets demo_normalized = 2"
      "unat (uc_max_file_bytes demo_normalized) = 1048576" by (simp_all add: demo_config_simps)
  ultimately show ?thesis by (simp add: sized_def demo_raw_length HEADER_BYTES_def)
qed

lemma demo_total:
  assumes "ledger_of plain_codecs demo_normalized demo_raw l"
  shows "codecs_total plain_codecs l"
proof -
  have n: "length (ul_feature_ids l) = 2" "ul_monthly_buckets l = 2" "ul_max_raw_payload_bytes l = 152"
    using assms by (simp_all add: ledger_of_def demo_config_simps demo_raw_length)
  have "\<exists>raw. lc_to_vec plain_codecs s = Inr raw \<and> length raw \<le> 152" if s: "state_ok 2 2 s" for s
  proof -
    have "sum_list (map (\<lambda>m. 4 + length (pm_feature_counts m)) (ps_months s)) = sum_list (map (\<lambda>_. 6) (ps_months s))"
      using s by (intro arg_cong [where f = sum_list] map_cong) (auto simp: state_ok_def)
    then have "sum_list (map (\<lambda>m. 4 + length (pm_feature_counts m)) (ps_months s)) \<le> 12"
      using s by (simp add: sum_list_triv state_ok_def)
    with s have "length (concat (map u64_le (words_of_state s))) \<le> 152" unfolding plain_length by (simp add: state_ok_def)
    with s show ?thesis by (auto simp: plain_codecs_def plain_to_vec_def state_ok_def)
  qed
  then show ?thesis using n by (simp add: codecs_total_def) (simp add: plain_codecs_def)
qed

text \<open>A new ledger, and a batch it records.\<close>

lemma demo_opened:
  obtains l where "ledger_run plain_codecs 4096 demo_config l" "ledger_inv plain_codecs demo_normalized demo_raw l"
    "li_state (ul_inner l) = demo_state" "li_generation (ul_inner l) = 1"
    "ul_feature_ids l = [[97], [98]]" "ul_policy l = AccumulateOverflow" "ul_monthly_buckets l = 2" "codecs_total plain_codecs l"
proof -
  obtain l e where o: "ledger_open plain_codecs no_lfault 0 5 4096 demo_config Absent = (Inr l, e)"
    using ledger_open_succeeds [OF demo_sized _ ledger_of_new demo_total [OF ledger_of_new], of Absent] demo_raw_length by fastforce
  have run: "ledger_run plain_codecs 4096 demo_config l" by (rule ledger_run.opened [OF disjI1 [OF refl] o])
  note inv = ledger_run_inv [OF demo_sized plain_lossless plain_hashes run]
  note f = ledger_open_fresh [OF demo_sized disjI1 [OF refl] plain_lossless plain_hashes o]
  show thesis
    by (rule that [OF run inv]) (use f demo_total [of l] in \<open>auto simp: ledger_of_def demo_config_simps demo_state_def state_empty_def\<close>)
qed

lemma demo_recorded:
  obtains l s inner l' where "ledger_run plain_codecs 4096 demo_config l" "ledger_inv plain_codecs demo_normalized demo_raw l"
    "record_batch_at plain_codecs no_lfault 0 7 l 100 9 demo_updates = (Inr (), l')"
    "batch_stages plain_codecs 7 l 100 9 demo_updates s"
    "persist_locked plain_codecs no_lfault 0 l (ul_inner l) s = (Inr (), inner)"
    "li_state (ul_inner l) = demo_state" "ul_feature_ids l = [[97], [98]]"
    "ul_monthly_buckets l = 2" "batch_fits l 9 demo_updates" "li_generation (ul_inner l) = 1" "codecs_total plain_codecs l"
proof -
  obtain l where l: "ledger_run plain_codecs 4096 demo_config l" "ledger_inv plain_codecs demo_normalized demo_raw l"
    "li_state (ul_inner l) = demo_state" "li_generation (ul_inner l) = 1"
    "ul_feature_ids l = [[97], [98]]" "ul_policy l = AccumulateOverflow" "ul_monthly_buckets l = 2" "codecs_total plain_codecs l"
    by (rule demo_opened)
  have fits: "batch_fits l 9 demo_updates"
    by (auto simp: batch_fits_def l demo_updates_def demo_state_def MAX_FEATURE_UPDATES_PER_BATCH_def less_Suc_eq nth_Cons')
  have cal: "calendar_month_index plain_codecs 100 = Inr 23640"
    by (simp add: calendar_month_index_def plain_codecs_def u32_saturate_def)
  have inv: "ledger_wf l" "months_within_totals (li_state (ul_inner l))" "\<not> ul_poisoned l" "ul_max_raw_payload_bytes l < 2 ^ 32"
    using l(2) by (auto simp: ledger_inv_def ledger_of_def demo_raw_length)
  obtain l' where run: "record_batch_at plain_codecs no_lfault 0 7 l 100 9 demo_updates = (Inr (), l')"
    using record_batch_succeeds [OF inv(1,2) fits l(8) inv(3) disjI2 [OF cal] _ inv(4)] l(4) by fastforce
  then show thesis
  proof (cases rule: record_batch_cases)
    case (2 incs ov c k s1 mp outside s2 inner)
    then have "batch_stages plain_codecs 7 l 100 9 demo_updates (s2\<lparr>ps_last_checkpoint := max 7 (ps_last_checkpoint s2)\<rparr>)"
      unfolding batch_stages_def by blast
    from that [OF l(1,2) run this 2(5) l(3,5,7) fits l(4,8)] show thesis .
  qed simp
qed

lemma torn_nothing: "ledger_shape l \<Longrightarrow> torn_header_rejected codecs l s 0"
proof -
  assume l: "ledger_shape l"
  have "other_slot (li_active_slot (ul_inner l)) < 2" using l by (simp add: ledger_shape_def)
  then have "length (stale_header l) = HEADER_BYTES"
    using l length_region [of "li_file (ul_inner l)" l] by (simp add: stale_header_def header_of_def ledger_shape_def ledger_geometry_def)
  then show ?thesis by (simp add: torn_header_rejected_def header_torn_def)
qed


theorem usage_reopen_witness:
  "\<exists>l l'. ledger_run plain_codecs 4096 demo_config l
     \<and> ledger_open plain_codecs no_lfault 0 8 4096 demo_config (RegularFile (li_file (ul_inner l)))
         = (Inr l', RegularFile (li_file (ul_inner l))) \<and> snapshot l' = snapshot l"
proof (rule demo_opened)
  fix l assume l: "ledger_run plain_codecs 4096 demo_config l"
  from usage_reopen [OF demo_sized plain_lossless plain_hashes l, of 0 8] l show ?thesis by blast
qed

theorem usage_batch_exact_witness:
  "\<exists>l l'. record_batch_at plain_codecs no_lfault 0 7 l 100 9 demo_updates = (Inr (), l') \<and> li_state (ul_inner l) = demo_state
     \<and> unat (ps_feature_counts (li_state (ul_inner l')) ! 0) = 7 \<and> unat (ps_active_seconds (li_state (ul_inner l'))) = 9
     \<and> unat (ps_overflow_feature_events (li_state (ul_inner l'))) = 2"
proof (rule demo_recorded)
  fix l s inner l' assume l: "ledger_inv plain_codecs demo_normalized demo_raw l"
    "record_batch_at plain_codecs no_lfault 0 7 l 100 9 demo_updates = (Inr (), l')"
    "li_state (ul_inner l) = demo_state" "ul_feature_ids l = [[97], [98]]"
  have "ledger_wf l" using l(1) by (simp add: ledger_inv_def)
  from usage_batch_exact [OF this l(2)] l show ?thesis by (auto simp: demo_state_def demo_updates_def intro!: exI)
qed

theorem usage_batch_recorded_witness:
  "\<exists>l l'. ledger_run plain_codecs 4096 demo_config l \<and> batch_fits l 9 demo_updates
     \<and> record_batch_at plain_codecs no_lfault 0 7 l 100 9 demo_updates = (Inr (), l')"
proof (rule demo_recorded)
  fix l s inner l' assume l: "ledger_run plain_codecs 4096 demo_config l" "batch_fits l 9 demo_updates" "codecs_total plain_codecs l"
    "li_generation (ul_inner l) = 1"
  have cal: "calendar_month_index plain_codecs 100 = Inr 23640"
    by (simp add: calendar_month_index_def plain_codecs_def u32_saturate_def)
  from usage_batch_recorded [OF demo_sized plain_lossless plain_hashes l(1,3) _ l(2) _ disjI2 [OF cal], of 0 7] l demo_raw_length
  show ?thesis by fastforce
qed


theorem usage_failed_sync_recovers_new_witness:
  "\<exists>l s inner v. persist_locked plain_codecs (\<lambda>op. if op = ''sync header'' then Some ''lost'' else None) 0 l (ul_inner l) s
     = (Inl (ledger_io ''lost''), inner) \<and> ledger_recover plain_codecs no_lfault (l\<lparr>ul_inner := inner\<rparr>) = Inr v \<and> rv_state v = s"
proof (rule demo_recorded)
  fix l s inner l' assume l: "ledger_inv plain_codecs demo_normalized demo_raw l"
    "persist_locked plain_codecs no_lfault 0 l (ul_inner l) s = (Inr (), inner)"
  have "ledger_durable plain_codecs l" using l by (simp add: ledger_inv_def)
  from usage_failed_sync_recovers_new [OF this plain_lossless l(2) refl, of "''lost''"] show ?thesis by blast
qed



end
