(* ===== verification/DeleteCatalog.thy ===== *)
theory DeleteCatalog
  imports AtomicFile
begin

text \<open>
  The catalog of logical deletion requests (\<^verbatim>\<open>src/src/deletion.rs\<close>): its state, the operations on it
  and the checksummed JSON file it is kept in.

  The JSON writer and parser (\<^verbatim>\<open>serde_json\<close>) and the hexadecimal BLAKE3 digest are arguments.
\<close>

section \<open>State\<close>

definition DELETE_CATALOG_VERSION :: u32 where "DELETE_CATALOG_VERSION = 1"

record delete_request =
  dr_request_id :: bytes
  dr_start_time :: u64
  dr_end_time :: u64
  dr_query :: bytes
  dr_status :: bytes
  dr_created_at :: u64

record delete_state =
  ds_next_request_id :: u64
  ds_tenants :: "(bytes, delete_request list) btree"

definition delete_state_default :: delete_state where
  "delete_state_default = \<lparr>ds_next_request_id = 1, ds_tenants = []\<rparr>"

record persisted_delete_catalog =
  pd_version :: u32
  pd_state :: delete_state
  pd_checksum :: bytes

record delete_codecs =
  dc_state_to_vec :: "delete_state \<Rightarrow> string + bytes"
  dc_catalog_to_vec :: "persisted_delete_catalog \<Rightarrow> string + bytes"
  dc_catalog_from_slice :: "bytes \<Rightarrow> string + persisted_delete_catalog"
  dc_hash_hex :: "bytes \<Rightarrow> bytes"

text \<open>The catalog is in memory only, or has a path, which may lack a parent directory.\<close>

datatype catalog_path = MemoryOnly | OnDisk (has_parent: bool)

record delete_catalog =
  dcat_path :: catalog_path
  dcat_poisoned :: bool
  dcat_state :: delete_state

section \<open>Request identifiers\<close>

text \<open>\<^verbatim>\<open>format!("{:016x}", n)\<close> and \<^verbatim>\<open>u64::from_str_radix(s, 16)\<close>.\<close>

definition format_016x :: "u64 \<Rightarrow> bytes" where
  "format_016x n = ascii (write_hex (rev (u64_le n)))"

definition hex_value :: "u8 \<Rightarrow> nat option" where
  "hex_value b = (let n = unat b in
     if 48 \<le> n \<and> n \<le> 57 then Some (n - 48)
     else if 97 \<le> n \<and> n \<le> 102 then Some (n - 87)
     else if 65 \<le> n \<and> n \<le> 70 then Some (n - 55)
     else None)"

fun hex_number :: "nat \<Rightarrow> bytes \<Rightarrow> nat option" where
  "hex_number acc [] = Some acc"
| "hex_number acc (b # bs) = (case hex_value b of
       None \<Rightarrow> None
     | Some d \<Rightarrow> if acc * 16 + d < 2 ^ 64 then hex_number (acc * 16 + d) bs else None)"

definition from_str_radix_16 :: "bytes \<Rightarrow> u64 option" where
  "from_str_radix_16 s =
     (let digits = (if s \<noteq> [] \<and> hd s = 43 then tl s else s) in
      if digits = [] then None else map_option of_nat (hex_number 0 digits))"

section \<open>The file\<close>

definition delete_io_error :: "string \<Rightarrow> loki_api_error" where
  "delete_io_error e = internal (''delete catalog I/O failed: '' @ e)"

definition encode_delete_error :: "string \<Rightarrow> loki_api_error" where
  "encode_delete_error e = internal (''encode delete catalog: '' @ e)"

text \<open>The bytes \<^verbatim>\<open>persist\<close> writes, and the writes themselves.\<close>

definition encode_delete_catalog :: "delete_codecs \<Rightarrow> delete_state \<Rightarrow> loki_api_error + bytes" where
  "encode_delete_catalog codecs state =
     rbind (map_err encode_delete_error (dc_state_to_vec codecs state)) (\<lambda>state_bytes.
     map_err encode_delete_error (dc_catalog_to_vec codecs
       \<lparr>pd_version = DELETE_CATALOG_VERSION, pd_state = state, pd_checksum = dc_hash_hex codecs state_bytes\<rparr>))"

definition delete_persist ::
  "delete_codecs \<Rightarrow> file_fault \<Rightarrow> nat \<Rightarrow> delete_catalog \<Rightarrow> delete_state \<Rightarrow> file_pair \<Rightarrow> (loki_api_error + unit) \<times> file_pair" where
  "delete_persist codecs fault partial c state fs = (case dcat_path c of
       MemoryOnly \<Rightarrow> (Inr (), fs)
     | OnDisk parent \<Rightarrow>
         if \<not> parent then (Inl (configuration ''delete catalog path must have a parent directory''), fs)
         else (case rbind (fio delete_io_error fault ''create directory'') (\<lambda>_. encode_delete_catalog codecs state) of
             Inl e \<Rightarrow> (Inl e, fs)
           | Inr encoded \<Rightarrow> replace_file delete_io_error fault partial encoded fs))"

definition decode_delete_catalog :: "delete_codecs \<Rightarrow> bytes \<Rightarrow> loki_api_error + delete_state" where
  "decode_delete_catalog codecs encoded =
     rbind (map_err (\<lambda>e. internal (''decode delete catalog: '' @ e)) (dc_catalog_from_slice codecs encoded)) (\<lambda>persisted.
     if pd_version persisted \<noteq> DELETE_CATALOG_VERSION then
       Inl (internal (''unsupported delete catalog version '' @ dec_digits (unat (pd_version persisted))))
     else rbind (map_err encode_delete_error (dc_state_to_vec codecs (pd_state persisted))) (\<lambda>state_bytes.
       if dc_hash_hex codecs state_bytes \<noteq> pd_checksum persisted then
         Inl (internal ''delete catalog checksum does not match its state'')
       else if ds_next_request_id (pd_state persisted) = 0 then
         Inl (internal ''delete catalog next request ID must be nonzero'')
       else Inr (pd_state persisted)))"

definition load_state :: "delete_codecs \<Rightarrow> file_fault \<Rightarrow> bytes \<Rightarrow> loki_api_error + delete_state" where
  "load_state codecs fault main = rbind (fio delete_io_error fault ''read'') (\<lambda>_. decode_delete_catalog codecs main)"

definition delete_open :: "delete_codecs \<Rightarrow> file_fault \<Rightarrow> bool \<Rightarrow> file_pair \<Rightarrow> loki_api_error + delete_catalog" where
  "delete_open codecs fault parent fs =
     rbind (case fp_main fs of Some main \<Rightarrow> load_state codecs fault main | None \<Rightarrow> Inr delete_state_default) (\<lambda>state.
       Inr \<lparr>dcat_path = OnDisk parent, dcat_poisoned = False, dcat_state = state\<rparr>)"

definition delete_memory :: delete_catalog where
  "delete_memory = \<lparr>dcat_path = MemoryOnly, dcat_poisoned = False, dcat_state = delete_state_default\<rparr>"

section \<open>Operations\<close>

definition delete_lock_error :: loki_api_error where
  "delete_lock_error = internal ''delete catalog lock is poisoned''"

text \<open>The last part of every mutation: persist, then replace the state in memory.\<close>

definition delete_commit ::
  "delete_codecs \<Rightarrow> file_fault \<Rightarrow> nat \<Rightarrow> 'a \<Rightarrow> delete_state \<Rightarrow> delete_catalog \<Rightarrow> file_pair
   \<Rightarrow> (loki_api_error + 'a) \<times> delete_catalog \<times> file_pair" where
  "delete_commit codecs fault partial result state c fs = (case delete_persist codecs fault partial c state fs of
       (Inl e, fs) \<Rightarrow> (Inl e, c, fs)
     | (Inr _, fs) \<Rightarrow> (Inr result, c\<lparr>dcat_state := state\<rparr>, fs))"

definition push_request :: "bytes \<Rightarrow> delete_request \<Rightarrow> (bytes, delete_request list) btree \<Rightarrow> (bytes, delete_request list) btree" where
  "push_request tenant r m = btree_insert tenant ((case map_of m tenant of None \<Rightarrow> [] | Some rs \<Rightarrow> rs) @ [r]) m"

definition delete_create ::
  "delete_codecs \<Rightarrow> file_fault \<Rightarrow> nat \<Rightarrow> bytes \<Rightarrow> u64 \<Rightarrow> u64 \<Rightarrow> bytes \<Rightarrow> u64 \<Rightarrow> delete_catalog \<Rightarrow> file_pair
   \<Rightarrow> (loki_api_error + bytes) \<times> delete_catalog \<times> file_pair" where
  "delete_create codecs fault partial tenant start_time end_time query created_at c fs =
     (if sint start_time > sint end_time then
        (Inl (bad_request ''delete start timestamp must not exceed end timestamp''), c, fs)
      else if dcat_poisoned c then (Inl delete_lock_error, c, fs)
      else let request_id = format_016x (ds_next_request_id (dcat_state c)) in
      (case u64_checked_add (ds_next_request_id (dcat_state c)) 1 of
         None \<Rightarrow> (Inl (internal ''delete request ID space exhausted''), c, fs)
       | Some n \<Rightarrow>
           delete_commit codecs fault partial request_id
             \<lparr>ds_next_request_id = n,
              ds_tenants = push_request tenant \<lparr>dr_request_id = request_id, dr_start_time = start_time, dr_end_time = end_time,
                dr_query = query, dr_status = ascii ''received'', dr_created_at = created_at\<rparr> (ds_tenants (dcat_state c))\<rparr>
             c fs))"

definition delete_list :: "bytes \<Rightarrow> delete_catalog \<Rightarrow> loki_api_error + delete_request list" where
  "delete_list tenant c =
     (if dcat_poisoned c then Inl delete_lock_error
      else Inr (case map_of (ds_tenants (dcat_state c)) tenant of None \<Rightarrow> [] | Some rs \<Rightarrow> rs))"

definition delete_cancel ::
  "delete_codecs \<Rightarrow> file_fault \<Rightarrow> nat \<Rightarrow> bytes \<Rightarrow> bytes \<Rightarrow> delete_catalog \<Rightarrow> file_pair
   \<Rightarrow> (loki_api_error + bool) \<times> delete_catalog \<times> file_pair" where
  "delete_cancel codecs fault partial tenant request_id c fs =
     (if dcat_poisoned c then (Inl delete_lock_error, c, fs)
      else (case map_of (ds_tenants (dcat_state c)) tenant of
          None \<Rightarrow> (Inr False, c, fs)
        | Some requests \<Rightarrow>
            let kept = filter (\<lambda>r. dr_request_id r \<noteq> request_id) requests in
            if length kept = length requests then (Inr False, c, fs)
            else delete_commit codecs fault partial True
              (dcat_state c\<lparr>ds_tenants := (if kept = [] then btree_remove tenant (ds_tenants (dcat_state c))
                 else btree_insert tenant kept (ds_tenants (dcat_state c)))\<rparr>) c fs))"

fun adjacent_ids :: "delete_request list \<Rightarrow> bool" where
  "adjacent_ids (a # b # rs) = (dr_request_id a = dr_request_id b \<or> adjacent_ids (b # rs))"
| "adjacent_ids _ = False"

definition replicated_next_id :: "delete_request list \<Rightarrow> u64" where
  "replicated_next_id requests =
     (case List.map_filter (\<lambda>r. from_str_radix_16 (dr_request_id r)) requests of
        [] \<Rightarrow> 1
      | v # vs \<Rightarrow> (case u64_checked_add (fold max vs v) 1 of None \<Rightarrow> 1 | Some n \<Rightarrow> n))"

definition delete_replace_tenant ::
  "delete_codecs \<Rightarrow> file_fault \<Rightarrow> nat \<Rightarrow> bytes \<Rightarrow> delete_request list \<Rightarrow> delete_catalog \<Rightarrow> file_pair
   \<Rightarrow> (loki_api_error + unit) \<times> delete_catalog \<times> file_pair" where
  "delete_replace_tenant codecs fault partial tenant requests c fs =
     (if tenant = [] then (Inl (bad_request ''delete tenant must not be empty''), c, fs)
      else let requests = sort_key dr_request_id requests in
      if (\<exists>r \<in> set requests. dr_request_id r = [] \<or> sint (dr_start_time r) > sint (dr_end_time r)
            \<or> dr_status r \<noteq> ascii ''received'' \<and> dr_status r \<noteq> ascii ''canceled'') \<or> adjacent_ids requests then
        (Inl (bad_request ''replicated delete requests are invalid or duplicated''), c, fs)
      else if dcat_poisoned c then (Inl delete_lock_error, c, fs)
      else let s = dcat_state c in
        delete_commit codecs fault partial ()
          \<lparr>ds_next_request_id = max (ds_next_request_id s) (replicated_next_id requests),
           ds_tenants = (if requests = [] then btree_remove tenant (ds_tenants s) else btree_insert tenant requests (ds_tenants s))\<rparr>
          c fs)"

section \<open>Identifiers round trip\<close>

lemma hex_value_digit: "n < 16 \<Longrightarrow> hex_value (of_nat (of_char (hex_digit n))) = Some n"
proof -
  have "\<forall>n \<in> set [0..<16]. hex_value (of_nat (of_char (hex_digit n))) = Some n" by code_simp
  then show "n < 16 \<Longrightarrow> ?thesis" by simp
qed

definition be_nat :: "nat \<Rightarrow> bytes \<Rightarrow> nat" where
  "be_nat acc bs = foldl (\<lambda>a b. a * 256 + unat b) acc bs"

lemma be_nat_ge: "acc * 256 ^ length bs \<le> be_nat acc bs"
proof (induction bs arbitrary: acc)
  case (Cons b bs)
  have "acc * 256 ^ length (b # bs) \<le> (acc * 256 + unat b) * 256 ^ length bs" by (simp add: algebra_simps)
  also have "\<dots> \<le> be_nat (acc * 256 + unat b) bs" by (rule Cons.IH)
  finally show ?case by (simp add: be_nat_def)
qed (simp add: be_nat_def)

lemma be_nat_le_acc: "acc \<le> be_nat acc bs"
proof -
  have "acc * 1 \<le> acc * 256 ^ length bs" by (rule mult_le_mono2) simp
  also have "\<dots> \<le> be_nat acc bs" by (rule be_nat_ge)
  finally show ?thesis by simp
qed

lemma be_nat_rev: "be_nat 0 (rev bs) = le_nat bs"
  by (induction bs) (simp_all add: be_nat_def)

lemma nibbles: "unat (drop_bit 4 (b :: u8)) < 16" "unat (and b 0x0f) < 16" "unat b = unat (drop_bit 4 b) * 16 + unat (and b 0x0f)"
proof -
  have "unat b < 256" using unsigned_less [of b] by simp
  moreover have "unat (drop_bit 4 b) = unat b div 16" by (simp add: drop_bit_eq_div unat_div)
  moreover have "and b 0x0f = take_bit 4 b" by (simp add: take_bit_eq_mask mask_eq_exp_minus_1)
  moreover have "unat (take_bit 4 b) = unat b mod 16" by (simp add: take_bit_eq_mod unat_mod)
  ultimately show "unat (drop_bit 4 (b :: u8)) < 16" "unat (and b 0x0f) < 16" "unat b = unat (drop_bit 4 b) * 16 + unat (and b 0x0f)"
    by simp_all
qed

lemma hex_number_write_hex: "be_nat acc bs < 2 ^ 64 \<Longrightarrow> hex_number acc (ascii (write_hex bs)) = Some (be_nat acc bs)"
proof (induction bs arbitrary: acc)
  case (Cons b bs)
  let ?h = "unat (drop_bit 4 b)" and ?l = "unat (and b 0x0f)"
  have b: "be_nat acc (b # bs) = be_nat (acc * 256 + unat b) bs" by (simp add: be_nat_def)
  have eq: "(acc * 16 + ?h) * 16 + ?l = acc * 256 + unat b" using nibbles(3) [of b] by simp
  have lt: "acc * 256 + unat b < 2 ^ 64" using Cons.prems be_nat_le_acc [of "acc * 256 + unat b" bs] by (simp add: b)
  then have lt': "acc * 16 + ?h < 2 ^ 64" using eq by simp
  have "write_hex (b # bs) = hex_digit ?h # hex_digit ?l # write_hex bs" by (simp add: write_hex_def)
  then have "hex_number acc (ascii (write_hex (b # bs))) = hex_number (acc * 256 + unat b) (ascii (write_hex bs))"
    using lt lt' nibbles(1,2) [of b] by (simp add: ascii_def hex_value_digit eq del: distrib_right_numeral)
  with Cons b show ?case by simp
qed (simp add: be_nat_def write_hex_def ascii_def)

lemma from_str_format: "from_str_radix_16 (format_016x n) = Some n"
proof -
  have lt: "unat n < 2 ^ LENGTH(64)" by (rule unsigned_less)
  then have "le_nat (u64_le n) = unat n" by (simp add: u64_le_def le_nat_nat_le)
  with lt have num: "hex_number 0 (format_016x n) = Some (unat n)"
    using hex_number_write_hex [of 0 "rev (u64_le n)"] by (simp add: format_016x_def be_nat_rev)
  obtain b bs where r: "rev (u64_le n) = b # bs" by (metis length_le_bytes(3) length_rev list.exhaust list.size(3) zero_neq_numeral)
  then have f: "format_016x n = of_nat (of_char (hex_digit (unat (drop_bit 4 b)))) # ascii (tl (write_hex (b # bs)))"
    by (simp add: format_016x_def write_hex_def ascii_def)
  have "hd (format_016x n) \<noteq> 43"
  proof
    assume "hd (format_016x n) = 43"
    then have "hex_value (43 :: u8) = Some (unat (drop_bit 4 b))" using hex_value_digit [OF nibbles(1) [of b]] by (simp add: f)
    then show False by (simp add: hex_value_def)
  qed
  with num f show ?thesis by (simp add: from_str_radix_16_def)
qed

lemma format_016x_inj: "format_016x m = format_016x n \<Longrightarrow> m = n"
  using from_str_format by (metis option.inject)

section \<open>Every change is durable\<close>

text \<open>The documented behaviour of the JSON codec: parsing returns what was written.\<close>

definition json_lossless :: "delete_codecs \<Rightarrow> bool" where
  "json_lossless codecs \<longleftrightarrow> (\<forall>p bs. dc_catalog_to_vec codecs p = Inr bs \<longrightarrow> dc_catalog_from_slice codecs bs = Inr p)"

definition delete_valid :: "delete_codecs \<Rightarrow> delete_state \<Rightarrow> bool" where
  "delete_valid codecs s \<longleftrightarrow> json_lossless codecs \<and> ds_next_request_id s \<noteq> 0"

interpretation delete_file: file_catalog "encode_delete_catalog codecs" "decode_delete_catalog codecs" "delete_valid codecs"
  delete_io_error delete_state_default for codecs
proof
  fix s bs assume v: "delete_valid codecs s" and "encode_delete_catalog codecs s = Inr bs"
  then obtain x where x: "dc_state_to_vec codecs s = Inr x" and
    "dc_catalog_to_vec codecs \<lparr>pd_version = DELETE_CATALOG_VERSION, pd_state = s, pd_checksum = dc_hash_hex codecs x\<rparr> = Inr bs"
    by (auto simp: encode_delete_catalog_def rbind_eq_Inr map_err_eq_Inr)
  with v have "dc_catalog_from_slice codecs bs = Inr \<lparr>pd_version = DELETE_CATALOG_VERSION, pd_state = s, pd_checksum = dc_hash_hex codecs x\<rparr>"
    by (simp add: delete_valid_def json_lossless_def)
  with x v show "decode_delete_catalog codecs bs = Inr s"
    by (simp add: delete_valid_def decode_delete_catalog_def)
qed

lemma delete_persist_commit:
  "dcat_path c = OnDisk True \<Longrightarrow> delete_persist codecs fault partial c state fs =
     (case fio delete_io_error fault ''create directory'' of Inl e \<Rightarrow> (Inl e, fs)
      | Inr _ \<Rightarrow> delete_file.commit codecs fault partial state fs)"
  by (simp add: delete_persist_def delete_file.commit_def split: sum.split)

lemma delete_commit_cases:
  assumes v: "delete_valid codecs state" and p: "dcat_path c = OnDisk True"
    and run: "delete_commit codecs fault partial result state c fs = (r, c', fs')"
  shows "r = Inr result \<and> c' = c\<lparr>dcat_state := state\<rparr> \<and> delete_file.stored codecs fs' = Inr state
    \<or> (\<exists>e. r = Inl e) \<and> c' = c \<and> (delete_file.stored codecs fs' = delete_file.stored codecs fs
        \<or> delete_file.stored codecs fs' = Inr state
            \<and> fst (snd (delete_commit codecs (\<lambda>_. None) 0 result state c fs)) = c\<lparr>dcat_state := state\<rparr>)"
proof (cases "fio delete_io_error fault ''create directory''")
  case (Inl e)
  with run p show ?thesis by (auto simp: delete_commit_def delete_persist_commit)
next
  case (Inr u)
  obtain q fs1 where q: "delete_file.commit codecs fault partial state fs = (q, fs1)" by fastforce
  have "fst (snd (delete_commit codecs (\<lambda>_. None) 0 result state c fs)) = c\<lparr>dcat_state := state\<rparr>"
    if "encode_delete_catalog codecs state = Inr bs" for bs
    using delete_file.commit_no_fault [OF that] p by (simp add: delete_commit_def delete_persist_commit)
  with delete_file.commit_stored [OF v q] run p Inr q show ?thesis
    by (cases q) (auto simp: delete_commit_def delete_persist_commit)
qed

section \<open>What every catalog satisfies\<close>

definition requests_ok :: "u64 \<Rightarrow> delete_request list \<Rightarrow> bool" where
  "requests_ok n rs \<longleftrightarrow> rs \<noteq> [] \<and> distinct (map dr_request_id rs)
     \<and> (\<forall>r \<in> set rs. sint (dr_start_time r) \<le> sint (dr_end_time r)
          \<and> dr_status r \<in> {ascii ''received'', ascii ''canceled''}
          \<and> (case from_str_radix_16 (dr_request_id r) of None \<Rightarrow> True | Some v \<Rightarrow> v < n))"

definition delete_ok :: "delete_state \<Rightarrow> bool" where
  "delete_ok s \<longleftrightarrow> ds_next_request_id s \<noteq> 0 \<and> btree_ok (ds_tenants s)
     \<and> (\<forall>e \<in> set (ds_tenants s). requests_ok (ds_next_request_id s) (snd e))"

lemma set_btree_insert: "set (btree_insert k v m) \<subseteq> insert (k, v) (set m)"
  by (induction k v m rule: btree_insert.induct) auto

lemma requests_ok_mono: "requests_ok n rs \<Longrightarrow> n \<le> n' \<Longrightarrow> requests_ok n' rs"
  by (auto simp: requests_ok_def split: option.splits) fastforce+

lemma delete_ok_insert:
  assumes "delete_ok s" "ds_next_request_id s \<le> n" "requests_ok n rs"
  shows "delete_ok \<lparr>ds_next_request_id = n, ds_tenants = btree_insert tenant rs (ds_tenants s)\<rparr>"
proof -
  have "n \<noteq> 0" using assms(1,2) by (auto simp: delete_ok_def word_le_0_iff)
  moreover have "\<forall>e \<in> set (ds_tenants s). requests_ok n (snd e)"
    using assms(1) requests_ok_mono [OF _ assms(2)] by (auto simp: delete_ok_def)
  ultimately show ?thesis using assms set_btree_insert [of tenant rs "ds_tenants s"]
    by (fastforce simp: delete_ok_def)
qed

lemma delete_ok_remove:
  assumes "delete_ok s" "ds_next_request_id s \<le> n"
  shows "delete_ok \<lparr>ds_next_request_id = n, ds_tenants = btree_remove tenant (ds_tenants s)\<rparr>"
proof -
  have "n \<noteq> 0" using assms by (auto simp: delete_ok_def word_le_0_iff)
  moreover have "\<forall>e \<in> set (ds_tenants s). requests_ok n (snd e)"
    using assms(1) requests_ok_mono [OF _ assms(2)] by (auto simp: delete_ok_def)
  ultimately show ?thesis using assms(1) by (auto simp: delete_ok_def) (fastforce simp: btree_remove_def)
qed

lemma delete_ok_map_of: "delete_ok s \<Longrightarrow> map_of (ds_tenants s) t = Some rs \<Longrightarrow> requests_ok (ds_next_request_id s) rs"
  by (fastforce simp: delete_ok_def dest: map_of_SomeD)

lemma next_id_fresh:
  assumes "delete_ok s" "e \<in> set (ds_tenants s)" "r \<in> set (snd e)"
  shows "dr_request_id r \<noteq> format_016x (ds_next_request_id s)"
proof -
  have "requests_ok (ds_next_request_id s) (snd e)" using assms(1,2) by (simp add: delete_ok_def)
  with assms(3) show ?thesis by (auto simp: requests_ok_def from_str_format split: option.splits)
qed

lemma u64_checked_add_1: "u64_checked_add n 1 = Some m \<Longrightarrow> n < m"
  by (auto simp: u64_checked_add_def word_less_nat_alt unat_word_ariths split: if_splits)

lemma u64_checked_add_1_None: "u64_checked_add n 1 = None \<Longrightarrow> n = - 1"
proof -
  assume "u64_checked_add n 1 = None"
  moreover have "unat n < 2 ^ LENGTH(64)" by (rule unsigned_less)
  ultimately have "unat n = 2 ^ 64 - 1" by (simp add: u64_checked_add_def split: if_splits)
  also have "\<dots> = unat (- 1 :: u64)" by (simp add: unsigned_minus_1_eq_mask mask_eq_exp_minus_1)
  finally show ?thesis by (simp only: word_unat_eq_iff)
qed

lemma delete_ok_push:
  assumes ok: "delete_ok s" and n: "ds_next_request_id s < n"
    and r: "dr_request_id r = format_016x (ds_next_request_id s)" "sint (dr_start_time r) \<le> sint (dr_end_time r)"
      "dr_status r = ascii ''received''"
  shows "delete_ok \<lparr>ds_next_request_id = n, ds_tenants = push_request tenant r (ds_tenants s)\<rparr>"
proof -
  have single: "requests_ok n [r]" using n r by (simp add: requests_ok_def from_str_format)
  have "requests_ok n ((case map_of (ds_tenants s) tenant of None \<Rightarrow> [] | Some rs \<Rightarrow> rs) @ [r])"
  proof (cases "map_of (ds_tenants s) tenant")
    case (Some rs)
    have "requests_ok n rs" using delete_ok_map_of [OF ok Some] n by (simp add: requests_ok_mono)
    moreover have "dr_request_id r \<notin> dr_request_id ` set rs"
      using next_id_fresh [OF ok map_of_SomeD [OF Some]] r(1) by fastforce
    ultimately show ?thesis using single Some by (auto simp: requests_ok_def)
  qed (simp add: single)
  with ok n show ?thesis by (simp add: push_request_def delete_ok_insert)
qed

lemma sorted_no_adjacent:
  "sorted (map dr_request_id rs) \<Longrightarrow> \<not> adjacent_ids rs \<Longrightarrow> distinct (map dr_request_id rs)"
  by (induction rs rule: adjacent_ids.induct) force+

lemma fold_max_ge: "v \<in> set (w # ws) \<Longrightarrow> v \<le> fold max ws (w :: 'a::linorder)"
  by (metis Max.set_eq_fold Max_ge List.finite_set)

text \<open>
  The counter is moved past every replicated identifier unless one of them is the largest \<^verbatim>\<open>u64\<close>,
  whose successor does not exist.
\<close>

definition no_max_id :: "delete_request list \<Rightarrow> bool" where
  "no_max_id rs \<longleftrightarrow> (\<forall>r \<in> set rs. from_str_radix_16 (dr_request_id r) \<noteq> Some (- 1))"

lemma replicated_next_id_bound:
  assumes "no_max_id rs" "r \<in> set rs" "from_str_radix_16 (dr_request_id r) = Some v"
  shows "v < replicated_next_id rs"
proof -
  let ?vs = "List.map_filter (\<lambda>r. from_str_radix_16 (dr_request_id r)) rs"
  have v: "v \<in> set ?vs" using assms(2,3) by (force simp: map_filter_def)
  then obtain w ws where ws: "?vs = w # ws" by (cases ?vs) auto
  with v have le: "v \<le> fold max ws w" by (simp only: fold_max_ge)
  have "fold max ws w \<in> set ?vs" unfolding ws by (metis Max.set_eq_fold Max_in List.finite_set list.distinct(1) set_empty)
  then have "fold max ws w \<noteq> - 1" using assms(1) by (force simp: no_max_id_def map_filter_def)
  then obtain n where n: "u64_checked_add (fold max ws w) 1 = Some n"
    using u64_checked_add_1_None by (cases "u64_checked_add (fold max ws w) 1") auto
  with u64_checked_add_1 [OF n] le show ?thesis by (auto simp: replicated_next_id_def ws)
qed

lemma delete_ok_replace:
  assumes ok: "delete_ok s" and rs: "no_max_id rs" "rs \<noteq> []" "sorted (map dr_request_id rs)" "\<not> adjacent_ids rs"
    and valid: "\<forall>r \<in> set rs. sint (dr_start_time r) \<le> sint (dr_end_time r) \<and> dr_status r \<in> {ascii ''received'', ascii ''canceled''}"
  shows "delete_ok \<lparr>ds_next_request_id = max (ds_next_request_id s) (replicated_next_id rs),
    ds_tenants = btree_insert tenant rs (ds_tenants s)\<rparr>"
proof (rule delete_ok_insert [OF ok])
  show "requests_ok (max (ds_next_request_id s) (replicated_next_id rs)) rs"
    using valid rs sorted_no_adjacent [OF rs(3,4)] replicated_next_id_bound [OF rs(1)]
    by (force simp: requests_ok_def less_max_iff_disj split: option.split)
qed simp
section \<open>Sequences of operations\<close>

text \<open>A mutation of the catalog; its result is the identifier it issued, if it is a creation.\<close>

datatype delete_op =
    CreateOp bytes u64 u64 bytes u64
  | CancelOp bytes bytes
  | ReplaceOp bytes "delete_request list"

fun delete_step ::
  "delete_codecs \<Rightarrow> file_fault \<Rightarrow> nat \<Rightarrow> delete_op \<Rightarrow> delete_catalog \<Rightarrow> file_pair
   \<Rightarrow> (loki_api_error + bytes option) \<times> delete_catalog \<times> file_pair" where
  "delete_step codecs fault partial (CreateOp tenant s e query at) c fs =
     map_prod (map_sum id Some) id (delete_create codecs fault partial tenant s e query at c fs)"
| "delete_step codecs fault partial (CancelOp tenant request_id) c fs =
     map_prod (map_sum id (\<lambda>_. None)) id (delete_cancel codecs fault partial tenant request_id c fs)"
| "delete_step codecs fault partial (ReplaceOp tenant requests) c fs =
     map_prod (map_sum id (\<lambda>_. None)) id (delete_replace_tenant codecs fault partial tenant requests c fs)"

fun op_in_range :: "delete_op \<Rightarrow> bool" where
  "op_in_range (ReplaceOp tenant requests) = no_max_id requests"
| "op_in_range _ = True"

fun issued :: "loki_api_error + bytes option \<Rightarrow> bytes list" where
  "issued (Inr (Some i)) = [i]"
| "issued _ = []"

text \<open>
  A catalog from its first opening on: operations with any input and any I/O faults, and restarts, which
  read the file the last operation left. The list holds the identifiers issued so far.
\<close>

inductive delete_run :: "delete_codecs \<Rightarrow> delete_catalog \<Rightarrow> file_pair \<Rightarrow> bytes list \<Rightarrow> bool" for codecs where
  opened: "fp_main fs = None \<Longrightarrow> delete_open codecs fault True fs = Inr c \<Longrightarrow> delete_run codecs c fs []"
| stepped: "delete_run codecs c fs ids \<Longrightarrow> op_in_range op \<Longrightarrow> delete_step codecs fault partial op c fs = (r, c', fs')
    \<Longrightarrow> delete_run codecs c' fs' (ids @ issued r)"
| reopened: "delete_run codecs c fs ids \<Longrightarrow> delete_open codecs fault True fs = Inr c' \<Longrightarrow> delete_run codecs c' fs ids"

text \<open>What an operation does: it moves to the wanted state on disk and in memory, or keeps the memory.\<close>

definition moved ::
  "delete_codecs \<Rightarrow> delete_catalog \<Rightarrow> delete_state \<Rightarrow> (loki_api_error + bytes option) \<Rightarrow> delete_catalog \<Rightarrow> file_pair \<Rightarrow> delete_catalog \<Rightarrow> file_pair \<Rightarrow> bool" where
  "moved codecs ideal w r c fs c' fs' \<longleftrightarrow> delete_ok w \<and> ds_next_request_id (dcat_state c) \<le> ds_next_request_id w
     \<and> (c' = c\<lparr>dcat_state := w\<rparr> \<and> delete_file.stored codecs fs' = Inr w \<and> (\<exists>x. r = Inr x)
        \<or> c' = c \<and> issued r = [] \<and> (fs' = fs \<or>
            (\<exists>e. r = Inl e) \<and> (delete_file.stored codecs fs' = delete_file.stored codecs fs 
              \<or> delete_file.stored codecs fs' = Inr w \<and> ideal = c\<lparr>dcat_state := w\<rparr>)))"

lemma moved_unchanged:
  "delete_ok (dcat_state c) \<Longrightarrow> issued r = [] \<Longrightarrow> moved codecs ideal (dcat_state c) r c fs c fs"
  by (simp add: moved_def)

lemma moved_commit:
  assumes "json_lossless codecs" "dcat_path c = OnDisk True" "delete_ok w"
    "ds_next_request_id (dcat_state c) \<le> ds_next_request_id w"
    "delete_commit codecs fault partial result w c fs = (q, c', fs')"
  shows "moved codecs (fst (snd (delete_commit codecs (\<lambda>_. None) 0 result w c fs))) w (map_sum id f q) c fs c' fs' \<and> (\<forall>x. q = Inr x \<longrightarrow> x = result \<and> c' = c\<lparr>dcat_state := w\<rparr>)"
proof -
  have "delete_valid codecs w" using assms(1,3) by (simp add: delete_valid_def delete_ok_def)
  from delete_commit_cases [OF this assms(2,5)] assms(3,4) show ?thesis by (auto simp: moved_def)
qed

lemma create_moved:
  assumes "json_lossless codecs" "dcat_path c = OnDisk True" "delete_ok (dcat_state c)"
    and run: "delete_create codecs fault partial tenant s e query at c fs = (q, c', fs')"
  obtains w where "moved codecs (fst (snd (delete_create codecs (\<lambda>_. None) 0 tenant s e query at c fs))) w (map_sum id Some q) c fs c' fs'"
    "\<And>i. q = Inr i \<Longrightarrow> i = format_016x (ds_next_request_id (dcat_state c))
       \<and> ds_next_request_id (dcat_state c) < ds_next_request_id w \<and> c' = c\<lparr>dcat_state := w\<rparr>
       \<and> ds_tenants w = push_request tenant \<lparr>dr_request_id = i, dr_start_time = s, dr_end_time = e, dr_query = query,
            dr_status = ascii ''received'', dr_created_at = at\<rparr> (ds_tenants (dcat_state c))"
proof (cases "\<exists>x. q = Inl x \<and> c' = c \<and> fs' = fs")
  case True
  then obtain x where x: "q = Inl x" "c' = c" "fs' = fs" by blast
  show ?thesis by (rule that [of "dcat_state c"]) (simp_all add: x moved_unchanged assms(3))
next
  case False
  let ?i = "format_016x (ds_next_request_id (dcat_state c))"
  let ?r = "\<lparr>dr_request_id = ?i, dr_start_time = s, dr_end_time = e, dr_query = query,
            dr_status = ascii ''received'', dr_created_at = at\<rparr>"
  from False run have order: "\<not> sint s > sint e" "\<not> dcat_poisoned c" by (auto simp: delete_create_def split: if_splits)
  with False run obtain n where n: "u64_checked_add (ds_next_request_id (dcat_state c)) 1 = Some n"
    by (cases "u64_checked_add (ds_next_request_id (dcat_state c)) 1") (auto simp: delete_create_def)
  let ?w = "\<lparr>ds_next_request_id = n, ds_tenants = push_request tenant ?r (ds_tenants (dcat_state c))\<rparr>"
  have lt: "ds_next_request_id (dcat_state c) < n" using u64_checked_add_1 [OF n] .
  have ok: "delete_ok ?w" using order(1) by (intro delete_ok_push [OF assms(3) lt]) simp_all
  have com: "delete_create codecs fault partial tenant s e query at c fs = delete_commit codecs fault partial ?i ?w c fs" for fault partial
    using order n by (simp add: delete_create_def Let_def)
  from moved_commit [OF assms(1,2) ok _ run [unfolded com], of Some] lt show ?thesis by (intro that [of ?w]) (auto simp: com)
qed

lemma cancel_moved:
  assumes "json_lossless codecs" "dcat_path c = OnDisk True" "delete_ok (dcat_state c)"
    and run: "delete_cancel codecs fault partial tenant request_id c fs = (q, c', fs')"
  obtains w where "moved codecs (fst (snd (delete_cancel codecs (\<lambda>_. None) 0 tenant request_id c fs))) w (map_sum id (\<lambda>_. None) q) c fs c' fs'"
proof (cases "c' = c \<and> fs' = fs")
  case True
  have "issued (map_sum id (\<lambda>_. None) q) = []" by (cases q) auto
  with True show ?thesis using that moved_unchanged [OF assms(3)] by fastforce
next
  case False
  let ?s = "dcat_state c"
  from False run obtain rs where rs: "map_of (ds_tenants ?s) tenant = Some rs"
    by (auto simp: delete_cancel_def split: if_splits option.splits)
  let ?kept = "filter (\<lambda>r. dr_request_id r \<noteq> request_id) rs"
  let ?w = "?s\<lparr>ds_tenants := (if ?kept = [] then btree_remove tenant (ds_tenants ?s) else btree_insert tenant ?kept (ds_tenants ?s))\<rparr>"
  have com: "delete_cancel codecs fault partial tenant request_id c fs = delete_commit codecs fault partial True ?w c fs" for fault partial
    using run False rs by (auto simp: delete_cancel_def Let_def split: if_splits)
  have "?kept \<noteq> [] \<Longrightarrow> requests_ok (ds_next_request_id ?s) ?kept"
    using delete_ok_map_of [OF assms(3) rs] by (auto simp: requests_ok_def distinct_map_filter)
  then have "delete_ok ?w"
    using delete_ok_insert [OF assms(3) order_refl, of ?kept tenant] delete_ok_remove [OF assms(3) order_refl, of tenant]
    by (cases ?s) auto
  from moved_commit [OF assms(1,2) this _ run [unfolded com]] that show ?thesis by (auto simp: com)
qed

lemma replace_moved:
  assumes "json_lossless codecs" "dcat_path c = OnDisk True" "delete_ok (dcat_state c)" "no_max_id requests"
    and run: "delete_replace_tenant codecs fault partial tenant requests c fs = (q, c', fs')"
  obtains w where "moved codecs (fst (snd (delete_replace_tenant codecs (\<lambda>_. None) 0 tenant requests c fs))) w (map_sum id (\<lambda>_. None) q) c fs c' fs'"
proof (cases "c' = c \<and> fs' = fs")
  case True
  have "issued (map_sum id (\<lambda>_. None) q) = []" by (cases q) auto
  with True show ?thesis using that moved_unchanged [OF assms(3)] by fastforce
next
  case False
  let ?s = "dcat_state c" and ?rs = "sort_key dr_request_id requests"
  let ?n = "max (ds_next_request_id ?s) (replicated_next_id ?rs)"
  let ?w = "\<lparr>ds_next_request_id = ?n, ds_tenants = (if ?rs = [] then btree_remove tenant (ds_tenants ?s)
    else btree_insert tenant ?rs (ds_tenants ?s))\<rparr>"
  have valid: "\<forall>r \<in> set ?rs. sint (dr_start_time r) \<le> sint (dr_end_time r) \<and> dr_status r \<in> {ascii ''received'', ascii ''canceled''}"
    and adj: "\<not> adjacent_ids ?rs"
    using run False by (auto simp: delete_replace_tenant_def Let_def split: if_splits)
  have com: "delete_replace_tenant codecs fault partial tenant requests c fs = delete_commit codecs fault partial () ?w c fs" for fault partial
    using run False by (auto simp: delete_replace_tenant_def Let_def split: if_splits)
  have "no_max_id ?rs" using assms(4) by (simp add: no_max_id_def)
  then have "delete_ok ?w"
    using delete_ok_replace [OF assms(3) _ _ _ adj valid, of tenant] delete_ok_remove [OF assms(3), of ?n tenant] by auto
  from moved_commit [OF assms(1,2) this _ run [unfolded com]] that show ?thesis by (auto simp: com)
qed

lemma step_moved:
  assumes "json_lossless codecs" "dcat_path c = OnDisk True" "delete_ok (dcat_state c)" "op_in_range op"
    and run: "delete_step codecs fault partial op c fs = (r, c', fs')"
  obtains w where "moved codecs (fst (snd (delete_step codecs (\<lambda>_. None) 0 op c fs))) w r c fs c' fs'"
    "\<And>i. i \<in> set (issued r) \<Longrightarrow> i = format_016x (ds_next_request_id (dcat_state c)) \<and> ds_next_request_id (dcat_state c) < ds_next_request_id w"
proof (cases op)
  case (CreateOp tenant s e query at)
  with run obtain q where q: "delete_create codecs fault partial tenant s e query at c fs = (q, c', fs')" "r = map_sum id Some q"
    by (auto simp: map_prod_def split: prod.splits)
  obtain w where w: "moved codecs (fst (snd (delete_step codecs (\<lambda>_. None) 0 op c fs))) w (map_sum id Some q) c fs c' fs'"
    "\<And>i. q = Inr i \<Longrightarrow> i = format_016x (ds_next_request_id (dcat_state c)) \<and> ds_next_request_id (dcat_state c) < ds_next_request_id w"
    by (rule create_moved [OF assms(1-3) q(1)]) (simp add: CreateOp)
  show ?thesis
  proof (rule that)
    show "moved codecs (fst (snd (delete_step codecs (\<lambda>_. None) 0 op c fs))) w r c fs c' fs'" using w(1) q(2) by simp
  qed (use w(2) q(2) in \<open>cases q; simp\<close>)
next
  case (CancelOp tenant request_id)
  with run obtain q where q: "delete_cancel codecs fault partial tenant request_id c fs = (q, c', fs')" "r = map_sum id (\<lambda>_. None) q"
    by (auto simp: map_prod_def split: prod.splits)
  obtain w where "moved codecs (fst (snd (delete_step codecs (\<lambda>_. None) 0 op c fs))) w r c fs c' fs'" by (rule cancel_moved [OF assms(1-3) q(1)]) (simp add: q(2) CancelOp)
  then show ?thesis by (rule that) (use q(2) in \<open>cases q; simp\<close>)
next
  case (ReplaceOp tenant requests)
  with run obtain q where q: "delete_replace_tenant codecs fault partial tenant requests c fs = (q, c', fs')" "r = map_sum id (\<lambda>_. None) q"
    by (auto simp: map_prod_def split: prod.splits)
  have range: "no_max_id requests" using assms(4) ReplaceOp by simp
  obtain w where "moved codecs (fst (snd (delete_step codecs (\<lambda>_. None) 0 op c fs))) w r c fs c' fs'" by (rule replace_moved [OF assms(1-3) range q(1)]) (simp add: q(2) ReplaceOp)
  then show ?thesis by (rule that) (use q(2) in \<open>cases q; simp\<close>)
qed

text \<open>The invariant of a run: both the memory and the file are well formed and past every issued identifier.\<close>

definition below :: "bytes list \<Rightarrow> u64 \<Rightarrow> bool" where
  "below ids n \<longleftrightarrow> (\<forall>i \<in> set ids. \<exists>m < n. i = format_016x m)"

definition delete_inv :: "delete_codecs \<Rightarrow> delete_catalog \<Rightarrow> file_pair \<Rightarrow> bytes list \<Rightarrow> bool" where
  "delete_inv codecs c fs ids \<longleftrightarrow> dcat_path c = OnDisk True \<and> \<not> dcat_poisoned c
     \<and> delete_ok (dcat_state c) \<and> below ids (ds_next_request_id (dcat_state c))
     \<and> (\<exists>d. delete_file.stored codecs fs = Inr d \<and> delete_ok d \<and> below ids (ds_next_request_id d))"

lemma below_mono: "below ids n \<Longrightarrow> n \<le> n' \<Longrightarrow> below ids n'"
  unfolding below_def using order_less_le_trans by blast

lemma delete_open_stored:
  "delete_open codecs fault parent fs = Inr c \<Longrightarrow>
     delete_file.stored codecs fs = Inr (dcat_state c) \<and> dcat_path c = OnDisk parent \<and> \<not> dcat_poisoned c"
  by (auto simp: delete_open_def load_state_def delete_file.stored_def rbind_eq_Inr split: option.splits)

lemma delete_open_no_fault:
  "delete_open codecs (\<lambda>_. None) parent fs =
     rbind (delete_file.stored codecs fs) (\<lambda>s. Inr \<lparr>dcat_path = OnDisk parent, dcat_poisoned = False, dcat_state = s\<rparr>)"
  by (simp add: delete_open_def load_state_def delete_file.stored_def fio_no_fault split: option.splits)

lemma moved_inv:
  assumes inv: "delete_inv codecs c fs ids" and m: "moved codecs ideal w r c fs c' fs'"
    and i: "\<And>i. i \<in> set (issued r) \<Longrightarrow> i = format_016x (ds_next_request_id (dcat_state c)) \<and> ds_next_request_id (dcat_state c) < ds_next_request_id w"
  shows "delete_inv codecs c' fs' (ids @ issued r)"
proof -
  have w: "delete_ok w" "below ids (ds_next_request_id w)"
    using inv m below_mono by (auto simp: delete_inv_def moved_def)
  have all: "below (ids @ issued r) (ds_next_request_id w)"
    using w(2) i unfolding below_def by auto
  from m consider "c' = c\<lparr>dcat_state := w\<rparr>" "delete_file.stored codecs fs' = Inr w"
    | "c' = c" "issued r = []" "delete_file.stored codecs fs' = delete_file.stored codecs fs \<or> delete_file.stored codecs fs' = Inr w"
    unfolding moved_def by blast
  then show ?thesis
    by cases (use inv w all in \<open>auto simp: delete_inv_def\<close>)
qed

lemma delete_ok_default: "delete_ok delete_state_default"
  by (simp add: delete_ok_def delete_state_default_def)

lemma delete_run_inv:
  assumes "json_lossless codecs" "delete_run codecs c fs ids"
  shows "delete_inv codecs c fs ids"
  using assms(2)
proof induction
  case (opened fs fault c)
  then have "delete_file.stored codecs fs = Inr delete_state_default" by (simp add: delete_file.stored_def)
  with delete_open_stored [OF opened(2)] delete_ok_default show ?case by (simp add: delete_inv_def below_def)
next
  case (stepped c fs ids op fault partial r c' fs')
  from stepped.IH have "dcat_path c = OnDisk True" "delete_ok (dcat_state c)" by (simp_all add: delete_inv_def)
  from step_moved [OF assms(1) this stepped.hyps(2,3)] moved_inv [OF stepped.IH] show ?case by metis
next
  case (reopened c fs ids fault c')
  with delete_open_stored [OF reopened.hyps(2)] show ?case by (auto simp: delete_inv_def)
qed

section \<open>Guarantees\<close>



definition replicated :: "u64 \<Rightarrow> delete_request" where
  "replicated n = \<lparr>dr_request_id = format_016x n, dr_start_time = 0, dr_end_time = 9, dr_query = ascii ''q'',
     dr_status = ascii ''received'', dr_created_at = 0\<rparr>"

definition table_codecs :: "delete_state list \<Rightarrow> delete_codecs" where
  "table_codecs states = \<lparr>dc_state_to_vec = (\<lambda>_. Inr []),
     dc_catalog_to_vec = (\<lambda>p. case find (\<lambda>i. states ! i = pd_state p) [0..<length states] of
        Some i \<Rightarrow> if pd_version p = DELETE_CATALOG_VERSION \<and> pd_checksum p = [] \<and> i < 256 then Inr [of_nat i] else Inl ''unsupported''
      | None \<Rightarrow> Inl ''unsupported''),
     dc_catalog_from_slice = (\<lambda>bs. case bs of
        [i] \<Rightarrow> if unat i < length states
          then Inr \<lparr>pd_version = DELETE_CATALOG_VERSION, pd_state = states ! unat i, pd_checksum = []\<rparr> else Inl ''corrupt''
      | _ \<Rightarrow> Inl ''corrupt''),
     dc_hash_hex = (\<lambda>_. [])\<rparr>"

lemma table_lossless: "json_lossless (table_codecs states)"
proof -
  have "dc_catalog_from_slice (table_codecs states) bs = Inr p" if "dc_catalog_to_vec (table_codecs states) p = Inr bs" for p bs
  proof -
    from that obtain i where i: "find (\<lambda>i. states ! i = pd_state p) [0..<length states] = Some i" "i < 256"
      "bs = [of_nat i]" "pd_version p = DELETE_CATALOG_VERSION" "pd_checksum p = []"
      by (auto simp: table_codecs_def split: option.splits if_splits)
    then have "i < length states" "states ! i = pd_state p" by (auto simp: find_Some_iff)
    moreover have "unat (of_nat i :: u8) = i" using i(2) by (simp add: unat_of_nat)
    ultimately show ?thesis using i by (cases p) (simp add: table_codecs_def)
  qed
  then show ?thesis by (simp add: json_lossless_def)
qed


definition example_created :: "nat \<Rightarrow> delete_state" where
  "example_created k = \<lparr>ds_next_request_id = of_nat k + 1,
     ds_tenants = (if k = 0 then [] else [(ascii ''t'', map (\<lambda>i. replicated (of_nat i)) [1..<k + 1])])\<rparr>"

definition example_codecs :: delete_codecs where
  "example_codecs = table_codecs [example_created 0, example_created 1, example_created 2]"

definition example_catalog :: "nat \<Rightarrow> delete_catalog" where
  "example_catalog k = \<lparr>dcat_path = OnDisk True, dcat_poisoned = False, dcat_state = example_created k\<rparr>"

definition example_op :: delete_op where
  "example_op = CreateOp (ascii ''t'') 0 9 (ascii ''q'') 0"

definition example_fault :: file_fault where
  "example_fault operation = (if operation = ''sync directory'' then Some ''failed'' else None)"

lemma example_adds: "u64_checked_add 1 1 = Some 2" "u64_checked_add 2 1 = Some 3" "[Suc 0..<2] = [1]" "[Suc 0..<3] = [1, 2]"
  by (simp_all add: u64_checked_add_def upt_rec)

lemmas example_eval = example_adds example_op_def example_catalog_def example_created_def example_codecs_def table_codecs_def
  example_fault_def replicated_def delete_create_def delete_commit_def delete_persist_def delete_open_def push_request_def
  encode_delete_catalog_def replace_file_def fio_def Let_def

text \<open>The first creation succeeds; a second one fails at the synchronization of the directory.\<close>

lemma example_first:
  "delete_step example_codecs (\<lambda>_. None) 0 example_op (example_catalog 0) \<lparr>fp_main = None, fp_temp = None\<rparr>
   = (Inr (Some (format_016x 1)), example_catalog 1, \<lparr>fp_main = Some [1], fp_temp = None\<rparr>)"
  by (simp add: example_eval)

lemma example_second:
  "delete_step example_codecs example_fault 0 example_op (example_catalog 1) \<lparr>fp_main = Some [1], fp_temp = None\<rparr>
   = (Inl (delete_io_error ''failed''), example_catalog 1, \<lparr>fp_main = Some [2], fp_temp = None\<rparr>)"
  by (simp add: example_eval)

lemma example_run:
  "delete_run example_codecs (example_catalog 1) \<lparr>fp_main = Some [1], fp_temp = None\<rparr> [format_016x 1]"
proof -
  have "delete_run example_codecs (example_catalog 0) \<lparr>fp_main = None, fp_temp = None\<rparr> []"
    by (rule delete_run.opened) (simp_all add: example_eval delete_state_default_def)
  from delete_run.stepped [OF this _ example_first] show ?thesis by (simp add: example_op_def)
qed



end
