(* ===== verification/Offload.thy ===== *)
theory Offload
  imports AtomicFile NativeClient
begin

text \<open>
  The upstream offloader (\<^verbatim>\<open>src/src/offload.rs\<close>, \<^verbatim>\<open>src/src/offload/\<close>): its configuration, the checkpoint journal,
  retry identifiers, the transfer of one partition, a round over all partitions and the background
  loop; with the reading side of the local store it uses (\<^verbatim>\<open>src/src/telemetry_store/append.rs\<close>).

  The storage engine below the store, the JSON codec of the journal, BLAKE3 and the metric chunk decoder
  are arguments. The journal is replaced with \<open>replace_file\<close>; appends go through the native client.
\<close>

section \<open>Constants and configuration\<close>

definition OFFLOAD_CHECKPOINT_VERSION :: u8 where "OFFLOAD_CHECKPOINT_VERSION = 3"
definition DEFAULT_MAX_FETCH_BYTES :: u32 where "DEFAULT_MAX_FETCH_BYTES = 16 * 1024 * 1024"
definition DEFAULT_MAX_IN_FLIGHT_PARTITIONS :: nat where "DEFAULT_MAX_IN_FLIGHT_PARTITIONS = 1"
definition DEFAULT_IDLE_INTERVAL :: nat where "DEFAULT_IDLE_INTERVAL = 10 ^ 9"
definition DEFAULT_RETRY_INTERVAL :: nat where "DEFAULT_RETRY_INTERVAL = 5 * 10 ^ 9"
definition DEFAULT_MAX_CONSECUTIVE_FAILURES :: nat where "DEFAULT_MAX_CONSECUTIVE_FAILURES = 8"

datatype offload_error = OffloadError (offload_message: string)

record upstream_offload_config =
  oc_checkpoint_path :: bytes
  oc_source_id :: bytes
  oc_max_fetch_bytes :: u32
  oc_max_in_flight_partitions :: nat
  oc_signals :: "telemetry_signal set"
  oc_metric_names :: "bytes set option"

definition offload_config_new :: "bytes \<Rightarrow> bytes \<Rightarrow> upstream_offload_config" where
  "offload_config_new checkpoint_path source_id = \<lparr>oc_checkpoint_path = checkpoint_path, oc_source_id = source_id,
     oc_max_fetch_bytes = DEFAULT_MAX_FETCH_BYTES, oc_max_in_flight_partitions = DEFAULT_MAX_IN_FLIGHT_PARTITIONS,
     oc_signals = {Logs, Traces, Metrics}, oc_metric_names = None\<rparr>"

definition with_max_fetch_bytes :: "u32 \<Rightarrow> upstream_offload_config \<Rightarrow> upstream_offload_config" where
  "with_max_fetch_bytes n c = c\<lparr>oc_max_fetch_bytes := n\<rparr>"

definition with_max_in_flight_partitions :: "nat \<Rightarrow> upstream_offload_config \<Rightarrow> upstream_offload_config" where
  "with_max_in_flight_partitions n c = c\<lparr>oc_max_in_flight_partitions := n\<rparr>"

definition with_signals :: "telemetry_signal list \<Rightarrow> upstream_offload_config \<Rightarrow> upstream_offload_config" where
  "with_signals signals c = c\<lparr>oc_signals := set signals\<rparr>"

definition with_metric_names :: "bytes list \<Rightarrow> upstream_offload_config \<Rightarrow> upstream_offload_config" where
  "with_metric_names names c = c\<lparr>oc_metric_names := Some (set names)\<rparr>"

definition offload_config_validate :: "upstream_offload_config \<Rightarrow> offload_error + unit" where
  "offload_config_validate c =
     (if oc_checkpoint_path c = [] then Inl (OffloadError ''upstream offload checkpoint path must not be empty'')
      else if oc_source_id c = [] then Inl (OffloadError ''upstream offload source ID must not be empty'')
      else if oc_max_fetch_bytes c = 0 then Inl (OffloadError ''upstream offload max_fetch_bytes must be nonzero'')
      else if oc_max_in_flight_partitions c = 0 then Inl (OffloadError ''upstream offload max_in_flight_partitions must be nonzero'')
      else if oc_signals c = {} then Inl (OffloadError ''upstream offload must select at least one telemetry signal'')
      else case oc_metric_names c of
        None \<Rightarrow> Inr ()
      | Some names \<Rightarrow>
          if names = {} then Inl (OffloadError ''upstream metric offload name filter must not be empty'')
          else if Metrics \<notin> oc_signals c then
            Inl (OffloadError ''upstream metric offload name filter requires metrics to be selected'')
          else if [] \<in> names then Inl (OffloadError ''upstream metric offload names must not be empty'')
          else Inr ())"

record offload_loop_config =
  lc_idle_interval :: nat
  lc_retry_interval :: nat
  lc_max_consecutive_failures :: nat

definition loop_config_new :: offload_loop_config where
  "loop_config_new = \<lparr>lc_idle_interval = DEFAULT_IDLE_INTERVAL, lc_retry_interval = DEFAULT_RETRY_INTERVAL,
     lc_max_consecutive_failures = DEFAULT_MAX_CONSECUTIVE_FAILURES\<rparr>"

definition with_idle_interval :: "nat \<Rightarrow> offload_loop_config \<Rightarrow> offload_loop_config" where
  "with_idle_interval t c = c\<lparr>lc_idle_interval := t\<rparr>"

definition with_retry_interval :: "nat \<Rightarrow> offload_loop_config \<Rightarrow> offload_loop_config" where
  "with_retry_interval t c = c\<lparr>lc_retry_interval := t\<rparr>"

definition with_max_consecutive_failures :: "nat \<Rightarrow> offload_loop_config \<Rightarrow> offload_loop_config" where
  "with_max_consecutive_failures n c = c\<lparr>lc_max_consecutive_failures := n\<rparr>"

definition loop_config_validate :: "offload_loop_config \<Rightarrow> offload_error + unit" where
  "loop_config_validate c =
     (if lc_idle_interval c = 0 \<or> lc_retry_interval c = 0 then Inl (OffloadError ''upstream offload loop intervals must be nonzero'')
      else if lc_max_consecutive_failures c = 0 then Inl (OffloadError ''upstream offload max_consecutive_failures must be nonzero'')
      else Inr ())"

section \<open>Reports\<close>

record offload_report =
  or_scanned_partitions :: nat
  or_offloaded_batches :: nat
  or_offloaded_records :: u64
  or_advanced_offsets :: u64
  or_checkpoint_writes :: nat
  or_skipped_batches :: nat
  or_skipped_records :: u64

definition report_default :: offload_report where
  "report_default = \<lparr>or_scanned_partitions = 0, or_offloaded_batches = 0, or_offloaded_records = 0, or_advanced_offsets = 0,
     or_checkpoint_writes = 0, or_skipped_batches = 0, or_skipped_records = 0\<rparr>"

record offload_loop_report =
  ol_completed_rounds :: u64
  ol_failed_rounds :: u64
  ol_scanned_partitions :: u64
  ol_offloaded_batches :: u64
  ol_offloaded_records :: u64
  ol_advanced_offsets :: u64
  ol_checkpoint_writes :: u64
  ol_skipped_batches :: u64
  ol_skipped_records :: u64

definition loop_report_default :: offload_loop_report where
  "loop_report_default = \<lparr>ol_completed_rounds = 0, ol_failed_rounds = 0, ol_scanned_partitions = 0, ol_offloaded_batches = 0,
     ol_offloaded_records = 0, ol_advanced_offsets = 0, ol_checkpoint_writes = 0, ol_skipped_batches = 0, ol_skipped_records = 0\<rparr>"

text \<open>A \<^verbatim>\<open>usize\<close> counter always fits a \<^verbatim>\<open>u64\<close>.\<close>

definition loop_report_record :: "offload_report \<Rightarrow> offload_loop_report \<Rightarrow> offload_loop_report" where
  "loop_report_record r l =
     (let add = u64_saturating_add; count = (\<lambda>n. of_nat (min n (2 ^ 64 - 1))) in
      l\<lparr>ol_completed_rounds := add (ol_completed_rounds l) 1,
        ol_scanned_partitions := add (ol_scanned_partitions l) (count (or_scanned_partitions r)),
        ol_offloaded_batches := add (ol_offloaded_batches l) (count (or_offloaded_batches r)),
        ol_offloaded_records := add (ol_offloaded_records l) (or_offloaded_records r),
        ol_advanced_offsets := add (ol_advanced_offsets l) (or_advanced_offsets r),
        ol_checkpoint_writes := add (ol_checkpoint_writes l) (count (or_checkpoint_writes r)),
        ol_skipped_batches := add (ol_skipped_batches l) (count (or_skipped_batches r)),
        ol_skipped_records := add (ol_skipped_records l) (or_skipped_records r)\<rparr>)"

text \<open>The first error of a round is the one it returns.\<close>

definition record_partition_result ::
  "offload_error + offload_report \<Rightarrow> offload_report \<times> offload_error option \<Rightarrow> offload_report \<times> offload_error option" where
  "record_partition_result result acc = (case acc of (r, first_error) \<Rightarrow>
     (case result of
        Inr p \<Rightarrow>
          (r\<lparr>or_scanned_partitions := usize_saturating_add (or_scanned_partitions r) (or_scanned_partitions p),
             or_offloaded_batches := usize_saturating_add (or_offloaded_batches r) (or_offloaded_batches p),
             or_offloaded_records := u64_saturating_add (or_offloaded_records r) (or_offloaded_records p),
             or_advanced_offsets := u64_saturating_add (or_advanced_offsets r) (or_advanced_offsets p),
             or_checkpoint_writes := usize_saturating_add (or_checkpoint_writes r) (or_checkpoint_writes p),
             or_skipped_batches := usize_saturating_add (or_skipped_batches r) (or_skipped_batches p),
             or_skipped_records := u64_saturating_add (or_skipped_records r) (or_skipped_records p)\<rparr>, first_error)
      | Inl e \<Rightarrow> (r, if first_error = None then Some e else first_error)))"

section \<open>The checkpoint journal\<close>

record persisted_checkpoint =
  pk_topic_id :: u128
  pk_partition_id :: u32
  pk_next_offset :: u64

record persisted_checkpoints =
  pk_version :: u8
  pk_source_id :: "bytes option"
  pk_retry_namespace :: "bytes option"
  pk_checkpoints :: "persisted_checkpoint list"

record offload_codecs =
  ocd_to_vec :: "persisted_checkpoints \<Rightarrow> string + bytes"
  ocd_from_slice :: "bytes \<Rightarrow> string + persisted_checkpoints"

datatype retry_namespace = LegacyV1 | SourceNamespace bytes

record checkpoint_journal =
  cj_source_id :: bytes
  cj_retry_namespace :: retry_namespace
  cj_offsets :: "(topic_partition, logical_offset) btree"

record offload_checkpoint =
  ck_topic_partition :: topic_partition
  ck_next_offset :: logical_offset

definition source_retry_namespace :: "bytes \<Rightarrow> bytes" where
  "source_retry_namespace source_id = ascii ''source:'' @ source_id"

definition journal_io_error :: "string \<Rightarrow> offload_error" where
  "journal_io_error e = OffloadError (''upstream offload checkpoint journal I/O failed: '' @ e)"

definition validate_persisted_source :: "bytes option \<Rightarrow> bytes \<Rightarrow> offload_error + unit" where
  "validate_persisted_source persisted_source configured_source = (case persisted_source of
       Some source \<Rightarrow> if source = configured_source then Inr ()
         else Inl (OffloadError ''upstream offload checkpoint journal source ID does not match configuration'')
     | None \<Rightarrow> Inl (OffloadError ''upstream offload checkpoint journal is missing source ID''))"

definition restored_namespace :: "persisted_checkpoints \<Rightarrow> bytes \<Rightarrow> offload_error + retry_namespace" where
  "restored_namespace persisted source_id =
     (if pk_version persisted = 1 then Inr LegacyV1
      else if pk_version persisted = 2 then
        rbind (validate_persisted_source (pk_source_id persisted) source_id) (\<lambda>_. Inr (SourceNamespace source_id))
      else if pk_version persisted = OFFLOAD_CHECKPOINT_VERSION then
        rbind (validate_persisted_source (pk_source_id persisted) source_id) (\<lambda>_.
          case pk_retry_namespace persisted of
            None \<Rightarrow> Inl (OffloadError ''upstream offload checkpoint journal retry namespace is invalid'')
          | Some namespace \<Rightarrow>
              if namespace = ascii ''legacy-v1'' then Inr LegacyV1
              else if namespace = source_retry_namespace source_id then Inr (SourceNamespace source_id)
              else Inl (OffloadError ''upstream offload checkpoint journal retry namespace is invalid''))
      else Inl (OffloadError (''unsupported upstream offload checkpoint journal version '' @ dec_digits (unat (pk_version persisted)))))"

definition restore_offset ::
  "persisted_checkpoint \<Rightarrow> (topic_partition, logical_offset) btree \<Rightarrow> offload_error + (topic_partition, logical_offset) btree" where
  "restore_offset checkpoint offsets =
     (let topic_partition = TopicPartition (pk_topic_id checkpoint) (pk_partition_id checkpoint) in
      if map_of offsets topic_partition \<noteq> None then
        Inl (OffloadError ''upstream offload checkpoint journal contains duplicate partitions'')
      else Inr (btree_insert topic_partition (pk_next_offset checkpoint) offsets))"

definition restore_journal :: "bytes \<Rightarrow> persisted_checkpoints \<Rightarrow> offload_error + checkpoint_journal" where
  "restore_journal source_id persisted =
     rbind (restored_namespace persisted source_id) (\<lambda>retry_namespace.
     rbind (rfold restore_offset (pk_checkpoints persisted) []) (\<lambda>offsets.
     Inr \<lparr>cj_source_id = source_id, cj_retry_namespace = retry_namespace, cj_offsets = offsets\<rparr>))"

definition parse_journal :: "offload_codecs \<Rightarrow> bytes \<Rightarrow> offload_error + persisted_checkpoints" where
  "parse_journal codecs encoded =
     map_err (\<lambda>e. OffloadError (''invalid upstream offload checkpoint journal: '' @ e)) (ocd_from_slice codecs encoded)"

definition fresh_checkpoints :: "bytes \<Rightarrow> persisted_checkpoints" where
  "fresh_checkpoints source_id = \<lparr>pk_version = OFFLOAD_CHECKPOINT_VERSION, pk_source_id = Some source_id,
     pk_retry_namespace = Some (source_retry_namespace source_id), pk_checkpoints = []\<rparr>"

definition checkpoint_open ::
  "offload_codecs \<Rightarrow> file_fault \<Rightarrow> bool \<Rightarrow> bytes \<Rightarrow> file_pair \<Rightarrow> offload_error + checkpoint_journal" where
  "checkpoint_open codecs fault parent source_id fs =
     rbind (if parent then fio journal_io_error fault ''create directory'' else Inr ()) (\<lambda>_.
     rbind (fio journal_io_error fault ''open lock'') (\<lambda>_.
     rbind (fio (\<lambda>e. OffloadError (''upstream offload checkpoint is already owned by another worker: '' @ e)) fault ''lock'') (\<lambda>_.
     rbind (case fp_main fs of
              None \<Rightarrow> Inr (fresh_checkpoints source_id)
            | Some encoded \<Rightarrow> rbind (fio journal_io_error fault ''read'') (\<lambda>_. parse_journal codecs encoded)) (\<lambda>persisted.
     restore_journal source_id persisted))))"

definition checkpoint_next :: "checkpoint_journal \<Rightarrow> topic_partition \<Rightarrow> logical_offset option" where
  "checkpoint_next j = map_of (cj_offsets j)"

definition checkpoint_snapshot :: "checkpoint_journal \<Rightarrow> offload_checkpoint list" where
  "checkpoint_snapshot j = map (\<lambda>(p, o'). \<lparr>ck_topic_partition = p, ck_next_offset = o'\<rparr>) (cj_offsets j)"

definition persisted_journal :: "checkpoint_journal \<Rightarrow> persisted_checkpoints" where
  "persisted_journal j = \<lparr>pk_version = OFFLOAD_CHECKPOINT_VERSION, pk_source_id = Some (cj_source_id j),
     pk_retry_namespace = Some (case cj_retry_namespace j of LegacyV1 \<Rightarrow> ascii ''legacy-v1'' | SourceNamespace s \<Rightarrow> source_retry_namespace s),
     pk_checkpoints = map (\<lambda>(p, o'). \<lparr>pk_topic_id = topic_id p, pk_partition_id = partition_id p, pk_next_offset = o'\<rparr>) (cj_offsets j)\<rparr>"

definition encode_journal :: "offload_codecs \<Rightarrow> checkpoint_journal \<Rightarrow> offload_error + bytes" where
  "encode_journal codecs j =
     map_err (\<lambda>e. OffloadError (''upstream offload checkpoint serialization failed: '' @ e)) (ocd_to_vec codecs (persisted_journal j))"

definition checkpoint_persist ::
  "offload_codecs \<Rightarrow> file_fault \<Rightarrow> nat \<Rightarrow> checkpoint_journal \<Rightarrow> file_pair \<Rightarrow> (offload_error + unit) \<times> file_pair" where
  "checkpoint_persist codecs fault partial j fs = (case encode_journal codecs j of
       Inl e \<Rightarrow> (Inl e, fs)
     | Inr encoded \<Rightarrow> replace_file journal_io_error fault partial encoded fs)"

definition checkpoint_advance ::
  "offload_codecs \<Rightarrow> file_fault \<Rightarrow> nat \<Rightarrow> topic_partition \<Rightarrow> logical_offset \<Rightarrow> checkpoint_journal \<Rightarrow> file_pair
   \<Rightarrow> (offload_error + unit) \<times> checkpoint_journal \<times> file_pair" where
  "checkpoint_advance codecs fault partial p next_offset j fs =
     (let previous = map_of (cj_offsets j) p;
          j = j\<lparr>cj_offsets := btree_insert p next_offset (cj_offsets j)\<rparr> in
      if (case previous of None \<Rightarrow> False | Some o' \<Rightarrow> o' > next_offset) then
        (Inl (OffloadError ''upstream offload checkpoint attempted to move backward''), j, fs)
      else case checkpoint_persist codecs fault partial j fs of (r, fs) \<Rightarrow> (r, j, fs))"

section \<open>Retry identifiers\<close>

definition namespace_bytes :: "retry_namespace \<Rightarrow> bytes" where
  "namespace_bytes namespace = (case namespace of LegacyV1 \<Rightarrow> [] | SourceNamespace source_id \<Rightarrow> source_id @ [0])"

definition retry_id ::
  "(bytes \<Rightarrow> bytes) \<Rightarrow> core_formats \<Rightarrow> retry_namespace \<Rightarrow> topic_partition \<Rightarrow> logical_offset \<Rightarrow> logical_offset \<Rightarrow> native_telemetry_batch
   \<Rightarrow> offload_error + u128" where
  "retry_id blake3 fmts namespace p first final batch =
     rbind (map_err (\<lambda>e. OffloadError (case e of NativeProtocolError m \<Rightarrow> m)) (encode_native_append blake3 fmts batch)) (\<lambda>payload.
     Inr (from_le (take 16 (blake3 (ascii ''shard-telemetry-upstream-offload-v1'' @ [0] @ namespace_bytes namespace
       @ u128_le (topic_id p) @ u32_le (partition_id p) @ u64_le first @ u64_le final @ payload)))))"

section \<open>The local store\<close>

text \<open>
  The storage engine's answers: the batches of a partition from an offset on, up to a number of bytes,
  and the first retained offset.
\<close>

record engine_batch =
  eb_first_offset :: logical_offset
  eb_last_offset :: logical_offset
  eb_payload :: bytes

record engine =
  en_fetch :: "topic_partition \<Rightarrow> logical_offset \<Rightarrow> u32 \<Rightarrow> engine_error + engine_batch list"
  en_log_start :: "topic_partition \<Rightarrow> engine_error + logical_offset"

record fetched_telemetry_batch =
  fb_topic_partition :: topic_partition
  fb_first_offset :: logical_offset
  fb_last_offset :: logical_offset
  fb_envelope :: telemetry_envelope

definition fetched_batch ::
  "(bytes \<Rightarrow> bytes) \<Rightarrow> core_formats \<Rightarrow> topic_partition \<Rightarrow> engine_batch \<Rightarrow> loki_api_error + fetched_telemetry_batch" where
  "fetched_batch blake3 fmts p b =
     rbind (map_err (\<lambda>e. internal (error_display fmts e)) (envelope_decode blake3 (eb_payload b))) (\<lambda>envelope.
       if signal_topic_id (env_signal envelope) \<noteq> topic_id p then
         Inl (internal ''telemetry WAL batch topic disagrees with its signal envelope'')
       else Inr \<lparr>fb_topic_partition = p, fb_first_offset = eb_first_offset b, fb_last_offset = eb_last_offset b, fb_envelope = envelope\<rparr>)"

text \<open>Collecting results stops at the first error.\<close>

fun collect_results :: "('a \<Rightarrow> 'e + 'b) \<Rightarrow> 'a list \<Rightarrow> 'e + 'b list" where
  "collect_results f [] = Inr []"
| "collect_results f (x # xs) = rbind (f x) (\<lambda>y. rbind (collect_results f xs) (\<lambda>ys. Inr (y # ys)))"

definition fetch_telemetry_batches ::
  "(bytes \<Rightarrow> bytes) \<Rightarrow> core_formats \<Rightarrow> engine \<Rightarrow> topic_partition \<Rightarrow> logical_offset \<Rightarrow> u32 \<Rightarrow> loki_api_error + fetched_telemetry_batch list" where
  "fetch_telemetry_batches blake3 fmts e p start_offset max_bytes =
     (if max_bytes = 0 then Inl (bad_request ''telemetry WAL fetch max_bytes must be nonzero'')
      else rbind (map_err engine_error_api (en_fetch e p start_offset max_bytes)) (\<lambda>batches.
        collect_results (fetched_batch blake3 fmts p) batches))"

definition telemetry_partition_start_offset :: "engine \<Rightarrow> topic_partition \<Rightarrow> loki_api_error + logical_offset" where
  "telemetry_partition_start_offset e p = map_err engine_error_api (en_log_start e p)"

definition signal_partitions :: "u32 \<Rightarrow> u128 \<Rightarrow> topic_partition list" where
  "signal_partitions tenant_partitions topic = map (\<lambda>n. TopicPartition topic (of_nat n)) [0..<unat tenant_partitions]"

definition telemetry_partitions :: "u32 \<Rightarrow> topic_partition list" where
  "telemetry_partitions tenant_partitions =
     concat (map (signal_partitions tenant_partitions) [LOGS_TOPIC_ID, TRACES_TOPIC_ID, METRICS_TOPIC_ID])"

section \<open>The offloader\<close>

record offloader =
  of_max_fetch_bytes :: u32
  of_max_in_flight_partitions :: nat
  of_signals :: "telemetry_signal set"
  of_metric_names :: "bytes set option"
  of_journal :: checkpoint_journal
  of_poisoned :: bool

text \<open>
  What the offloader works on: the client, the journal's file and the number of appends attempted. The
  list records the acknowledged appends.
\<close>

record offload_world =
  ow_client :: native_client
  ow_files :: file_pair
  ow_attempts :: nat
  ow_acked :: "(u128 \<times> native_telemetry_batch) list"

text \<open>
  What surrounds it: the fixed codecs, and what may be different every time, the engine, the network at
  the time of the n-th append and the faults.
\<close>

record offload_codes =
  cd_blake3 :: "bytes \<Rightarrow> bytes"
  cd_formats :: core_formats
  cd_json :: offload_codecs
  cd_decode_metric_chunk :: "bytes \<Rightarrow> string + bytes list"

record offload_env =
  ev_engine :: engine
  ev_tenant_partitions :: u32
  ev_server :: "nat \<Rightarrow> bytes \<Rightarrow> bytes"
  ev_net_fault :: "nat \<Rightarrow> net_fault"
  ev_fetch_fault :: "topic_partition \<Rightarrow> string option"
  ev_file_fault :: "topic_partition \<Rightarrow> file_fault"
  ev_partial :: nat

definition api_offload_error :: "loki_api_error \<Rightarrow> offload_error" where
  "api_offload_error e = OffloadError (lae_message e)"

definition offloader_open ::
  "offload_codecs \<Rightarrow> file_fault \<Rightarrow> bool \<Rightarrow> upstream_offload_config \<Rightarrow> file_pair \<Rightarrow> offload_error + offloader" where
  "offloader_open codecs fault parent config fs =
     rbind (offload_config_validate config) (\<lambda>_.
     rbind (checkpoint_open codecs fault parent (oc_source_id config) fs) (\<lambda>journal.
     Inr \<lparr>of_max_fetch_bytes = oc_max_fetch_bytes config, of_max_in_flight_partitions = oc_max_in_flight_partitions config,
          of_signals = oc_signals config, of_metric_names = oc_metric_names config, of_journal = journal, of_poisoned = False\<rparr>))"

definition checkpoint_lock :: "offloader \<Rightarrow> offload_error + checkpoint_journal" where
  "checkpoint_lock off = (if of_poisoned off then Inl (OffloadError ''upstream offload checkpoint lock poisoned'') else Inr (of_journal off))"

definition offloader_checkpoints :: "offloader \<Rightarrow> offload_error + offload_checkpoint list" where
  "offloader_checkpoints off = rmap checkpoint_snapshot (checkpoint_lock off)"

definition start_offset :: "engine \<Rightarrow> offloader \<Rightarrow> topic_partition \<Rightarrow> offload_error + logical_offset" where
  "start_offset e off p =
     rbind (map_err api_offload_error (telemetry_partition_start_offset e p)) (\<lambda>local_start.
     rbind (checkpoint_lock off) (\<lambda>journal.
     Inr (case checkpoint_next journal p of None \<Rightarrow> local_start | Some checkpoint \<Rightarrow> max checkpoint local_start)))"

text \<open>Of the decoded metric points the filter reads the number and the names.\<close>

definition should_forward_envelope ::
  "(bytes \<Rightarrow> string + bytes list) \<Rightarrow> bytes set option \<Rightarrow> telemetry_envelope \<Rightarrow> offload_error + bool" where
  "should_forward_envelope decode_metric_chunk metric_names envelope = (case metric_names of
       None \<Rightarrow> Inr True
     | Some names \<Rightarrow>
         if env_signal envelope \<noteq> Metrics then Inr True
         else rbind (map_err OffloadError (decode_metric_chunk (env_payload envelope))) (\<lambda>points.
           if length points \<noteq> unat (env_item_count envelope) then
             Inl (OffloadError ''metric offload filter decoded a count different from its envelope'')
           else let selected = (\<exists>point \<in> set points. point \<in> names); unselected = (\<exists>point \<in> set points. point \<notin> names) in
           if selected \<and> unselected then
             Inl (OffloadError ''metric offload filter requires every envelope to have one selection outcome'')
           else Inr selected))"

definition native_batch :: "fetched_telemetry_batch \<Rightarrow> native_telemetry_batch" where
  "native_batch b = \<lparr>nb_partitions = [\<lparr>npa_topic_partition = fb_topic_partition b, npa_envelope = fb_envelope b, npa_transient_context = None\<rparr>]\<rparr>"

definition record_count :: "fetched_telemetry_batch \<Rightarrow> u64" where
  "record_count b = u64_saturating_add (if fb_last_offset b < fb_first_offset b then 0 else fb_last_offset b - fb_first_offset b) 1"

text \<open>The append of one batch under its retry identifier.\<close>

definition send_batch ::
  "offload_codes \<Rightarrow> offload_env \<Rightarrow> retry_namespace \<Rightarrow> fetched_telemetry_batch \<Rightarrow> offload_world \<Rightarrow> (offload_error + unit) \<times> offload_world" where
  "send_batch cd ev namespace b w =
     (case retry_id (cd_blake3 cd) (cd_formats cd) namespace (fb_topic_partition b) (fb_first_offset b) (fb_last_offset b) (native_batch b) of
        Inl e \<Rightarrow> (Inl e, w)
      | Inr request_id \<Rightarrow>
          (case append_with_request_id (cd_blake3 cd) (cd_formats cd) (ev_server ev (ow_attempts w)) (ev_net_fault ev (ow_attempts w))
                  (native_batch b) request_id (ow_client w) of
             (Inl e, client) \<Rightarrow> (Inl (OffloadError (nce_message e)), w\<lparr>ow_client := client, ow_attempts := ow_attempts w + 1\<rparr>)
           | (Inr _, client) \<Rightarrow> (Inr (), w\<lparr>ow_client := client, ow_attempts := ow_attempts w + 1,
               ow_acked := ow_acked w @ [(request_id, native_batch b)]\<rparr>)))"

text \<open>One round of the loop over the fetched batches: the report and the checkpoint so far.\<close>

definition forward_batch ::
  "offload_codes \<Rightarrow> offload_env \<Rightarrow> offloader \<Rightarrow> topic_partition \<Rightarrow> fetched_telemetry_batch \<Rightarrow> offload_report \<times> logical_offset option \<Rightarrow> offload_world
   \<Rightarrow> (offload_error + offload_report \<times> logical_offset option) \<times> offload_world" where
  "forward_batch cd ev off p b acc w =
     (if fb_topic_partition b \<noteq> p then (Inl (OffloadError ''upstream offload fetch returned a batch from another partition''), w)
      else (case should_forward_envelope (cd_decode_metric_chunk cd) (of_metric_names off) (fb_envelope b) of
          Inl e \<Rightarrow> (Inl e, w)
        | Inr should_forward \<Rightarrow>
            (case (if should_forward then
                     (case checkpoint_lock off of
                        Inl e \<Rightarrow> (Inl e, w)
                      | Inr journal \<Rightarrow>
                          (case send_batch cd ev (cj_retry_namespace journal) b w of
                             (Inl e, w) \<Rightarrow> (Inl e, w)
                           | (Inr _, w) \<Rightarrow> (Inr ((fst acc)\<lparr>or_offloaded_batches := usize_saturating_add (or_offloaded_batches (fst acc)) 1,
                               or_offloaded_records := u64_saturating_add (or_offloaded_records (fst acc)) (record_count b)\<rparr>), w)))
                   else (Inr ((fst acc)\<lparr>or_skipped_batches := usize_saturating_add (or_skipped_batches (fst acc)) 1,
                           or_skipped_records := u64_saturating_add (or_skipped_records (fst acc)) (record_count b)\<rparr>), w)) of
               (Inl e, w) \<Rightarrow> (Inl e, w)
             | (Inr report, w) \<Rightarrow>
                 (case u64_checked_add (fb_last_offset b) 1 of
                    None \<Rightarrow> (Inl (OffloadError ''upstream offload source offset exhausted''), w)
                  | Some next_offset \<Rightarrow> (Inr (report\<lparr>or_advanced_offsets := u64_saturating_add (or_advanced_offsets report) (record_count b)\<rparr>,
                      Some next_offset), w)))))"

fun forward_batches ::
  "offload_codes \<Rightarrow> offload_env \<Rightarrow> offloader \<Rightarrow> topic_partition \<Rightarrow> fetched_telemetry_batch list \<Rightarrow> offload_report \<times> logical_offset option \<Rightarrow> offload_world
   \<Rightarrow> (offload_error + offload_report \<times> logical_offset option) \<times> offload_world" where
  "forward_batches cd ev off p [] acc w = (Inr acc, w)"
| "forward_batches cd ev off p (b # bs) acc w = (case forward_batch cd ev off p b acc w of
       (Inl e, w) \<Rightarrow> (Inl e, w)
     | (Inr acc, w) \<Rightarrow> forward_batches cd ev off p bs acc w)"

text \<open>The fetch from the partition's start offset, in a worker thread that may fail to join.\<close>

definition fetch_partition ::
  "offload_codes \<Rightarrow> offload_env \<Rightarrow> offloader \<Rightarrow> topic_partition \<Rightarrow> offload_error + logical_offset \<times> fetched_telemetry_batch list" where
  "fetch_partition cd ev off p =
     rbind (start_offset (ev_engine ev) off p) (\<lambda>start.
     rbind (case ev_fetch_fault ev p of None \<Rightarrow> Inr () | Some e \<Rightarrow> Inl (OffloadError (''upstream offload fetch worker failed: '' @ e))) (\<lambda>_.
     rbind (map_err api_offload_error (fetch_telemetry_batches (cd_blake3 cd) (cd_formats cd) (ev_engine ev) p start (of_max_fetch_bytes off))) (\<lambda>batches.
     Inr (start, batches))))"

definition offloader_advance ::
  "offload_codes \<Rightarrow> offload_env \<Rightarrow> topic_partition \<Rightarrow> logical_offset \<Rightarrow> offloader \<Rightarrow> offload_world \<Rightarrow> (offload_error + unit) \<times> offloader \<times> offload_world" where
  "offloader_advance cd ev p next_offset off w = (case checkpoint_lock off of
       Inl e \<Rightarrow> (Inl e, off, w)
     | Inr journal \<Rightarrow>
         (case checkpoint_advance (cd_json cd) (ev_file_fault ev p) (ev_partial ev) p next_offset journal (ow_files w) of
            (r, journal, files) \<Rightarrow> (r, off\<lparr>of_journal := journal\<rparr>, w\<lparr>ow_files := files\<rparr>)))"

definition finish_partition ::
  "offload_codes \<Rightarrow> offload_env \<Rightarrow> topic_partition \<Rightarrow> offload_report \<times> logical_offset option \<Rightarrow> offloader \<Rightarrow> offload_world
   \<Rightarrow> (offload_error + offload_report) \<times> offloader \<times> offload_world" where
  "finish_partition cd ev p acc off w = (case acc of (report, checkpoint) \<Rightarrow>
     (case checkpoint of
        None \<Rightarrow> (Inr report, off, w)
      | Some next_offset \<Rightarrow>
          (case offloader_advance cd ev p next_offset off w of
             (Inl e, off, w) \<Rightarrow> (Inl e, off, w)
           | (Inr _, off, w) \<Rightarrow> (Inr (report\<lparr>or_checkpoint_writes := usize_saturating_add (or_checkpoint_writes report) 1\<rparr>), off, w))))"

definition offload_partition ::
  "offload_codes \<Rightarrow> offload_env \<Rightarrow> topic_partition \<Rightarrow> offloader \<Rightarrow> offload_world \<Rightarrow> (offload_error + offload_report) \<times> offloader \<times> offload_world" where
  "offload_partition cd ev p off w = (case fetch_partition cd ev off p of
       Inl e \<Rightarrow> (Inl e, off, w)
     | Inr (start, batches) \<Rightarrow>
         (case forward_batches cd ev off p batches (report_default\<lparr>or_scanned_partitions := 1\<rparr>, None) w of
            (Inl e, w) \<Rightarrow> (Inl e, off, w)
          | (Inr acc, w) \<Rightarrow> finish_partition cd ev p acc off w))"

section \<open>A round over all partitions\<close>

text \<open>
  Up to \<^verbatim>\<open>max_in_flight_partitions\<close> transfers are in flight; \<open>pick\<close> says which of them completes next, and
  the model performs a transfer where it completes. The steps of transfers that overlap interleave at
  their network calls; \<open>offload_run\<close> below covers all these interleavings.
\<close>

definition complete_next ::
  "offload_codes \<Rightarrow> offload_env \<Rightarrow> (topic_partition list \<Rightarrow> nat) \<Rightarrow> topic_partition list \<Rightarrow> offload_report \<times> offload_error option \<Rightarrow> offloader \<Rightarrow> offload_world
   \<Rightarrow> topic_partition list \<times> (offload_report \<times> offload_error option) \<times> offloader \<times> offload_world" where
  "complete_next cd ev pick in_flight acc off w =
     (let i = pick in_flight mod length in_flight in
      case offload_partition cd ev (in_flight ! i) off w of
        (result, off, w) \<Rightarrow> (take i in_flight @ drop (Suc i) in_flight, record_partition_result result acc, off, w))"

lemma length_complete_next:
  assumes "complete_next cd ev pick in_flight acc off w = (rest, acc', off', w')" "in_flight \<noteq> []"
  shows "length rest < length in_flight"
proof -
  have "pick in_flight mod length in_flight < length in_flight" using assms(2) by simp
  with assms(1) show ?thesis by (auto simp: complete_next_def Let_def split: prod.splits)
qed

function drain_in_flight ::
  "offload_codes \<Rightarrow> offload_env \<Rightarrow> (topic_partition list \<Rightarrow> nat) \<Rightarrow> topic_partition list \<Rightarrow> offload_report \<times> offload_error option \<Rightarrow> offloader \<Rightarrow> offload_world
   \<Rightarrow> (offload_report \<times> offload_error option) \<times> offloader \<times> offload_world" where
  "drain_in_flight cd ev pick in_flight acc off w =
     (if in_flight = [] then (acc, off, w)
      else case complete_next cd ev pick in_flight acc off w of
        (in_flight, acc, off, w) \<Rightarrow> drain_in_flight cd ev pick in_flight acc off w)"
  by pat_completeness auto

termination
  by (relation "measure (\<lambda>(_, _, _, in_flight, _). length in_flight)") (auto dest: sym simp: length_complete_next)

declare drain_in_flight.simps [simp del]

fun offload_all ::
  "offload_codes \<Rightarrow> offload_env \<Rightarrow> (topic_partition list \<Rightarrow> nat) \<Rightarrow> topic_partition list \<Rightarrow> topic_partition list \<Rightarrow> offload_report \<times> offload_error option
   \<Rightarrow> offloader \<Rightarrow> offload_world \<Rightarrow> (offload_report \<times> offload_error option) \<times> offloader \<times> offload_world" where
  "offload_all cd ev pick [] in_flight acc off w = drain_in_flight cd ev pick in_flight acc off w"
| "offload_all cd ev pick (p # ps) in_flight acc off w =
     (if \<not> (\<exists>signal \<in> of_signals off. signal_topic_id signal = topic_id p) then offload_all cd ev pick ps in_flight acc off w
      else if length (in_flight @ [p]) \<ge> of_max_in_flight_partitions off then
        (case complete_next cd ev pick (in_flight @ [p]) acc off w of
           (in_flight, acc, off, w) \<Rightarrow>
             if snd acc \<noteq> None then drain_in_flight cd ev pick in_flight acc off w
             else offload_all cd ev pick ps in_flight acc off w)
      else offload_all cd ev pick ps (in_flight @ [p]) acc off w)"

definition offload_once ::
  "offload_codes \<Rightarrow> offload_env \<Rightarrow> (topic_partition list \<Rightarrow> nat) \<Rightarrow> offloader \<Rightarrow> offload_world
   \<Rightarrow> (offload_error + offload_report) \<times> offloader \<times> offload_world" where
  "offload_once cd ev pick off w =
     (case offload_all cd ev pick (telemetry_partitions (ev_tenant_partitions ev)) [] (report_default, None) off w of
        ((report, first_error), off, w) \<Rightarrow> (case first_error of Some e \<Rightarrow> Inl e | None \<Rightarrow> Inr report, off, w))"

section \<open>The background loop\<close>

text \<open>
  What the loop's two \<^verbatim>\<open>select!\<close> statements see, in order: a completed round or the shutdown, which cancels
  the round or the wait it comes in. The result is None while the loop runs.
\<close>

datatype loop_event = Shutdown | RoundDone "offload_error + offload_report"

fun run_rounds :: "offload_loop_config \<Rightarrow> loop_event list \<Rightarrow> offload_loop_report \<Rightarrow> nat \<Rightarrow> (offload_error + offload_loop_report) option" where
  "run_rounds config [] report consecutive_failures = None"
| "run_rounds config (Shutdown # events) report consecutive_failures = Some (Inr report)"
| "run_rounds config (RoundDone (Inr round) # events) report consecutive_failures =
     run_rounds config events (loop_report_record round report) 0"
| "run_rounds config (RoundDone (Inl e) # events) report consecutive_failures =
     (let report = report\<lparr>ol_failed_rounds := u64_saturating_add (ol_failed_rounds report) 1\<rparr>;
          consecutive_failures = usize_saturating_add consecutive_failures 1 in
      if consecutive_failures \<ge> lc_max_consecutive_failures config then Some (Inl e)
      else run_rounds config events report consecutive_failures)"

definition run_until :: "offload_loop_config \<Rightarrow> loop_event list \<Rightarrow> (offload_error + offload_loop_report) option" where
  "run_until config events = (case loop_config_validate config of
       Inl e \<Rightarrow> Some (Inl e)
     | Inr _ \<Rightarrow> run_rounds config events loop_report_default 0)"

end
