(* ===== verification/OffloadGuarantees.thy ===== *)
theory OffloadGuarantees
  imports Offload
begin

text \<open>
  What the offloader promises: checkpoints never pass a record that has neither been acknowledged by
  the server nor been left out by the metric filter, retry identifiers tell records apart, and the
  background loop stops.
\<close>

section \<open>The journal's file\<close>

text \<open>The documented behaviour of the JSON codec.\<close>

definition checkpoints_lossless :: "offload_codecs \<Rightarrow> bool" where
  "checkpoints_lossless codecs \<longleftrightarrow> (\<forall>p bs. ocd_to_vec codecs p = Inr bs \<longrightarrow> ocd_from_slice codecs bs = Inr p)"

definition journal_valid :: "offload_codecs \<Rightarrow> bytes \<Rightarrow> checkpoint_journal \<Rightarrow> bool" where
  "journal_valid codecs source j \<longleftrightarrow> checkpoints_lossless codecs \<and> cj_source_id j = source \<and> btree_ok (cj_offsets j)
     \<and> cj_retry_namespace j \<in> {LegacyV1, SourceNamespace source}"

definition decode_journal :: "offload_codecs \<Rightarrow> bytes \<Rightarrow> bytes \<Rightarrow> offload_error + checkpoint_journal" where
  "decode_journal codecs source bs = rbind (parse_journal codecs bs) (restore_journal source)"

definition fresh_journal :: "bytes \<Rightarrow> checkpoint_journal" where
  "fresh_journal source = \<lparr>cj_source_id = source, cj_retry_namespace = SourceNamespace source, cj_offsets = []\<rparr>"

lemma restore_offsets:
  "btree_ok (acc @ xs) \<Longrightarrow>
     rfold restore_offset (map (\<lambda>(p, n). \<lparr>pk_topic_id = topic_id p, pk_partition_id = partition_id p, pk_next_offset = n\<rparr>) xs) acc = Inr (acc @ xs)"
proof (induction xs arbitrary: acc)
  case (Cons x xs)
  obtain p n where x: "x = (p, n)" by fastforce
  have below: "\<forall>k \<in> fst ` set acc. k < p" using Cons.prems by (auto simp: x btree_ok_def sorted_wrt_append)
  then have "map_of acc p = None" by (force simp: map_of_eq_None_iff)
  with below have "restore_offset \<lparr>pk_topic_id = topic_id p, pk_partition_id = partition_id p, pk_next_offset = n\<rparr> acc = Inr (acc @ [(p, n)])"
    by (simp add: restore_offset_def btree_insert_last)
  with Cons show ?case by (simp add: x)
qed simp

lemma namespaces_differ: "source_retry_namespace source \<noteq> ascii ''legacy-v1''"
  by (simp add: source_retry_namespace_def ascii_def)

lemma restore_persisted:
  assumes "cj_source_id j = source" "btree_ok (cj_offsets j)" "cj_retry_namespace j \<in> {LegacyV1, SourceNamespace source}"
  shows "restore_journal source (persisted_journal j) = Inr j"
proof -
  have "restored_namespace (persisted_journal j) source = Inr (cj_retry_namespace j)"
    using assms(1,3) namespaces_differ [of source]
    by (auto simp: restored_namespace_def persisted_journal_def OFFLOAD_CHECKPOINT_VERSION_def validate_persisted_source_def)
  moreover have "rfold restore_offset (pk_checkpoints (persisted_journal j)) [] = Inr (cj_offsets j)"
    using restore_offsets [of "[]" "cj_offsets j"] assms(2) by (simp add: persisted_journal_def)
  ultimately show ?thesis using assms(1) by (simp add: restore_journal_def)
qed

interpretation offload_file: file_catalog "encode_journal codecs" "decode_journal codecs source" "journal_valid codecs source"
  journal_io_error "fresh_journal source" for codecs source
proof
  fix j bs assume "journal_valid codecs source j" "encode_journal codecs j = Inr bs"
  then show "decode_journal codecs source bs = Inr j"
    by (simp add: journal_valid_def encode_journal_def map_err_eq_Inr checkpoints_lossless_def decode_journal_def parse_journal_def
        restore_persisted)
qed

lemma restore_fresh: "restore_journal source (fresh_checkpoints source) = Inr (fresh_journal source)"
  using restore_persisted [of "fresh_journal source" source]
  by (simp add: fresh_journal_def fresh_checkpoints_def persisted_journal_def)

lemma checkpoint_open_stored:
  "checkpoint_open codecs fault parent source fs = Inr j \<Longrightarrow> offload_file.stored codecs source fs = Inr j"
  by (auto simp: checkpoint_open_def offload_file.stored_def result_simps restore_fresh decode_journal_def split: option.splits)

lemma checkpoint_open_no_fault:
  "checkpoint_open codecs (\<lambda>_. None) parent source fs = offload_file.stored codecs source fs"
  by (auto simp: checkpoint_open_def offload_file.stored_def restore_fresh decode_journal_def split: option.splits)

lemma checkpoint_advance_cases:
  assumes v: "journal_valid codecs source j" and run: "checkpoint_advance codecs fault partial p next_offset j fs = (r, j', fs')"
  shows "j' = j\<lparr>cj_offsets := btree_insert p next_offset (cj_offsets j)\<rparr> \<and> journal_valid codecs source j'
    \<and> (offload_file.stored codecs source fs' = offload_file.stored codecs source fs \<or> offload_file.stored codecs source fs' = Inr j')"
proof -
  let ?j = "j\<lparr>cj_offsets := btree_insert p next_offset (cj_offsets j)\<rparr>"
  have v': "journal_valid codecs source ?j" using v by (simp add: journal_valid_def)
  have "checkpoint_persist codecs fault partial ?j fs = offload_file.commit codecs fault partial ?j fs"
    by (simp add: checkpoint_persist_def offload_file.commit_def)
  moreover obtain q fs1 where q: "offload_file.commit codecs fault partial ?j fs = (q, fs1)" by fastforce
  ultimately show ?thesis
    using run v' offload_file.commit_stored [OF v' q] by (auto simp: checkpoint_advance_def Let_def split: if_splits)
qed

section \<open>Forwarding\<close>

text \<open>
  A record of the log has been taken care of: it decodes, and the filter leaves it out or the server has
  acknowledged its append under its retry identifier.
\<close>

definition handled ::
  "offload_codes \<Rightarrow> bytes set option \<Rightarrow> retry_namespace \<Rightarrow> (u128 \<times> native_telemetry_batch) list \<Rightarrow> topic_partition \<Rightarrow> engine_batch \<Rightarrow> bool" where
  "handled cd names namespace acked p b \<longleftrightarrow> (\<exists>f. fetched_batch (cd_blake3 cd) (cd_formats cd) p b = Inr f
     \<and> (should_forward_envelope (cd_decode_metric_chunk cd) names (fb_envelope f) = Inr False
        \<or> (\<exists>i. retry_id (cd_blake3 cd) (cd_formats cd) namespace p (eb_first_offset b) (eb_last_offset b) (native_batch f) = Inr i
             \<and> (i, native_batch f) \<in> set acked)))"

definition genuine ::
  "offload_codes \<Rightarrow> retry_namespace \<Rightarrow> (topic_partition \<Rightarrow> engine_batch list) \<Rightarrow> (u128 \<times> native_telemetry_batch) \<Rightarrow> bool" where
  "genuine cd namespace wal x \<longleftrightarrow> (\<exists>p b f. b \<in> set (wal p) \<and> fetched_batch (cd_blake3 cd) (cd_formats cd) p b = Inr f \<and> snd x = native_batch f
     \<and> retry_id (cd_blake3 cd) (cd_formats cd) namespace p (eb_first_offset b) (eb_last_offset b) (native_batch f) = Inr (fst x))"

lemma handled_mono: "handled cd names namespace acked p b \<Longrightarrow> set acked \<subseteq> set acked' \<Longrightarrow> handled cd names namespace acked' p b"
  unfolding handled_def by blast

lemma fetched_batch_fields:
  "fetched_batch blake3 fmts p b = Inr f \<Longrightarrow>
     fb_topic_partition f = p \<and> fb_first_offset f = eb_first_offset b \<and> fb_last_offset f = eb_last_offset b
     \<and> envelope_decode blake3 (eb_payload b) = Inr (fb_envelope f)"
  by (auto simp: fetched_batch_def result_simps split: if_splits)

lemma send_batch_cases:
  assumes "send_batch cd ev namespace f w = (r, w')"
  shows "ow_files w' = ow_files w \<and> (\<exists>more. ow_acked w' = ow_acked w @ more
    \<and> (\<forall>x \<in> set more. snd x = native_batch f \<and> retry_id (cd_blake3 cd) (cd_formats cd) namespace (fb_topic_partition f)
         (fb_first_offset f) (fb_last_offset f) (native_batch f) = Inr (fst x))
    \<and> (r = Inr () \<longrightarrow> more \<noteq> []))"
  using assms by (auto simp: send_batch_def split: sum.splits prod.splits)

lemma forward_batch_cases:
  assumes f: "fetched_batch (cd_blake3 cd) (cd_formats cd) p b = Inr f"
    and run: "forward_batch cd ev off p f acc w = (r, w')"
  defines "namespace \<equiv> cj_retry_namespace (of_journal off)"
  shows "ow_files w' = ow_files w \<and> (\<exists>more. ow_acked w' = ow_acked w @ more
      \<and> (\<forall>x \<in> set more. snd x = native_batch f
          \<and> retry_id (cd_blake3 cd) (cd_formats cd) namespace p (eb_first_offset b) (eb_last_offset b) (native_batch f) = Inr (fst x)))
    \<and> (\<forall>acc'. r = Inr acc' \<longrightarrow> handled cd (of_metric_names off) namespace (ow_acked w') p b
        \<and> eb_last_offset b < eb_last_offset b + 1 \<and> snd acc' = Some (eb_last_offset b + 1))"
proof -
  note fields = fetched_batch_fields [OF f]
  have add: "n < n + 1 \<and> m = n + 1" if "u64_checked_add n 1 = Some m" for n m :: u64
    using that by (auto simp: u64_checked_add_def word_less_nat_alt unat_word_ariths split: if_splits)
  show ?thesis
  proof (cases "should_forward_envelope (cd_decode_metric_chunk cd) (of_metric_names off) (fb_envelope f)")
    case (Inl e)
    with run fields show ?thesis by (auto simp: forward_batch_def)
  next
    case (Inr should)
    show ?thesis
    proof (cases should)
      case False
      with Inr have "handled cd (of_metric_names off) namespace acked p b" for acked using f by (auto simp: handled_def)
      with run fields Inr False show ?thesis
        by (auto simp: forward_batch_def split: option.splits dest!: add)
    next
      case True
      show ?thesis
      proof (cases "checkpoint_lock off")
        case (Inl e)
        with run fields Inr True show ?thesis by (auto simp: forward_batch_def)
      next
        case lock: (Inr journal)
        then have j: "journal = of_journal off" by (auto simp: checkpoint_lock_def split: if_splits)
        obtain q w1 where q: "send_batch cd ev namespace f w = (q, w1)" by fastforce
        from send_batch_cases [OF q] fields obtain more where more: "ow_files w1 = ow_files w" "ow_acked w1 = ow_acked w @ more"
          "\<forall>x \<in> set more. snd x = native_batch f \<and> retry_id (cd_blake3 cd) (cd_formats cd) namespace p
             (eb_first_offset b) (eb_last_offset b) (native_batch f) = Inr (fst x)" "q = Inr () \<longrightarrow> more \<noteq> []" by auto
        have "handled cd (of_metric_names off) namespace (ow_acked w1) p b" if "q = Inr ()"
        proof -
          from that more(4) obtain x where "x \<in> set more" by (cases more) auto
          with more(2,3) f show ?thesis by (cases x) (auto simp: handled_def)
        qed
        with run fields Inr True lock j q more(1-3) show ?thesis
          by (cases q) (auto simp: forward_batch_def namespace_def split: option.splits dest!: add)
      qed
    qed
  qed
qed

section \<open>All interleavings\<close>

text \<open>
  A transfer in flight: the batches that remain of its fetch, and its report and checkpoint so far. The
  function gives the transfer of each partition.
\<close>

record offload_task =
  tk_batches :: "fetched_telemetry_batch list"
  tk_acc :: "offload_report \<times> logical_offset option"

text \<open>
  The documented behaviour of the engine on a log: a fetch returns the batches that reach the start
  offset, in order, up to some number of them.
\<close>

definition engine_ok :: "(topic_partition \<Rightarrow> engine_batch list) \<Rightarrow> engine \<Rightarrow> bool" where
  "engine_ok wal e \<longleftrightarrow> (\<forall>p start max_bytes bs. en_fetch e p start max_bytes = Inr bs
     \<longrightarrow> (\<exists>n. bs = take n (filter (\<lambda>b. start \<le> eb_last_offset b) (wal p))))"

definition wal_ok :: "engine_batch list \<Rightarrow> bool" where
  "wal_ok bs \<longleftrightarrow> sorted_wrt (\<lambda>a b. eb_last_offset a < eb_first_offset b) bs \<and> (\<forall>b \<in> set bs. eb_first_offset b \<le> eb_last_offset b)"

text \<open>
  The life of an offloader: transfers of different partitions start, forward one batch at a time and
  finish in any order; each step meets its own engine, network and faults; the round can be cancelled
  and the process restarted at any time. The last argument is the highest start of the log any fetch
  has met, below which the local store may have dropped records.
\<close>

inductive offload_run ::
  "offload_codes \<Rightarrow> upstream_offload_config \<Rightarrow> (topic_partition \<Rightarrow> engine_batch list) \<Rightarrow> offloader \<Rightarrow> offload_world
   \<Rightarrow> (topic_partition \<Rightarrow> offload_task option) \<Rightarrow> (topic_partition \<Rightarrow> logical_offset) \<Rightarrow> bool" for cd config wal where
  opened: "fp_main (ow_files w) = None \<Longrightarrow> ow_acked w = [] \<Longrightarrow> offloader_open (cd_json cd) fault parent config (ow_files w) = Inr off
    \<Longrightarrow> offload_run cd config wal off w (\<lambda>_. None) (\<lambda>_. 0)"
| began: "offload_run cd config wal off w ts low \<Longrightarrow> ts p = None \<Longrightarrow> engine_ok wal (ev_engine ev)
    \<Longrightarrow> en_log_start (ev_engine ev) p = Inr local_start \<Longrightarrow> fetch_partition cd ev off p = Inr (start, batches)
    \<Longrightarrow> offload_run cd config wal off w (ts(p \<mapsto> \<lparr>tk_batches = batches, tk_acc = (report_default\<lparr>or_scanned_partitions := 1\<rparr>, None)\<rparr>))
         (low(p := max (low p) local_start))"
| forwarded: "offload_run cd config wal off w ts low \<Longrightarrow> ts p = Some \<lparr>tk_batches = b # bs, tk_acc = acc\<rparr>
    \<Longrightarrow> forward_batch cd ev off p b acc w = (Inr acc', w')
    \<Longrightarrow> offload_run cd config wal off w' (ts(p \<mapsto> \<lparr>tk_batches = bs, tk_acc = acc'\<rparr>)) low"
| failed: "offload_run cd config wal off w ts low \<Longrightarrow> ts p = Some \<lparr>tk_batches = b # bs, tk_acc = acc\<rparr>
    \<Longrightarrow> forward_batch cd ev off p b acc w = (Inl e, w') \<Longrightarrow> offload_run cd config wal off w' (ts(p := None)) low"
| finished: "offload_run cd config wal off w ts low \<Longrightarrow> ts p = Some \<lparr>tk_batches = [], tk_acc = acc\<rparr>
    \<Longrightarrow> finish_partition cd ev p acc off w = (r, off', w') \<Longrightarrow> offload_run cd config wal off' w' (ts(p := None)) low"
| cancelled: "offload_run cd config wal off w ts low \<Longrightarrow> offload_run cd config wal off w (\<lambda>_. None) low"
| restarted: "offload_run cd config wal off w ts low \<Longrightarrow> offloader_open (cd_json cd) fault parent config (ow_files w) = Inr off'
    \<Longrightarrow> offload_run cd config wal off' (w\<lparr>ow_client := client\<rparr>) (\<lambda>_. None) low"

section \<open>The invariant\<close>

definition covered ::
  "offload_codes \<Rightarrow> upstream_offload_config \<Rightarrow> (topic_partition \<Rightarrow> engine_batch list) \<Rightarrow> (u128 \<times> native_telemetry_batch) list
   \<Rightarrow> logical_offset \<Rightarrow> topic_partition \<Rightarrow> logical_offset \<Rightarrow> bool" where
  "covered cd config wal acked low p n \<longleftrightarrow> (\<forall>b \<in> set (wal p). low \<le> eb_first_offset b \<and> eb_last_offset b < n
     \<longrightarrow> handled cd (oc_metric_names config) (SourceNamespace (oc_source_id config)) acked p b)"

definition journal_covered where
  "journal_covered cd config wal acked low j \<longleftrightarrow> journal_valid (cd_json cd) (oc_source_id config) j
     \<and> cj_retry_namespace j = SourceNamespace (oc_source_id config)
     \<and> (\<forall>p n. checkpoint_next j p = Some n \<longrightarrow> covered cd config wal acked (low p) p n)"

definition task_ok where
  "task_ok cd config wal acked low p t \<longleftrightarrow> (\<exists>start n sent rest. covered cd config wal acked low p start
     \<and> take n (filter (\<lambda>b. start \<le> eb_last_offset b) (wal p)) = sent @ rest
     \<and> list_all2 (\<lambda>b f. fetched_batch (cd_blake3 cd) (cd_formats cd) p b = Inr f) rest (tk_batches t)
     \<and> (\<forall>b \<in> set sent. handled cd (oc_metric_names config) (SourceNamespace (oc_source_id config)) acked p b)
     \<and> (case snd (tk_acc t) of None \<Rightarrow> True
         | Some m \<Rightarrow> sent \<noteq> [] \<and> m = eb_last_offset (last sent) + 1 \<and> eb_last_offset (last sent) < m))"

definition offload_inv where
  "offload_inv cd config wal off w ts low \<longleftrightarrow> of_metric_names off = oc_metric_names config
     \<and> journal_covered cd config wal (ow_acked w) low (of_journal off)
     \<and> (\<exists>j. offload_file.stored (cd_json cd) (oc_source_id config) (ow_files w) = Inr j \<and> journal_covered cd config wal (ow_acked w) low j)
     \<and> (\<forall>p t. ts p = Some t \<longrightarrow> task_ok cd config wal (ow_acked w) (low p) p t)
     \<and> (\<forall>x \<in> set (ow_acked w). genuine cd (SourceNamespace (oc_source_id config)) wal x)"

lemma covered_mono:
  "covered cd config wal acked low p n \<Longrightarrow> set acked \<subseteq> set acked' \<Longrightarrow> low \<le> low' \<Longrightarrow> covered cd config wal acked' low' p n"
  unfolding covered_def using handled_mono order_trans by meson

lemma journal_covered_mono:
  "journal_covered cd config wal acked low j \<Longrightarrow> set acked \<subseteq> set acked' \<Longrightarrow> (\<And>p. low p \<le> low' p)
   \<Longrightarrow> journal_covered cd config wal acked' low' j"
  unfolding journal_covered_def using covered_mono by metis

lemma task_ok_mono:
  "task_ok cd config wal acked low p t \<Longrightarrow> set acked \<subseteq> set acked' \<Longrightarrow> low \<le> low' \<Longrightarrow> task_ok cd config wal acked' low' p t"
  unfolding task_ok_def using covered_mono handled_mono by meson

lemma offload_inv_mono:
  assumes "offload_inv cd config wal off w ts low" "ow_files w' = ow_files w" "ow_acked w' = ow_acked w @ new"
    "\<forall>x \<in> set new. genuine cd (SourceNamespace (oc_source_id config)) wal x" "\<And>p. low p \<le> low' p"
  shows "offload_inv cd config wal off w' ts low'"
proof -
  have sub: "set (ow_acked w) \<subseteq> set (ow_acked w')" using assms(3) by auto
  note jc = journal_covered_mono [OF _ sub assms(5)]
  have mem: "journal_covered cd config wal (ow_acked w') low' (of_journal off)"
    using assms(1) by (auto simp: offload_inv_def intro: jc)
  have disk: "\<exists>j. offload_file.stored (cd_json cd) (oc_source_id config) (ow_files w') = Inr j \<and> journal_covered cd config wal (ow_acked w') low' j"
    using assms(1,2) by (auto simp: offload_inv_def intro: jc)
  have tasks: "task_ok cd config wal (ow_acked w') (low' p) p t" if "ts p = Some t" for p t
    using assms(1) that unfolding offload_inv_def by (blast intro: task_ok_mono [OF _ sub assms(5)])
  have gen: "\<forall>x \<in> set (ow_acked w'). genuine cd (SourceNamespace (oc_source_id config)) wal x"
    using assms(1,3,4) by (auto simp: offload_inv_def)
  from assms(1) mem disk tasks gen show ?thesis by (simp add: offload_inv_def)
qed

text \<open>A fetched segment reaches its last record without a gap.\<close>

lemma sorted_wal_lasts: "wal_ok bs \<Longrightarrow> sorted_wrt (\<lambda>a b. eb_last_offset a < eb_last_offset b) bs"
  unfolding wal_ok_def
  by (induction bs) (auto intro: order_less_le_trans)

lemma covered_segment:
  assumes wal: "wal_ok (wal p)" and start: "covered cd config wal acked low p start"
    and seg: "take n (filter (\<lambda>b. start \<le> eb_last_offset b) (wal p)) = sent @ rest" "sent \<noteq> []"
    and sent: "\<forall>b \<in> set sent. handled cd (oc_metric_names config) (SourceNamespace (oc_source_id config)) acked p b"
  shows "covered cd config wal acked low p (eb_last_offset (last sent) + 1)"
  unfolding covered_def
proof (intro ballI impI, elim conjE)
  fix b assume b: "b \<in> set (wal p)" "low \<le> eb_first_offset b" "eb_last_offset b < eb_last_offset (last sent) + 1"
  let ?f = "filter (\<lambda>b. start \<le> eb_last_offset b) (wal p)"
  show "handled cd (oc_metric_names config) (SourceNamespace (oc_source_id config)) acked p b"
  proof (cases "eb_last_offset b < start")
    case True
    with start b show ?thesis by (simp add: covered_def)
  next
    case False
    have le: "eb_last_offset b \<le> eb_last_offset (last sent)" using b(3) by (meson inc_le leD not_le)
    obtain tail where f: "?f = sent @ tail" using seg(1) by (metis append.assoc append_take_drop_id)
    have "sorted_wrt (\<lambda>a b. eb_last_offset a < eb_last_offset b) ?f" using sorted_wal_lasts [OF wal] by (rule sorted_wrt_filter)
    then have "\<forall>y \<in> set tail. eb_last_offset (last sent) < eb_last_offset y" using f seg(2) by (simp add: sorted_wrt_append)
    moreover have "b \<in> set ?f" using b(1) False by simp
    ultimately have "b \<in> set sent" using f le by fastforce
    with sent show ?thesis by blast
  qed
qed

lemma offload_inv_task:
  "offload_inv cd config wal off w ts low \<Longrightarrow> task_ok cd config wal (ow_acked w) (low p) p t
   \<Longrightarrow> offload_inv cd config wal off w (ts(p \<mapsto> t)) low"
  unfolding offload_inv_def by auto

lemma collect_results_all2: "collect_results f xs = Inr ys \<Longrightarrow> list_all2 (\<lambda>x y. f x = Inr y) xs ys"
  by (induction xs arbitrary: ys) (auto simp: result_simps)

lemma task_begins:
  assumes inv: "offload_inv cd config wal off w ts low" and wal: "wal_ok (wal p)" and e: "engine_ok wal (ev_engine ev)"
    and local_start: "en_log_start (ev_engine ev) p = Inr local_start" and fetch: "fetch_partition cd ev off p = Inr (start, batches)"
  shows "task_ok cd config wal (ow_acked w) (max (low p) local_start) p \<lparr>tk_batches = batches, tk_acc = (report, None)\<rparr>"
proof -
  from fetch local_start obtain bs where start: "start = (case checkpoint_next (of_journal off) p of None \<Rightarrow> local_start | Some c \<Rightarrow> max c local_start)"
    and bs: "en_fetch (ev_engine ev) p start (of_max_fetch_bytes off) = Inr bs"
      "collect_results (fetched_batch (cd_blake3 cd) (cd_formats cd) p) bs = Inr batches"
    by (auto simp: fetch_partition_def start_offset_def telemetry_partition_start_offset_def checkpoint_lock_def
        fetch_telemetry_batches_def result_simps split: if_splits option.splits)
  obtain n where n: "bs = take n (filter (\<lambda>b. start \<le> eb_last_offset b) (wal p))" using e bs(1) unfolding engine_ok_def by blast
  have below: "\<not> max (low p) local_start \<le> eb_first_offset b" if "b \<in> set (wal p)" "eb_last_offset b < local_start" for b
    using wal that unfolding wal_ok_def by fastforce
  have mem: "covered cd config wal (ow_acked w) (max (low p) local_start) p c" if "checkpoint_next (of_journal off) p = Some c" for c
    using inv that covered_mono [OF _ subset_refl max.cobounded1] by (auto simp: offload_inv_def journal_covered_def)
  have "covered cd config wal (ow_acked w) (max (low p) local_start) p start"
    unfolding start using mem below by (force simp: covered_def less_max_iff_disj split: option.split)
  with n collect_results_all2 [OF bs(2)] show ?thesis
    unfolding task_ok_def by (intro exI [of _ start] exI [of _ n] exI [of _ "[]"] exI [of _ bs]) simp
qed

lemma task_forwards:
  assumes t: "task_ok cd config wal (ow_acked w) low p \<lparr>tk_batches = f # fs, tk_acc = acc\<rparr>"
    and off: "of_metric_names off = oc_metric_names config" "cj_retry_namespace (of_journal off) = SourceNamespace (oc_source_id config)"
    and run: "forward_batch cd ev off p f acc w = (r, w')"
  shows "ow_files w' = ow_files w \<and> (\<exists>new. ow_acked w' = ow_acked w @ new
      \<and> (\<forall>x \<in> set new. genuine cd (SourceNamespace (oc_source_id config)) wal x))
    \<and> (\<forall>acc'. r = Inr acc' \<longrightarrow> task_ok cd config wal (ow_acked w') low p \<lparr>tk_batches = fs, tk_acc = acc'\<rparr>)"
proof -
  from t obtain start n sent b rest where seg: "covered cd config wal (ow_acked w) low p start"
      "take n (filter (\<lambda>b. start \<le> eb_last_offset b) (wal p)) = sent @ b # rest"
    and fetched: "fetched_batch (cd_blake3 cd) (cd_formats cd) p b = Inr f"
      "list_all2 (\<lambda>b f. fetched_batch (cd_blake3 cd) (cd_formats cd) p b = Inr f) rest fs"
    and sent: "\<forall>b \<in> set sent. handled cd (oc_metric_names config) (SourceNamespace (oc_source_id config)) (ow_acked w) p b"
    unfolding task_ok_def by (auto simp: list_all2_Cons2)
  from forward_batch_cases [OF fetched(1) run] off obtain new where new: "ow_files w' = ow_files w" "ow_acked w' = ow_acked w @ new"
      "\<forall>x \<in> set new. snd x = native_batch f \<and> retry_id (cd_blake3 cd) (cd_formats cd) (SourceNamespace (oc_source_id config)) p
         (eb_first_offset b) (eb_last_offset b) (native_batch f) = Inr (fst x)"
    and ok: "\<And>acc'. r = Inr acc' \<Longrightarrow> handled cd (oc_metric_names config) (SourceNamespace (oc_source_id config)) (ow_acked w') p b
        \<and> eb_last_offset b < eb_last_offset b + 1 \<and> snd acc' = Some (eb_last_offset b + 1)" by auto
  have "b \<in> set (take n (filter (\<lambda>b. start \<le> eb_last_offset b) (wal p)))" by (simp add: seg(2))
  then have "b \<in> set (wal p)" by (auto dest: in_set_takeD)
  then have gen: "\<forall>x \<in> set new. genuine cd (SourceNamespace (oc_source_id config)) wal x"
    using new(3) fetched(1) unfolding genuine_def by blast
  have sub: "set (ow_acked w) \<subseteq> set (ow_acked w')" using new(2) by auto
  have "task_ok cd config wal (ow_acked w') low p \<lparr>tk_batches = fs, tk_acc = acc'\<rparr>" if "r = Inr acc'" for acc'
    unfolding task_ok_def
    using covered_mono [OF seg(1) sub order_refl] seg(2) fetched(2) handled_mono [OF _ sub] sent ok [OF that]
    by (intro exI [of _ start] exI [of _ n] exI [of _ "sent @ [b]"] exI [of _ rest]) auto
  with new(1,2) gen show ?thesis by blast
qed

lemma journal_covered_advance:
  assumes j: "journal_covered cd config wal acked low j" and n: "covered cd config wal acked (low p) p n"
  shows "journal_covered cd config wal acked low (j\<lparr>cj_offsets := btree_insert p n (cj_offsets j)\<rparr>)"
  using assms by (auto simp: journal_covered_def journal_valid_def checkpoint_next_def)

lemma finish_inv:
  assumes inv: "offload_inv cd config wal off w ts low" and wal: "wal_ok (wal p)"
    and t: "ts p = Some \<lparr>tk_batches = [], tk_acc = acc\<rparr>" and run: "finish_partition cd ev p acc off w = (r, off', w')"
  shows "offload_inv cd config wal off' w' (ts(p := None)) low"
proof -
  obtain report checkpoint where acc: "acc = (report, checkpoint)" by fastforce
  show ?thesis
  proof (cases "checkpoint = None \<or> of_poisoned off")
    case True
    then have "off' = off \<and> w' = w"
      using run by (auto simp: acc finish_partition_def offloader_advance_def checkpoint_lock_def split: option.splits)
    with inv show ?thesis by (auto simp: offload_inv_def)
  next
    case False
    then obtain n where n: "checkpoint = Some n" and lock: "checkpoint_lock off = Inr (of_journal off)" by (auto simp: checkpoint_lock_def)
    from inv t have "task_ok cd config wal (ow_acked w) (low p) p \<lparr>tk_batches = [], tk_acc = acc\<rparr>" by (simp add: offload_inv_def)
    then obtain start k sent rest where "covered cd config wal (ow_acked w) (low p) p start"
      "take k (filter (\<lambda>b. start \<le> eb_last_offset b) (wal p)) = sent @ rest" "sent \<noteq> []"
      "\<forall>b \<in> set sent. handled cd (oc_metric_names config) (SourceNamespace (oc_source_id config)) (ow_acked w) p b"
      and "n = eb_last_offset (last sent) + 1"
      unfolding task_ok_def acc n offload_task.simps snd_conv option.case by blast
    with covered_segment [of wal p, OF wal] have cov: "covered cd config wal (ow_acked w) (low p) p n" by blast
    obtain q j' files where adv: "checkpoint_advance (cd_json cd) (ev_file_fault ev p) (ev_partial ev) p n (of_journal off) (ow_files w) = (q, j', files)"
      by (metis prod_cases3)
    have res: "off' = off\<lparr>of_journal := j'\<rparr>" "w' = w\<lparr>ow_files := files\<rparr>"
      using run by (cases q; simp add: acc n finish_partition_def offloader_advance_def lock adv)+
    have mem: "journal_covered cd config wal (ow_acked w) low (of_journal off)" using inv by (simp add: offload_inv_def)
    then have "journal_valid (cd_json cd) (oc_source_id config) (of_journal off)" by (simp add: journal_covered_def)
    from checkpoint_advance_cases [OF this adv] have j': "j' = (of_journal off)\<lparr>cj_offsets := btree_insert p n (cj_offsets (of_journal off))\<rparr>"
      "offload_file.stored (cd_json cd) (oc_source_id config) files = offload_file.stored (cd_json cd) (oc_source_id config) (ow_files w)
       \<or> offload_file.stored (cd_json cd) (oc_source_id config) files = Inr j'" by auto
    have "journal_covered cd config wal (ow_acked w) low j'" unfolding j'(1) by (rule journal_covered_advance [OF mem cov])
    with inv j'(2) show ?thesis unfolding res by (auto simp: offload_inv_def)
  qed
qed

lemma offload_run_inv:
  assumes run: "offload_run cd config wal off w ts low" and wal: "\<And>p. wal_ok (wal p)" and lossless: "checkpoints_lossless (cd_json cd)"
  shows "offload_inv cd config wal off w ts low"
  using run
proof induction
  case (opened w fault parent off)
  then have s: "offload_file.stored (cd_json cd) (oc_source_id config) (ow_files w) = Inr (fresh_journal (oc_source_id config))"
    by (simp add: offload_file.stored_def)
  with opened(3) checkpoint_open_stored [of "cd_json cd" fault parent "oc_source_id config" "ow_files w"]
  have "of_journal off = fresh_journal (oc_source_id config)" "of_metric_names off = oc_metric_names config"
    by (auto simp: offloader_open_def result_simps)
  with s opened(2) lossless show ?case
    by (simp add: offload_inv_def journal_covered_def journal_valid_def fresh_journal_def checkpoint_next_def)
next
  case (began off w ts low p ev local_start start batches)
  have "offload_inv cd config wal off w ts (low(p := max (low p) local_start))"
    by (rule offload_inv_mono [OF began.IH refl, of "[]"]) auto
  then show ?case by (rule offload_inv_task) (simp add: task_begins [OF began.IH wal began.hyps(3-5)])
next
  case (forwarded off w ts low p b bs acc ev acc' w')
  have off: "of_metric_names off = oc_metric_names config" "cj_retry_namespace (of_journal off) = SourceNamespace (oc_source_id config)"
    and t: "task_ok cd config wal (ow_acked w) (low p) p \<lparr>tk_batches = b # bs, tk_acc = acc\<rparr>"
    using forwarded.IH forwarded.hyps(2) by (auto simp: offload_inv_def journal_covered_def)
  from task_forwards [OF t off forwarded.hyps(3)] obtain new where new: "ow_files w' = ow_files w" "ow_acked w' = ow_acked w @ new"
    "\<forall>x \<in> set new. genuine cd (SourceNamespace (oc_source_id config)) wal x"
    "task_ok cd config wal (ow_acked w') (low p) p \<lparr>tk_batches = bs, tk_acc = acc'\<rparr>" by auto
  have "offload_inv cd config wal off w' ts low" by (rule offload_inv_mono [OF forwarded.IH new(1-3)]) simp
  then show ?case by (rule offload_inv_task) (rule new(4))
next
  case (failed off w ts low p b bs acc ev e w')
  have off: "of_metric_names off = oc_metric_names config" "cj_retry_namespace (of_journal off) = SourceNamespace (oc_source_id config)"
    and t: "task_ok cd config wal (ow_acked w) (low p) p \<lparr>tk_batches = b # bs, tk_acc = acc\<rparr>"
    using failed.IH failed.hyps(2) by (auto simp: offload_inv_def journal_covered_def)
  from task_forwards [OF t off failed.hyps(3)] obtain new where "ow_files w' = ow_files w" "ow_acked w' = ow_acked w @ new"
    "\<forall>x \<in> set new. genuine cd (SourceNamespace (oc_source_id config)) wal x" by auto
  with offload_inv_mono [OF failed.IH, of w' new low] show ?case by (auto simp: offload_inv_def)
next
  case (finished off w ts low p acc ev r off' w')
  show ?case by (rule finish_inv [OF finished.IH wal finished.hyps(2,3)])
next
  case (cancelled off w ts low)
  then show ?case by (simp add: offload_inv_def)
next
  case (restarted off w ts low fault parent off' client)
  from restarted.hyps(2) checkpoint_open_stored [of "cd_json cd" fault parent "oc_source_id config" "ow_files w"]
  have "offload_file.stored (cd_json cd) (oc_source_id config) (ow_files w) = Inr (of_journal off')" "of_metric_names off' = oc_metric_names config"
    by (auto simp: offloader_open_def result_simps)
  with restarted.IH show ?case by (auto simp: offload_inv_def)
qed

section \<open>Rounds are runs\<close>

text \<open>The transfers and rounds of the code are sequences of these steps.\<close>

lemma forward_batches_run:
  "offload_run cd config wal off w (ts(p \<mapsto> \<lparr>tk_batches = bs, tk_acc = acc\<rparr>)) low \<Longrightarrow>
   forward_batches cd ev off p bs acc w = (r, w') \<Longrightarrow>
   (case r of Inl e \<Rightarrow> offload_run cd config wal off w' (ts(p := None)) low
    | Inr acc' \<Rightarrow> offload_run cd config wal off w' (ts(p \<mapsto> \<lparr>tk_batches = [], tk_acc = acc'\<rparr>)) low)"
proof (induction bs arbitrary: acc w)
  case (Cons b bs)
  obtain q w1 where q: "forward_batch cd ev off p b acc w = (q, w1)" by fastforce
  show ?case
  proof (cases q)
    case (Inl e)
    have "offload_run cd config wal off w1 (ts(p := None)) low"
      using offload_run.failed [OF Cons.prems(1) _ q [unfolded Inl], of bs, unfolded fun_upd_upd] by simp
    with Cons.prems(2) q Inl show ?thesis by auto
  next
    case (Inr acc1)
    have "offload_run cd config wal off w1 (ts(p \<mapsto> \<lparr>tk_batches = bs, tk_acc = acc1\<rparr>)) low"
      using offload_run.forwarded [OF Cons.prems(1) _ q [unfolded Inr], of bs, unfolded fun_upd_upd] by simp
    from Cons.IH [OF this] Cons.prems(2) q Inr show ?thesis by simp
  qed
qed auto

lemma offload_partition_run:
  assumes run: "offload_run cd config wal off w ts low" and p: "ts p = None" and e: "engine_ok wal (ev_engine ev)"
    and res: "offload_partition cd ev p off w = (r, off', w')"
  shows "\<exists>low'. (\<forall>q. low q \<le> low' q) \<and> offload_run cd config wal off' w' ts low'"
proof (cases "fetch_partition cd ev off p")
  case (Inl e)
  with res run show ?thesis by (auto simp: offload_partition_def)
next
  case (Inr x)
  obtain start batches where x: "x = (start, batches)" by fastforce
  obtain l where l: "en_log_start (ev_engine ev) p = Inr l"
    using Inr by (auto simp: fetch_partition_def start_offset_def telemetry_partition_start_offset_def result_simps)
  let ?low = "low(p := max (low p) l)" and ?acc = "(report_default\<lparr>or_scanned_partitions := 1\<rparr>, None)"
  have begun: "offload_run cd config wal off w (ts(p \<mapsto> \<lparr>tk_batches = batches, tk_acc = ?acc\<rparr>)) ?low"
    using offload_run.began [OF run p e l] Inr x by simp
  have ts: "(ts(p \<mapsto> t))(p := None) = ts" "ts(p := None) = ts" for t using p by auto
  obtain q w1 where q: "forward_batches cd ev off p batches ?acc w = (q, w1)" by fastforce
  have "offload_run cd config wal off' w' ts ?low"
  proof (cases q)
    case (Inl e)
    with forward_batches_run [OF begun q] res q \<open>fetch_partition cd ev off p = Inr x\<close> x ts show ?thesis by (simp add: offload_partition_def)
  next
    case acc: (Inr acc')
    with forward_batches_run [OF begun q] have "offload_run cd config wal off w1 (ts(p \<mapsto> \<lparr>tk_batches = [], tk_acc = acc'\<rparr>)) ?low" by simp
    moreover have "finish_partition cd ev p acc' off w1 = (r, off', w')" using res q acc Inr x by (simp add: offload_partition_def)
    ultimately have "offload_run cd config wal off' w' ((ts(p \<mapsto> \<lparr>tk_batches = [], tk_acc = acc'\<rparr>))(p := None)) ?low"
      by (intro offload_run.finished [where p = p and acc = acc']) auto
    then show ?thesis unfolding ts .
  qed
  moreover have "\<forall>q. low q \<le> ?low q" by simp
  ultimately show ?thesis by blast
qed

lemma complete_next_run:
  assumes "offload_run cd config wal off w (\<lambda>_. None) low" "engine_ok wal (ev_engine ev)"
    and "complete_next cd ev pick in_flight acc off w = (rest, acc', off', w')"
  shows "\<exists>low'. (\<forall>q. low q \<le> low' q) \<and> offload_run cd config wal off' w' (\<lambda>_. None) low'"
  using assms(3) offload_partition_run [OF assms(1) refl assms(2)]
  by (auto simp: complete_next_def Let_def split: prod.splits)

lemma drain_run:
  "offload_run cd config wal off w (\<lambda>_. None) low \<Longrightarrow> engine_ok wal (ev_engine ev) \<Longrightarrow>
   drain_in_flight cd ev pick in_flight acc off w = (acc', off', w') \<Longrightarrow>
   \<exists>low'. (\<forall>q. low q \<le> low' q) \<and> offload_run cd config wal off' w' (\<lambda>_. None) low'"
proof (induction cd ev pick in_flight acc off w arbitrary: low rule: drain_in_flight.induct)
  case (1 cd ev pick in_flight acc off w)
  show ?case
  proof (cases "in_flight = []")
    case True
    with 1(2,4) show ?thesis by (auto simp: drain_in_flight.simps)
  next
    case False
    obtain rest acc1 off1 w1 where c: "complete_next cd ev pick in_flight acc off w = (rest, acc1, off1, w1)" by (metis prod_cases4)
    from complete_next_run [OF 1(2,3) c] obtain low1 where low1: "\<forall>q. low q \<le> low1 q" "offload_run cd config wal off1 w1 (\<lambda>_. None) low1" by blast
    have "drain_in_flight cd ev pick rest acc1 off1 w1 = (acc', off', w')"
      using 1(4) False c by (simp add: drain_in_flight.simps [of cd ev pick in_flight])
    from 1(1) [OF False c [symmetric] refl refl low1(2) 1(3) this] low1(1) show ?thesis by (meson order_trans)
  qed
qed

lemma offload_all_run:
  "offload_run cd config wal off w (\<lambda>_. None) low \<Longrightarrow> engine_ok wal (ev_engine ev) \<Longrightarrow>
   offload_all cd ev pick ps in_flight acc off w = (acc', off', w') \<Longrightarrow>
   \<exists>low'. (\<forall>q. low q \<le> low' q) \<and> offload_run cd config wal off' w' (\<lambda>_. None) low'"
proof (induction ps arbitrary: in_flight acc off w low)
  case Nil
  then show ?case by (auto intro: drain_run)
next
  case (Cons p ps)
  obtain rest acc1 off1 w1 where c: "complete_next cd ev pick (in_flight @ [p]) acc off w = (rest, acc1, off1, w1)" by (metis prod_cases4)
  from complete_next_run [OF Cons.prems(1,2) c] obtain low1 where low1: "\<forall>q. low q \<le> low1 q" "offload_run cd config wal off1 w1 (\<lambda>_. None) low1" by blast
  have "\<exists>low'. (\<forall>q. low q \<le> low' q) \<and> offload_run cd config wal off' w' (\<lambda>_. None) low'"
    if "(if snd acc1 \<noteq> None then drain_in_flight cd ev pick rest acc1 off1 w1 else offload_all cd ev pick ps rest acc1 off1 w1) = (acc', off', w')"
  proof -
    have "\<exists>low'. (\<forall>q. low1 q \<le> low' q) \<and> offload_run cd config wal off' w' (\<lambda>_. None) low'"
      using that drain_run [OF low1(2) Cons.prems(2)] Cons.IH [OF low1(2) Cons.prems(2)] by (auto split: if_splits)
    with low1(1) show ?thesis by (meson order_trans)
  qed
  with Cons.prems(3) c Cons.IH [OF Cons.prems(1,2)] show ?case by (auto split: if_splits)
qed

section \<open>Retry identifiers\<close>

lemma from_le_u128_inj: "length xs = 16 \<Longrightarrow> length ys = 16 \<Longrightarrow> (from_le xs :: u128) = from_le ys \<Longrightarrow> xs = ys"
  by (metis le_bytes_from_le(4))

text \<open>The hash inputs of the retry identifiers of a log's records.\<close>

definition retry_input :: "retry_namespace \<Rightarrow> topic_partition \<Rightarrow> logical_offset \<Rightarrow> logical_offset \<Rightarrow> bytes \<Rightarrow> bytes" where
  "retry_input namespace p first final payload = ascii ''shard-telemetry-upstream-offload-v1'' @ [0] @ namespace_bytes namespace
     @ u128_le (topic_id p) @ u32_le (partition_id p) @ u64_le first @ u64_le final @ payload"

definition retry_inputs :: "offload_codes \<Rightarrow> retry_namespace \<Rightarrow> (topic_partition \<Rightarrow> engine_batch list) \<Rightarrow> bytes set" where
  "retry_inputs cd namespace wal = {retry_input namespace p (eb_first_offset b) (eb_last_offset b) payload | p b f payload.
     b \<in> set (wal p) \<and> fetched_batch (cd_blake3 cd) (cd_formats cd) p b = Inr f
     \<and> encode_native_append (cd_blake3 cd) (cd_formats cd) (native_batch f) = Inr payload}"

lemma retry_id_Inr:
  "retry_id blake3 fmts namespace p a b x = Inr i \<longleftrightarrow> (\<exists>payload. encode_native_append blake3 fmts x = Inr payload
     \<and> i = from_le (take 16 (blake3 (retry_input namespace p a b payload))))"
  by (auto simp: retry_id_def retry_input_def result_simps)

lemma retry_input_inj:
  "retry_input namespace p a b u = retry_input namespace q c d v \<Longrightarrow> u = v"
  by (simp add: retry_input_def)

lemma genuine_batch:
  assumes "genuine cd namespace wal (i, x)"
  shows "\<exists>m \<in> retry_inputs cd namespace wal. i = from_le (take 16 (cd_blake3 cd m))
    \<and> (\<exists>p a b payload. m = retry_input namespace p a b payload \<and> encode_native_append (cd_blake3 cd) (cd_formats cd) x = Inr payload)
    \<and> (\<forall>q \<in> set (nb_partitions x). utf8_valid (env_tenant (npa_envelope q)))
    \<and> map drop_empty_context (nb_partitions x) = nb_partitions x"
proof -
  from assms obtain p b f payload where f: "b \<in> set (wal p)" "fetched_batch (cd_blake3 cd) (cd_formats cd) p b = Inr f" "x = native_batch f"
    "encode_native_append (cd_blake3 cd) (cd_formats cd) (native_batch f) = Inr payload"
    "i = from_le (take 16 (cd_blake3 cd (retry_input namespace p (eb_first_offset b) (eb_last_offset b) payload)))"
    by (auto simp: genuine_def retry_id_Inr)
  have "retry_input namespace p (eb_first_offset b) (eb_last_offset b) payload \<in> retry_inputs cd namespace wal"
    using f(1,2,4) unfolding retry_inputs_def by blast
  moreover have "utf8_valid (env_tenant (fb_envelope f))" using fetched_batch_fields [OF f(2)] envelope_decode_Inr by blast
  then have "\<forall>q \<in> set (nb_partitions x). utf8_valid (env_tenant (npa_envelope q))" "map drop_empty_context (nb_partitions x) = nb_partitions x"
    by (simp_all add: f(3) native_batch_def drop_empty_context_def)
  ultimately show ?thesis using f(3-5) by blast
qed

section \<open>Guarantees\<close>

text \<open>
  C2: no record is lost between the local log and the server. In every interleaving of transfers,
  failures, cancellations and restarts, each record below a partition's checkpoint, in memory or in
  the journal's file, was acknowledged by the server under its retry identifier or left out by the
  metric filter, unless the local store had dropped it before any fetch could see it.
\<close>

theorem offload_no_gap:
  assumes "\<And>p. wal_ok (wal p)" "checkpoints_lossless (cd_json cd)" "offload_run cd config wal off w ts low"
    and "j = of_journal off \<or> checkpoint_open (cd_json cd) fault parent (oc_source_id config) (ow_files w) = Inr j"
    and "checkpoint_next j p = Some n" "b \<in> set (wal p)" "low p \<le> eb_first_offset b" "eb_last_offset b < n"
  shows "handled cd (oc_metric_names config) (SourceNamespace (oc_source_id config)) (ow_acked w) p b"
proof -
  have inv: "offload_inv cd config wal off w ts low" by (rule offload_run_inv [OF assms(3,1,2)])
  have "journal_covered cd config wal (ow_acked w) low j"
    using assms(4) inv checkpoint_open_stored [of "cd_json cd" fault parent "oc_source_id config" "ow_files w" j]
    by (auto simp: offload_inv_def)
  with assms(5-8) show ?thesis by (simp add: journal_covered_def covered_def)
qed

text \<open>
  C15: retry identifiers tell records apart. The server may answer a repeated identifier with the
  acknowledgement of its first append: as long as the 128-bit prefix of BLAKE3 does not collide on the
  log's own records, two acknowledged appends with the same identifier carry the same batch.
\<close>

theorem offload_retry_ids:
  assumes "\<And>x. length (cd_blake3 cd x) = 32" "\<And>p. wal_ok (wal p)" "checkpoints_lossless (cd_json cd)"
    and "inj_on (\<lambda>m. take 16 (cd_blake3 cd m)) (retry_inputs cd (SourceNamespace (oc_source_id config)) wal)"
    and "offload_run cd config wal off w ts low" "(i, x) \<in> set (ow_acked w)" "(i, y) \<in> set (ow_acked w)"
  shows "x = y"
proof -
  let ?ns = "SourceNamespace (oc_source_id config)" and ?enc = "encode_native_append (cd_blake3 cd) (cd_formats cd)"
  have gen: "\<forall>x \<in> set (ow_acked w). genuine cd ?ns wal x"
    using offload_run_inv [OF assms(5,2,3)] by (simp add: offload_inv_def)
  obtain m p a b u where x: "m \<in> retry_inputs cd ?ns wal" "i = from_le (take 16 (cd_blake3 cd m))" "m = retry_input ?ns p a b u" "?enc x = Inr u"
      "\<forall>q \<in> set (nb_partitions x). utf8_valid (env_tenant (npa_envelope q))" "map drop_empty_context (nb_partitions x) = nb_partitions x"
    using genuine_batch gen assms(6) by blast
  obtain n q c d v where y: "n \<in> retry_inputs cd ?ns wal" "i = from_le (take 16 (cd_blake3 cd n))" "n = retry_input ?ns q c d v" "?enc y = Inr v"
      "\<forall>q \<in> set (nb_partitions y). utf8_valid (env_tenant (npa_envelope q))" "map drop_empty_context (nb_partitions y) = nb_partitions y"
    using genuine_batch gen assms(7) by blast
  have "take 16 (cd_blake3 cd m) = take 16 (cd_blake3 cd n)" using x(2) y(2) assms(1) by (intro from_le_u128_inj) simp_all
  with assms(4) x(1) y(1) have "m = n" by (simp add: inj_on_def)
  then have "u = v" using x(3) y(3) retry_input_inj by blast
  then show ?thesis
    using append_decodes_back [of "cd_blake3 cd", OF assms(1) x(5,4)] append_decodes_back [of "cd_blake3 cd", OF assms(1) y(5,4)] x(6) y(6)
    by simp
qed


lemma run_rounds_stop:
  assumes "lc_max_consecutive_failures config < 2 ^ 64" "\<forall>f \<in> set failures. \<exists>e. f = RoundDone (Inl e)"
    "failures \<noteq> []" "lc_max_consecutive_failures config \<le> n + length failures" "n < 2 ^ 64"
  shows "\<exists>r. run_rounds config (failures @ rest) report n = Some r"
  using assms(2-5)
proof (induction failures arbitrary: n report)
  case (Cons f fs)
  from Cons.prems(1) obtain e where f: "f = RoundDone (Inl e)" by auto
  show ?case
  proof (cases "lc_max_consecutive_failures config \<le> usize_saturating_add n 1")
    case False
    then have n: "usize_saturating_add n 1 = n + 1" using assms(1) by (auto simp: usize_saturating_add_def min_def split: if_splits)
    with False Cons.prems(3) have "fs \<noteq> []" by auto
    have "\<exists>r. run_rounds config (fs @ rest) report (n + 1) = Some r" for report
      using Cons.prems False n assms(1) \<open>fs \<noteq> []\<close> by (intro Cons.IH) auto
    with False f n show ?thesis by (simp add: Let_def)
  qed (simp add: f Let_def)
qed simp

lemma run_rounds_stop_after:
  assumes "lc_max_consecutive_failures config < 2 ^ 64" "\<forall>f \<in> set failures. \<exists>e. f = RoundDone (Inl e)"
    "failures \<noteq> []" "lc_max_consecutive_failures config \<le> length failures" "n < 2 ^ 64"
  shows "\<exists>r. run_rounds config (events @ failures @ rest) report n = Some r"
  using assms
proof (induction config events report n rule: run_rounds.induct)
  case (1 config report n)
  then show ?case by (simp add: run_rounds_stop del: power_numeral)
next
  case (4 config e events report n)
  have "usize_saturating_add n 1 < 2 ^ 64" by (simp add: usize_saturating_add_def)
  with 4 show ?case by (simp add: Let_def)
qed simp_all

text \<open>
  C17: the background loop does not run forever on a failing server: whatever happened before, it has
  returned at the latest when the configured number of rounds in a row has failed.
\<close>

theorem offload_loop_stops:
  assumes "lc_max_consecutive_failures config < 2 ^ 64" "\<forall>f \<in> set failures. \<exists>e. f = RoundDone (Inl e)"
    and "lc_max_consecutive_failures config \<le> length failures"
  shows "\<exists>r. run_until config (events @ failures @ rest) = Some r"
proof (cases "loop_config_validate config")
  case (Inr u)
  then have "failures \<noteq> []" using assms(3) by (auto simp: loop_config_validate_def split: if_splits)
  with Inr run_rounds_stop_after [OF assms(1,2) _ assms(3)] show ?thesis by (simp add: run_until_def)
qed (simp add: run_until_def)

section \<open>A concrete transfer\<close>

definition demo_partition :: topic_partition where
  "demo_partition = TopicPartition LOGS_TOPIC_ID 3"

definition demo_envelope :: telemetry_envelope where
  "demo_envelope = \<lparr>env_signal = Logs, env_tenant = [0x61], env_item_count = 2, env_routing_metadata = [7], env_payload = [1, 2]\<rparr>"

definition demo_record :: engine_batch where
  "demo_record = \<lparr>eb_first_offset = 5, eb_last_offset = 6, eb_payload = envelope_bytes sample_hash demo_envelope\<rparr>"

definition demo_wal :: "topic_partition \<Rightarrow> engine_batch list" where
  "demo_wal p = (if p = demo_partition then [demo_record] else [])"

definition demo_engine :: engine where
  "demo_engine = \<lparr>en_fetch = (\<lambda>p start max_bytes. Inr (filter (\<lambda>b. start \<le> eb_last_offset b) (demo_wal p))), en_log_start = (\<lambda>_. Inr 0)\<rparr>"

definition demo_config :: upstream_offload_config where
  "demo_config = offload_config_new [0x2f] [0x73]"

definition demo_journal :: checkpoint_journal where
  "demo_journal = \<lparr>cj_source_id = [0x73], cj_retry_namespace = SourceNamespace [0x73], cj_offsets = [(demo_partition, 7)]\<rparr>"

definition demo_codes :: offload_codes where
  "demo_codes = \<lparr>cd_blake3 = sample_hash, cd_formats = plain_formats,
     cd_json = \<lparr>ocd_to_vec = (\<lambda>p. if p = persisted_journal demo_journal then Inr [1] else Inl ''unsupported''),
       ocd_from_slice = (\<lambda>bs. if bs = [1] then Inr (persisted_journal demo_journal) else Inl ''corrupt'')\<rparr>,
     cd_decode_metric_chunk = (\<lambda>_. Inr [])\<rparr>"

definition demo_id :: u128 where
  "demo_id = from_le (take 16 (sample_hash (ascii ''shard-telemetry-upstream-offload-v1'' @ [0] @ [0x73, 0]
     @ u128_le LOGS_TOPIC_ID @ u32_le 3 @ u64_le 5 @ u64_le 6 @ demo_append_wire)))"

definition demo_env :: offload_env where
  "demo_env = \<lparr>ev_engine = demo_engine, ev_tenant_partitions = 4, ev_server = (\<lambda>_. answering (demo_request demo_id) (demo_answer demo_id)),
     ev_net_fault = (\<lambda>_ _. None), ev_fetch_fault = (\<lambda>_. None), ev_file_fault = (\<lambda>_ _. None), ev_partial = 0\<rparr>"

definition demo_world :: "native_client \<Rightarrow> (u128 \<times> native_telemetry_batch) list \<Rightarrow> bytes option \<Rightarrow> offload_world" where
  "demo_world client acked file = \<lparr>ow_client = client, ow_files = \<lparr>fp_main = file, fp_temp = None\<rparr>, ow_attempts = length acked, ow_acked = acked\<rparr>"

definition demo_offloader :: "checkpoint_journal \<Rightarrow> offloader" where
  "demo_offloader j = \<lparr>of_max_fetch_bytes = DEFAULT_MAX_FETCH_BYTES, of_max_in_flight_partitions = 1, of_signals = {Logs, Traces, Metrics},
     of_metric_names = None, of_journal = j, of_poisoned = False\<rparr>"

definition demo_fetched :: fetched_telemetry_batch where
  "demo_fetched = \<lparr>fb_topic_partition = demo_partition, fb_first_offset = 5, fb_last_offset = 6, fb_envelope = demo_envelope\<rparr>"

lemma demo_fetch: "fetched_batch sample_hash plain_formats demo_partition demo_record = Inr demo_fetched"
proof -
  have "envelope_decode sample_hash (envelope_bytes sample_hash demo_envelope) = Inr demo_envelope" unfolding envelope_bytes_def
    by (rule envelope_decode_layout [OF length_sample_hash]) (simp_all add: demo_envelope_def envelope_ok_def envelope_consts)
  then show ?thesis by (simp add: fetched_batch_def demo_record_def demo_partition_def demo_fetched_def demo_envelope_def)
qed

lemma demo_native: "native_batch demo_fetched = demo_append"
  by (simp add: native_batch_def demo_fetched_def demo_append_def sample_batch_def demo_partition_def demo_envelope_def)

lemma offload_demo_retry: "retry_id sample_hash plain_formats (SourceNamespace [0x73]) demo_partition 5 6 demo_append = Inr demo_id"
  by (simp add: retry_id_def demo_append_encodes demo_id_def namespace_bytes_def demo_partition_def)

lemma demo_contracts:
  "wal_ok (demo_wal p)" "engine_ok demo_wal demo_engine" "checkpoints_lossless (cd_json demo_codes)"
  by (auto simp: wal_ok_def demo_wal_def demo_record_def engine_ok_def demo_engine_def checkpoints_lossless_def demo_codes_def
      split: if_splits intro: exI [of _ 1])

lemma offload_demo_opened:
  "offload_run demo_codes demo_config demo_wal (demo_offloader (fresh_journal [0x73])) (demo_world demo_client [] None) (\<lambda>_. None) (\<lambda>_. 0)"
  by (rule offload_run.opened [where fault = "\<lambda>_. None" and parent = False])
     (simp_all add: demo_world_def offloader_open_def demo_config_def offload_config_validate_def offload_config_new_def
       DEFAULT_MAX_FETCH_BYTES_def DEFAULT_MAX_IN_FLIGHT_PARTITIONS_def checkpoint_open_no_fault offload_file.stored_def demo_offloader_def)

lemma demo_sent:
  "send_batch demo_codes demo_env (SourceNamespace [0x73]) demo_fetched (demo_world demo_client [] None)
   = (Inr (), demo_world (demo_after demo_id) [(demo_id, demo_append)] None)"
proof -
  have "fb_topic_partition demo_fetched = demo_partition" "fb_first_offset demo_fetched = 5" "fb_last_offset demo_fetched = 6"
    by (simp_all add: demo_fetched_def)
  then show ?thesis
    by (simp add: send_batch_def demo_native offload_demo_retry demo_codes_def demo_env_def demo_world_def demo_appended_batch)
qed

lemma offload_demo_run:
  "offload_run demo_codes demo_config demo_wal (demo_offloader demo_journal)
     (demo_world (demo_after demo_id) [(demo_id, demo_append)] (Some [1])) (\<lambda>_. None) (\<lambda>_. 0)"
proof -
  let ?off = "demo_offloader (fresh_journal [0x73])" and ?w = "demo_world (demo_after demo_id) [(demo_id, demo_append)]"
  let ?task = "\<lambda>bs acc. (\<lambda>_. None)(demo_partition \<mapsto> \<lparr>tk_batches = bs, tk_acc = acc\<rparr>)"
  let ?acc = "(report_default\<lparr>or_scanned_partitions := 1\<rparr>, None)"
  have fetch: "fetch_partition demo_codes demo_env ?off demo_partition = Inr (0, [demo_fetched])"
    by (simp add: fetch_partition_def start_offset_def demo_env_def demo_engine_def telemetry_partition_start_offset_def checkpoint_lock_def
        demo_offloader_def checkpoint_next_def fresh_journal_def fetch_telemetry_batches_def DEFAULT_MAX_FETCH_BYTES_def demo_wal_def
        demo_codes_def demo_fetch)
  have zero: "(\<lambda>_. 0)(demo_partition := max 0 0) = (\<lambda>_. 0 :: logical_offset)" by auto
  have "offload_run demo_codes demo_config demo_wal ?off (demo_world demo_client [] None) (?task [demo_fetched] ?acc)
      ((\<lambda>_. 0)(demo_partition := max 0 0))"
    by (rule offload_run.began [OF offload_demo_opened _ _ _ fetch]) (simp_all add: demo_env_def demo_contracts, simp add: demo_engine_def)
  then have began: "offload_run demo_codes demo_config demo_wal ?off (demo_world demo_client [] None) (?task [demo_fetched] ?acc) (\<lambda>_. 0)"
    unfolding zero .
  obtain report where forward: "forward_batch demo_codes demo_env ?off demo_partition demo_fetched ?acc (demo_world demo_client [] None)
      = (Inr (report, Some 7), ?w None)"
    by (simp add: forward_batch_def should_forward_envelope_def demo_offloader_def checkpoint_lock_def fresh_journal_def demo_sent
        demo_fetched_def [THEN arg_cong, of fb_topic_partition] demo_fetched_def [THEN arg_cong, of fb_last_offset] u64_checked_add_def)
  have sent: "offload_run demo_codes demo_config demo_wal ?off (?w None) (?task [] (report, Some 7)) (\<lambda>_. 0)"
    using offload_run.forwarded [OF began _ forward, of "[]", unfolded fun_upd_upd] by simp
  obtain r where "finish_partition demo_codes demo_env demo_partition (report, Some 7) ?off (?w None)
      = (r, demo_offloader demo_journal, ?w (Some [1]))"
    by (simp add: finish_partition_def offloader_advance_def checkpoint_lock_def demo_offloader_def checkpoint_advance_def fresh_journal_def
        checkpoint_persist_def encode_journal_def demo_codes_def demo_journal_def demo_env_def replace_file_no_fault demo_world_def)
  from offload_run.finished [OF sent _ this] show ?thesis by (simp add: fun_upd_idem)
qed

theorem offload_no_gap_witness:
  "handled demo_codes None (SourceNamespace [0x73]) [(demo_id, demo_append)] demo_partition demo_record"
proof -
  have "checkpoint_next demo_journal demo_partition = Some 7" by (simp add: checkpoint_next_def demo_journal_def)
  from offload_no_gap [OF demo_contracts(1,3) offload_demo_run _ this, where b = demo_record] show ?thesis
    by (simp add: demo_offloader_def demo_wal_def demo_record_def demo_config_def offload_config_new_def demo_world_def)
qed

lemma demo_retry_inputs: "inj_on f (retry_inputs demo_codes namespace demo_wal)"
  by (auto simp: inj_on_def retry_inputs_def demo_wal_def demo_codes_def demo_fetch split: if_splits)

theorem offload_retry_ids_witness:
  "\<forall>x. (demo_id, x) \<in> set (ow_acked (demo_world (demo_after demo_id) [(demo_id, demo_append)] (Some [1]))) \<longleftrightarrow> x = demo_append"
proof (intro allI iffI)
  fix x assume x: "(demo_id, x) \<in> set (ow_acked (demo_world (demo_after demo_id) [(demo_id, demo_append)] (Some [1])))"
  show "x = demo_append"
    by (rule offload_retry_ids [OF _ demo_contracts(1,3) demo_retry_inputs offload_demo_run x])
       (simp_all add: demo_codes_def length_sample_hash demo_world_def)
qed (simp add: demo_world_def)


theorem offload_loop_stops_witness:
  "\<exists>r. run_until loop_config_new ([RoundDone (Inr report_default)] @ replicate 8 (RoundDone (Inl (OffloadError ''down''))) @ []) = Some r"
  by (rule offload_loop_stops) (simp_all add: loop_config_new_def DEFAULT_MAX_CONSECUTIVE_FAILURES_def)

end
