(* ===== verification/AppendReceipts.thy ===== *)
theory AppendReceipts
  imports AtomicFile NativeBatch
begin

text \<open>
  The receipts that make native appends repeatable (\<^verbatim>\<open>AppendReceiptCatalog\<close> of \<^verbatim>\<open>src/src/telemetry_store.rs\<close>) and
  the appends that use them (\<^verbatim>\<open>src/src/telemetry_store/append.rs\<close>, \<^verbatim>\<open>append_helpers.rs\<close>).

  The directory of receipts maps the stem of a \<^verbatim>\<open>.json\<close> file to its contents; temporary files have another
  extension and are never read. A fault is given for a file and the operation on it. The JSON codec and
  the storage engine are arguments; the clock is the argument \<open>now\<close>.
\<close>

section \<open>Receipts\<close>

definition APPEND_RECEIPTS_VERSION :: u8 where "APPEND_RECEIPTS_VERSION = 1"
definition MAX_NATIVE_APPEND_RECEIPTS :: nat where "MAX_NATIVE_APPEND_RECEIPTS = 65536"
definition NATIVE_APPEND_RECEIPT_RETENTION :: u64 where "NATIVE_APPEND_RECEIPT_RETENTION = 24 * 60 * 60 * 1000000000"

record append_receipt =
  rp_request_id :: bytes
  rp_payload_digest :: bytes
  rp_recorded_at :: u64
  rp_acknowledgement :: native_telemetry_append_ack

record append_receipts =
  rps_version :: u8
  rps_receipts :: "append_receipt list"

datatype receipt_entry = Pending bytes | Complete append_receipt

text \<open>The second component is a \<^verbatim>\<open>BTreeSet\<close>, a map to unit.\<close>

record receipt_state =
  rc_receipts :: "(bytes, receipt_entry) btree"
  rc_completed_by_time :: "(u64 \<times> bytes, unit) btree"

record receipt_catalog =
  rc_state :: receipt_state
  rc_poisoned :: bool

datatype reservation = Existing native_telemetry_append_ack | Reserved

type_synonym receipt_directory = "bytes \<Rightarrow> bytes option"
type_synonym receipt_fault = "bytes \<Rightarrow> file_fault"

record receipt_codecs =
  rj_to_vec :: "append_receipt \<Rightarrow> string + bytes"
  rj_from_slice :: "bytes \<Rightarrow> string + append_receipt"
  rj_journal_from_slice :: "bytes \<Rightarrow> string + append_receipts"
  rj_path :: "bytes \<Rightarrow> string"
  rj_legacy_path :: string

text \<open>\<^verbatim>\<open>format!("{request_id:032x}")\<close>\<close>

definition request_key :: "u128 \<Rightarrow> bytes" where
  "request_key request_id = ascii (write_hex (rev (u128_le request_id)))"

definition receipt_io_error :: "string \<Rightarrow> loki_api_error" where
  "receipt_io_error e = internal (''native append receipt journal I/O failed: '' @ e)"

definition receipt_lock_error :: loki_api_error where
  "receipt_lock_error = internal ''native append receipt lock poisoned''"

definition receipt_cutoff :: "u64 \<Rightarrow> u64" where
  "receipt_cutoff now = (if now < NATIVE_APPEND_RECEIPT_RETENTION then 0 else now - NATIVE_APPEND_RECEIPT_RETENTION)"

definition remove_file :: "receipt_fault \<Rightarrow> bytes \<Rightarrow> receipt_directory \<Rightarrow> loki_api_error + receipt_directory" where
  "remove_file fault name dir = (case dir name of
       None \<Rightarrow> Inl (receipt_io_error ''No such file or directory (os error 2)'')
     | Some _ \<Rightarrow> rbind (fio receipt_io_error (fault name) ''remove'') (\<lambda>_. Inr (dir(name := None))))"

definition persist_receipt ::
  "receipt_codecs \<Rightarrow> receipt_fault \<Rightarrow> nat \<Rightarrow> append_receipt \<Rightarrow> receipt_directory \<Rightarrow> (loki_api_error + unit) \<times> receipt_directory" where
  "persist_receipt codecs fault partial receipt dir = (case rj_to_vec codecs receipt of
       Inl e \<Rightarrow> (Inl (internal (''native receipt serialization failed: '' @ e)), dir)
     | Inr encoded \<Rightarrow>
         (case replace_file receipt_io_error (fault (rp_request_id receipt)) partial encoded
                 \<lparr>fp_main = dir (rp_request_id receipt), fp_temp = None\<rparr> of
            (r, fs) \<Rightarrow> (r, dir(rp_request_id receipt := fp_main fs))))"

text \<open>The loop of \<^verbatim>\<open>prune_locked\<close>, over the completed receipts from the oldest.\<close>

fun prune_completed ::
  "receipt_fault \<Rightarrow> u64 \<Rightarrow> nat \<Rightarrow> (u64 \<times> bytes, unit) btree \<Rightarrow> (bytes, receipt_entry) btree \<Rightarrow> receipt_directory
   \<Rightarrow> (loki_api_error + unit) \<times> receipt_state \<times> receipt_directory" where
  "prune_completed fault cutoff maximum [] receipts dir = (Inr (), \<lparr>rc_receipts = receipts, rc_completed_by_time = []\<rparr>, dir)"
| "prune_completed fault cutoff maximum (((recorded_at, i), u) # rest) receipts dir =
     (if recorded_at < cutoff \<or> length (((recorded_at, i), u) # rest) > maximum then
        (let state = \<lparr>rc_receipts = btree_remove i receipts, rc_completed_by_time = rest\<rparr> in
         case map_of receipts i of
           Some (Complete receipt) \<Rightarrow>
             (case remove_file fault (rp_request_id receipt) dir of
                Inl e \<Rightarrow> (Inl e, state, dir)
              | Inr dir \<Rightarrow> prune_completed fault cutoff maximum rest (btree_remove i receipts) dir)
         | _ \<Rightarrow> (Inl (internal ''native append receipt indexes are inconsistent''), state, dir))
      else (Inr (), \<lparr>rc_receipts = receipts, rc_completed_by_time = ((recorded_at, i), u) # rest\<rparr>, dir))"

definition prune_locked ::
  "receipt_fault \<Rightarrow> u64 \<Rightarrow> nat \<Rightarrow> receipt_state \<Rightarrow> receipt_directory \<Rightarrow> (loki_api_error + unit) \<times> receipt_state \<times> receipt_directory" where
  "prune_locked fault cutoff maximum state dir =
     prune_completed fault cutoff maximum (rc_completed_by_time state) (rc_receipts state) dir"

section \<open>Opening\<close>

definition insert_recovered :: "append_receipt \<Rightarrow> receipt_state \<Rightarrow> loki_api_error + receipt_state" where
  "insert_recovered receipt state =
     (if length (rp_request_id receipt) \<noteq> 32 \<or> length (rp_payload_digest receipt) \<noteq> 64
         \<or> map_of (rc_receipts state) (rp_request_id receipt) \<noteq> None then
        Inl (configuration ''native append receipt journal contains an invalid or duplicate receipt'')
      else Inr \<lparr>rc_receipts = btree_insert (rp_request_id receipt) (Complete receipt) (rc_receipts state),
        rc_completed_by_time = btree_insert (rp_recorded_at receipt, rp_request_id receipt) () (rc_completed_by_time state)\<rparr>)"

definition recover_file ::
  "receipt_codecs \<Rightarrow> receipt_fault \<Rightarrow> bytes \<times> bytes \<Rightarrow> receipt_state \<Rightarrow> loki_api_error + receipt_state" where
  "recover_file codecs fault file state = (case file of (name, contents) \<Rightarrow>
     rbind (fio receipt_io_error (fault name) ''read entry'') (\<lambda>_.
     rbind (fio receipt_io_error (fault name) ''read'') (\<lambda>_.
     rbind (map_err (\<lambda>e. configuration (''native append receipt '' @ rj_path codecs name @ '' is invalid: '' @ e)) (rj_from_slice codecs contents)) (\<lambda>receipt.
     insert_recovered receipt state))))"

definition recover_legacy ::
  "receipt_codecs \<Rightarrow> receipt_fault \<Rightarrow> bytes \<Rightarrow> receipt_state \<Rightarrow> loki_api_error + receipt_state" where
  "recover_legacy codecs fault contents state =
     rbind (case fault [] ''read legacy'' of
              Some e \<Rightarrow> Inl (internal (''native append receipt journal '' @ rj_legacy_path codecs @ '' cannot be read: '' @ e))
            | None \<Rightarrow> map_err (\<lambda>e. configuration (''native append receipt journal '' @ rj_legacy_path codecs @ '' is invalid: '' @ e))
                (rj_journal_from_slice codecs contents)) (\<lambda>persisted.
       if rps_version persisted \<noteq> APPEND_RECEIPTS_VERSION then
         Inl (configuration ''unsupported native append receipt journal version'')
       else rfold insert_recovered (rps_receipts persisted) state)"

definition recover_receipts ::
  "receipt_codecs \<Rightarrow> receipt_fault \<Rightarrow> (bytes \<times> bytes) list \<Rightarrow> bytes option \<Rightarrow> loki_api_error + receipt_state" where
  "recover_receipts codecs fault listing legacy =
     rbind (fio receipt_io_error (fault []) ''create directory'') (\<lambda>_.
     rbind (fio receipt_io_error (fault []) ''read directory'') (\<lambda>_.
     rbind (rfold (recover_file codecs fault) listing \<lparr>rc_receipts = [], rc_completed_by_time = []\<rparr>) (\<lambda>state.
     rbind (case legacy of
              Some contents \<Rightarrow> if listing = [] then recover_legacy codecs fault contents state else Inr state
            | None \<Rightarrow> Inr state) (\<lambda>state.
     rbind (fio receipt_io_error (fault []) ''open directory'') (\<lambda>_.
     Inr state)))))"

text \<open>Receipts of the old journal get files of their own.\<close>

fun persist_missing ::
  "receipt_codecs \<Rightarrow> receipt_fault \<Rightarrow> nat \<Rightarrow> receipt_entry list \<Rightarrow> receipt_directory \<Rightarrow> (loki_api_error + unit) \<times> receipt_directory" where
  "persist_missing codecs fault partial [] dir = (Inr (), dir)"
| "persist_missing codecs fault partial (Pending _ # entries) dir = persist_missing codecs fault partial entries dir"
| "persist_missing codecs fault partial (Complete receipt # entries) dir =
     (if dir (rp_request_id receipt) \<noteq> None then persist_missing codecs fault partial entries dir
      else case persist_receipt codecs fault partial receipt dir of
        (Inl e, dir) \<Rightarrow> (Inl e, dir)
      | (Inr _, dir) \<Rightarrow> persist_missing codecs fault partial entries dir)"

text \<open>The directory as \<^verbatim>\<open>read_dir\<close> lists it, and the journal of version 1 if it exists.\<close>

definition receipts_open ::
  "receipt_codecs \<Rightarrow> receipt_fault \<Rightarrow> nat \<Rightarrow> u64 \<Rightarrow> (bytes \<times> bytes) list \<Rightarrow> bytes option \<Rightarrow> (loki_api_error + receipt_catalog) \<times> receipt_directory" where
  "receipts_open codecs fault partial now listing legacy = (case recover_receipts codecs fault listing legacy of
       Inl e \<Rightarrow> (Inl e, map_of listing)
     | Inr state \<Rightarrow>
         (case prune_locked fault (receipt_cutoff now) MAX_NATIVE_APPEND_RECEIPTS state (map_of listing) of
            (Inl e, _, dir) \<Rightarrow> (Inl e, dir)
          | (Inr _, state, dir) \<Rightarrow>
              (case persist_missing codecs fault partial (map snd (rc_receipts state)) dir of
                 (Inl e, dir) \<Rightarrow> (Inl e, dir)
               | (Inr _, dir) \<Rightarrow> (Inr \<lparr>rc_state = state, rc_poisoned = False\<rparr>, dir))))"

section \<open>Reserving and completing\<close>

text \<open>One round of the loop of \<^verbatim>\<open>reserve\<close>, under the lock; None waits for a change.\<close>

definition receipt_reserve ::
  "receipt_fault \<Rightarrow> u64 \<Rightarrow> u128 \<Rightarrow> bytes \<Rightarrow> receipt_catalog \<Rightarrow> receipt_directory
   \<Rightarrow> (loki_api_error + reservation) option \<times> receipt_catalog \<times> receipt_directory" where
  "receipt_reserve fault now request_id digest c dir =
     (let key = request_key request_id; reused = bad_request ''native retry ID was reused with different telemetry content'' in
      if rc_poisoned c then (Some (Inl receipt_lock_error), c, dir)
      else case map_of (rc_receipts (rc_state c)) key of
        Some (Complete receipt) \<Rightarrow>
          if rp_payload_digest receipt \<noteq> digest then (Some (Inl reused), c, dir)
          else (Some (Inr (Existing (rp_acknowledgement receipt))), c, dir)
      | Some (Pending pending) \<Rightarrow> if pending \<noteq> digest then (Some (Inl reused), c, dir) else (None, c, dir)
      | None \<Rightarrow>
          (case prune_locked fault (receipt_cutoff now) (MAX_NATIVE_APPEND_RECEIPTS - 1) (rc_state c) dir of
             (Inl e, state, dir) \<Rightarrow> (Some (Inl e), c\<lparr>rc_state := state\<rparr>, dir)
           | (Inr _, state, dir) \<Rightarrow>
               if length (rc_receipts state) \<ge> MAX_NATIVE_APPEND_RECEIPTS then
                 (Some (Inl (unavailable ''native append idempotency window is at capacity'')), c\<lparr>rc_state := state\<rparr>, dir)
               else (Some (Inr Reserved),
                 c\<lparr>rc_state := state\<lparr>rc_receipts := btree_insert key (Pending digest) (rc_receipts state)\<rparr>\<rparr>, dir)))"

definition receipt_complete ::
  "receipt_codecs \<Rightarrow> receipt_fault \<Rightarrow> nat \<Rightarrow> u64 \<Rightarrow> u128 \<Rightarrow> bytes \<Rightarrow> native_telemetry_append_ack \<Rightarrow> receipt_catalog \<Rightarrow> receipt_directory
   \<Rightarrow> (loki_api_error + unit) \<times> receipt_catalog \<times> receipt_directory" where
  "receipt_complete codecs fault partial now request_id digest ack c dir =
     (let key = request_key request_id;
          receipt = \<lparr>rp_request_id = key, rp_payload_digest = digest, rp_recorded_at = now, rp_acknowledgement = ack\<rparr> in
      case persist_receipt codecs fault partial receipt dir of
        (Inl e, dir) \<Rightarrow> (Inl e, c, dir)
      | (Inr _, dir) \<Rightarrow>
          if rc_poisoned c then (Inl receipt_lock_error, c, dir)
          else let state = rc_state c; removed = state\<lparr>rc_receipts := btree_remove key (rc_receipts state)\<rparr> in
            (case map_of (rc_receipts state) key of
               Some (Pending _) \<Rightarrow> (Inr (), c\<lparr>rc_state := \<lparr>rc_receipts = btree_insert key (Complete receipt) (rc_receipts removed),
                   rc_completed_by_time = btree_insert (now, key) () (rc_completed_by_time state)\<rparr>\<rparr>, dir)
             | Some (Complete _) \<Rightarrow> (Inl (internal ''native append receipt completed more than once''), c\<lparr>rc_state := removed\<rparr>, dir)
             | None \<Rightarrow> (Inl (internal ''native append receipt reservation disappeared''), c\<lparr>rc_state := removed\<rparr>, dir)))"

definition receipt_abandon :: "u128 \<Rightarrow> receipt_catalog \<Rightarrow> receipt_catalog" where
  "receipt_abandon request_id c =
     (if rc_poisoned c then c
      else case map_of (rc_receipts (rc_state c)) (request_key request_id) of
        Some (Pending _) \<Rightarrow> c\<lparr>rc_state := (rc_state c)\<lparr>rc_receipts := btree_remove (request_key request_id) (rc_receipts (rc_state c))\<rparr>\<rparr>
      | _ \<Rightarrow> c)"

definition retain_since :: "receipt_fault \<Rightarrow> u64 \<Rightarrow> receipt_catalog \<Rightarrow> receipt_directory \<Rightarrow> (loki_api_error + unit) \<times> receipt_catalog \<times> receipt_directory" where
  "retain_since fault cutoff c dir =
     (if rc_poisoned c then (Inl receipt_lock_error, c, dir)
      else case prune_locked fault cutoff MAX_NATIVE_APPEND_RECEIPTS (rc_state c) dir of
        (r, state, dir) \<Rightarrow> (r, c\<lparr>rc_state := state\<rparr>, dir))"

section \<open>Appends\<close>

record appended_batch =
  ab_placement_sequence :: u64
  ab_first_offset :: logical_offset
  ab_last_offset :: logical_offset

record sink_target =
  sk_topic_partition :: topic_partition
  sk_next_placement_sequence :: u64
  sk_next_offset :: logical_offset

record append_request =
  aq_request_id :: u128
  aq_topic_partition :: topic_partition
  aq_record_count :: u32
  aq_payload :: bytes

text \<open>
  The storage engine: its two ways to append, and the wait for the index. A request also carries the
  durability the store is configured with, which is part of the engine here, and four fields that are
  always None. The number that \<^verbatim>\<open>fetch_add\<close> takes from the store's counter is an argument, because all
  requests share the counter.
\<close>

record store_engine =
  se_append :: "append_request \<Rightarrow> engine_error + appended_batch"
  se_append_with_durable_sink_context :: "append_request \<Rightarrow> bytes \<Rightarrow> engine_error + appended_batch"
  se_wait_for_durable_sink_checkpoint :: "sink_target \<Rightarrow> engine_error + unit"

definition append_telemetry_partition_with_fields ::
  "store_engine \<Rightarrow> u64 \<Rightarrow> topic_partition \<Rightarrow> u32 \<Rightarrow> bytes \<Rightarrow> bytes option \<Rightarrow> bool \<Rightarrow> loki_api_error + native_partition_ack" where
  "append_telemetry_partition_with_fields engine request_id p record_count payload context wait_for_index =
     (let request = \<lparr>aq_request_id = ucast request_id, aq_topic_partition = p, aq_record_count = record_count, aq_payload = payload\<rparr> in
      rbind (map_err engine_error_api (case context of
               Some ctx \<Rightarrow> se_append_with_durable_sink_context engine request ctx
             | None \<Rightarrow> se_append engine request)) (\<lambda>appended.
      rbind (if wait_for_index then
               rbind (ok_or (internal ''placement sequence exhausted'') (u64_checked_add (ab_placement_sequence appended) 1)) (\<lambda>sequence.
               rbind (ok_or (internal ''logical offset exhausted'') (u64_checked_add (ab_last_offset appended) 1)) (\<lambda>offset.
               map_err engine_error_api (se_wait_for_durable_sink_checkpoint engine
                 \<lparr>sk_topic_partition = p, sk_next_placement_sequence = sequence, sk_next_offset = offset\<rparr>)))
             else Inr ()) (\<lambda>_.
      Inr \<lparr>ack_topic_partition = p, first_offset = ab_first_offset appended, last_offset = ab_last_offset appended\<rparr>)))"

definition append_telemetry_partition_with_encoded_envelope ::
  "store_engine \<Rightarrow> u64 \<Rightarrow> native_partition_append \<Rightarrow> bytes \<Rightarrow> bool \<Rightarrow> loki_api_error + native_partition_ack" where
  "append_telemetry_partition_with_encoded_envelope engine request_id part payload wait_for_index =
     append_telemetry_partition_with_fields engine request_id (npa_topic_partition part) (env_item_count (npa_envelope part))
       payload (npa_transient_context part) wait_for_index"

text \<open>
  A repeatable append whose reservation does not wait: the gate's verdict, the reservation, the append
  and the receipt. None is the wait.
\<close>

definition append_with_retry_id ::
  "receipt_codecs \<Rightarrow> receipt_fault \<Rightarrow> nat \<Rightarrow> u64 \<Rightarrow> u64 \<Rightarrow> loki_api_error + unit \<Rightarrow> loki_api_error + native_partition_ack \<Rightarrow> u128 \<Rightarrow> bytes
   \<Rightarrow> receipt_catalog \<Rightarrow> receipt_directory \<Rightarrow> (loki_api_error + native_telemetry_append_ack) option \<times> receipt_catalog \<times> receipt_directory" where
  "append_with_retry_id codecs fault partial now later gate appended retry_id digest c dir = (case gate of
       Inl e \<Rightarrow> (Some (Inl e), c, dir)
     | Inr _ \<Rightarrow>
         (case receipt_reserve fault now retry_id digest c dir of
            (None, c, dir) \<Rightarrow> (None, c, dir)
          | (Some (Inl e), c, dir) \<Rightarrow> (Some (Inl e), c, dir)
          | (Some (Inr (Existing ack)), c, dir) \<Rightarrow> (Some (Inr ack), c, dir)
          | (Some (Inr Reserved), c, dir) \<Rightarrow>
              (case appended of
                 Inl e \<Rightarrow> (Some (Inl e), receipt_abandon retry_id c, dir)
               | Inr p \<Rightarrow>
                   let ack = \<lparr>ack_partitions = [p]\<rparr> in
                   (case receipt_complete codecs fault partial later retry_id digest ack c dir of
                      (Inl e, c, dir) \<Rightarrow> (Some (Inl e), receipt_abandon retry_id c, dir)
                    | (Inr _, c, dir) \<Rightarrow> (Some (Inr ack), c, dir)))))"

text \<open>The gate a product may install sees the decoded envelope; it is external code.\<close>

definition check_append_partitions ::
  "(native_partition_append list \<Rightarrow> string + unit) option \<Rightarrow> native_partition_append list \<Rightarrow> loki_api_error + unit" where
  "check_append_partitions gate partitions =
     (if partitions = [] then Inr () else case gate of None \<Rightarrow> Inr () | Some g \<Rightarrow> map_err unavailable (g partitions))"

definition check_append_partition_encoded ::
  "(bytes \<Rightarrow> bytes) \<Rightarrow> core_formats \<Rightarrow> (native_partition_append list \<Rightarrow> string + unit) option \<Rightarrow> topic_partition \<Rightarrow> u32 \<Rightarrow> bytes
   \<Rightarrow> bytes option \<Rightarrow> bool \<Rightarrow> loki_api_error + unit" where
  "check_append_partition_encoded blake3 fmts gate p record_count encoded context already_validated = (case gate of
       None \<Rightarrow> Inr ()
     | Some g \<Rightarrow>
         rbind (if already_validated then
                  rbind (map_err (\<lambda>e. bad_request (error_display fmts e)) (decode_view_after_validation blake3 encoded)) (\<lambda>view.
                  map_err (\<lambda>e. bad_request (error_display fmts e)) (envelope_new (view_signal view) (view_tenant view) (view_item_count view)
                    (view_routing_metadata view) (view_payload view)))
                else map_err (\<lambda>e. bad_request (error_display fmts e)) (envelope_decode blake3 encoded)) (\<lambda>envelope.
         if env_item_count envelope \<noteq> record_count then
           Inl (bad_request ''native append metadata count disagrees with its envelope'')
         else map_err unavailable (g [\<lparr>npa_topic_partition = p, npa_envelope = envelope, npa_transient_context = context\<rparr>])))"

definition append_telemetry_partition ::
  "(bytes \<Rightarrow> bytes) \<Rightarrow> core_formats \<Rightarrow> (native_partition_append list \<Rightarrow> string + unit) option \<Rightarrow> store_engine \<Rightarrow> u64
   \<Rightarrow> native_partition_append \<Rightarrow> bool \<Rightarrow> loki_api_error + native_partition_ack" where
  "append_telemetry_partition blake3 fmts gate engine request_id part wait_for_index =
     rbind (check_append_partitions gate [part]) (\<lambda>_.
     rbind (map_err (\<lambda>e. bad_request (error_display fmts e)) (envelope_encode blake3 (npa_envelope part))) (\<lambda>payload.
     append_telemetry_partition_with_encoded_envelope engine request_id part payload wait_for_index))"

definition append_native_metadata_with_retry_id where
  "append_native_metadata_with_retry_id blake3 fmts gate engine request_id codecs fault partial now later p record_count encoded context wait_for_index
      retry_id digest c dir =
     append_with_retry_id codecs fault partial now later (check_append_partition_encoded blake3 fmts gate p record_count encoded context True)
       (append_telemetry_partition_with_fields engine request_id p record_count encoded context wait_for_index) retry_id digest c dir"

definition append_batch_with_retry_id where
  "append_batch_with_retry_id gate engine request_id codecs fault partial now later batch encoded wait_for_index retry_id digest c dir =
     append_with_retry_id codecs fault partial now later
       (rbind (check_append_partitions gate (nb_partitions batch)) (\<lambda>_.
          if length (nb_partitions batch) \<noteq> 1 then Inl (bad_request ''retryable native v1 append requires exactly one partition'') else Inr ()))
       (append_telemetry_partition_with_encoded_envelope engine request_id (hd (nb_partitions batch)) encoded wait_for_index) retry_id digest c dir"

end
