(* ===== verification/ReceiptGuarantees.thy ===== *)
theory ReceiptGuarantees
  imports AppendReceipts
begin

text \<open>
  What the receipts of native appends promise: an acknowledged append is never made twice, across
  concurrent requests, failures, crashes and restarts, until its receipt has left the window; and what
  leaves the window.
\<close>

section \<open>Request keys\<close>

lemma ascii_inj: "ascii s = ascii t \<Longrightarrow> s = t"
proof -
  have "inj (\<lambda>c. of_nat (of_char c) :: u8)"
  proof (rule injI)
    fix c d :: char assume "(of_nat (of_char c) :: u8) = of_nat (of_char d)"
    then have "unat (of_nat (of_char c) :: u8) = unat (of_nat (of_char d) :: u8)" by simp
    moreover have "of_char x < (256 :: nat)" for x :: char by (metis nat_of_char_less_256)
    ultimately have "of_char c = (of_char d :: nat)" by (simp add: unat_of_nat)
    then show "c = d" by simp
  qed
  then show "ascii s = ascii t \<Longrightarrow> s = t" by (simp add: ascii_def inj_map_eq_map)
qed

lemma request_key_faithful: "length (request_key i) = 32" "request_key i = request_key j \<longleftrightarrow> i = j"
proof -
  show "length (request_key i) = 32" by (simp add: request_key_def write_hex_faithful)
  show "request_key i = request_key j \<longleftrightarrow> i = j"
    using ascii_inj [of "write_hex (rev (u128_le i))" "write_hex (rev (u128_le j))"] write_hex_faithful from_le_bytes(4)
    by (metis request_key_def rev_is_rev_conv)
qed

section \<open>The catalog and its files\<close>

text \<open>The documented behaviour of the JSON codec.\<close>

definition receipts_lossless :: "receipt_codecs \<Rightarrow> bool" where
  "receipts_lossless codecs \<longleftrightarrow> (\<forall>r bs. rj_to_vec codecs r = Inr bs \<longrightarrow> rj_from_slice codecs bs = Inr r)"

text \<open>A file holds a receipt of its own name.\<close>

definition receipt_file :: "receipt_codecs \<Rightarrow> bytes \<Rightarrow> bytes \<Rightarrow> append_receipt \<Rightarrow> bool" where
  "receipt_file codecs name contents r \<longleftrightarrow> rj_from_slice codecs contents = Inr r \<and> rp_request_id r = name \<and> length name = 32
     \<and> length (rp_payload_digest r) = 64"

definition holds :: "receipt_codecs \<Rightarrow> receipt_directory \<Rightarrow> bytes \<Rightarrow> append_receipt \<Rightarrow> bool" where
  "holds codecs dir name r \<longleftrightarrow> (\<exists>contents. dir name = Some contents \<and> receipt_file codecs name contents r)"

definition dir_ok :: "receipt_codecs \<Rightarrow> receipt_directory \<Rightarrow> bool" where
  "dir_ok codecs dir \<longleftrightarrow> (\<forall>name. dir name \<noteq> None \<longrightarrow> (\<exists>r. holds codecs dir name r))"

text \<open>Completed receipts are listed by their time, and each has its file.\<close>

definition state_of_files :: "receipt_codecs \<Rightarrow> receipt_directory \<Rightarrow> receipt_state \<Rightarrow> bool" where
  "state_of_files codecs dir s \<longleftrightarrow> btree_ok (rc_receipts s) \<and> btree_ok (rc_completed_by_time s)
     \<and> (\<forall>t i. (t, i) \<in> fst ` set (rc_completed_by_time s) \<longleftrightarrow> (\<exists>r. map_of (rc_receipts s) i = Some (Complete r) \<and> rp_recorded_at r = t))
     \<and> (\<forall>i r. map_of (rc_receipts s) i = Some (Complete r) \<longrightarrow> holds codecs dir i r)"

lemma holds_request_id: "holds codecs dir i r \<Longrightarrow> rp_request_id r = i" by (auto simp: holds_def receipt_file_def)

lemma holds_unique: "holds codecs dir i r \<Longrightarrow> holds codecs dir i r' \<Longrightarrow> r = r'"
  unfolding holds_def receipt_file_def by (elim exE conjE) simp

lemma holds_same: "dir' i = dir i \<Longrightarrow> holds codecs dir' i r = holds codecs dir i r" by (simp add: holds_def)

lemma listed_receipt:
  assumes "state_of_files codecs dir s" "(t, i) \<in> fst ` set (rc_completed_by_time s)"
  shows "\<exists>r. map_of (rc_receipts s) i = Some (Complete r) \<and> rp_recorded_at r = t \<and> holds codecs dir i r"
  using assms unfolding state_of_files_def by blast

lemma state_of_files_remove:
  assumes "state_of_files codecs dir \<lparr>rc_receipts = receipts, rc_completed_by_time = ((t, i), u) # rest\<rparr>" "map_of receipts i = Some (Complete r)"
  shows "state_of_files codecs (dir(i := x)) \<lparr>rc_receipts = btree_remove i receipts, rc_completed_by_time = rest\<rparr>"
    "state_of_files codecs dir \<lparr>rc_receipts = btree_remove i receipts, rc_completed_by_time = rest\<rparr>"
proof -
  define A where "A = fst ` set rest"
  have listed: "(t', j) \<in> insert (t, i) A \<longleftrightarrow> (\<exists>r. map_of receipts j = Some (Complete r) \<and> rp_recorded_at r = t')" for t' j
    using assms(1) by (simp add: state_of_files_def A_def)
  have fresh: "(t, i) \<notin> A" and ok: "btree_ok receipts" "btree_ok rest"
    using assms(1) by (auto simp: state_of_files_def btree_ok_def A_def)
  have "rp_recorded_at r = t" using listed [of t i] assms(2) by simp
  then have rest: "(t', j) \<in> A \<longleftrightarrow> (\<exists>r. map_of (btree_remove i receipts) j = Some (Complete r) \<and> rp_recorded_at r = t')" for t' j
    using listed [of t' j] fresh assms(2) by auto
  have files: "\<forall>j r. map_of (btree_remove i receipts) j = Some (Complete r) \<longrightarrow> holds codecs (dir(i := y)) j r" for y
    using assms(1) by (auto simp: state_of_files_def holds_def)
  show "state_of_files codecs (dir(i := x)) \<lparr>rc_receipts = btree_remove i receipts, rc_completed_by_time = rest\<rparr>"
    using ok rest files [of x] by (simp add: state_of_files_def A_def)
  show "state_of_files codecs dir \<lparr>rc_receipts = btree_remove i receipts, rc_completed_by_time = rest\<rparr>"
    using ok rest files [of "dir i"] by (simp add: state_of_files_def A_def)
qed

text \<open>What pruning may do: drop completed receipts, with their files, and nothing else.\<close>

definition pruned :: "receipt_state \<Rightarrow> receipt_directory \<Rightarrow> receipt_state \<Rightarrow> receipt_directory \<Rightarrow> bool" where
  "pruned s dir s' dir' \<longleftrightarrow> (\<forall>i. map_of (rc_receipts s') i = map_of (rc_receipts s) i \<and> dir' i = dir i
     \<or> map_of (rc_receipts s') i = None \<and> (\<exists>r. map_of (rc_receipts s) i = Some (Complete r)) \<and> (dir' i = dir i \<or> dir' i = None))"

lemma prune_completed_ok:
  assumes "state_of_files codecs dir \<lparr>rc_receipts = receipts, rc_completed_by_time = completed\<rparr>"
    and "prune_completed fault cutoff maximum completed receipts dir = (r, s', dir')"
  shows "state_of_files codecs dir' s' \<and> pruned \<lparr>rc_receipts = receipts, rc_completed_by_time = completed\<rparr> dir s' dir'
    \<and> (r = Inr () \<longrightarrow> (\<forall>i. map_of (rc_receipts s') i = None \<longrightarrow> map_of receipts i = None \<or> dir' i = None))"
  using assms
proof (induction fault cutoff maximum completed receipts dir rule: prune_completed.induct)
  case (2 fault cutoff maximum t i u rest receipts dir)
  show ?case
  proof (cases "t < cutoff \<or> length (((t, i), u) # rest) > maximum")
    case True
    obtain q where q: "map_of receipts i = Some (Complete q)" "holds codecs dir i q"
      using listed_receipt [OF "2.prems"(1), of t i] by auto
    note rid = holds_request_id [OF q(2)]
    note del = state_of_files_remove [OF "2.prems"(1) q(1)]
    show ?thesis
    proof (cases "remove_file fault i dir")
      case (Inl e)
      with "2.prems"(2) True q(1) rid have "s' = \<lparr>rc_receipts = btree_remove i receipts, rc_completed_by_time = rest\<rparr>" "dir' = dir" "r = Inl e"
        by (simp_all add: Let_def)
      with del(2) q(1) show ?thesis by (auto simp: pruned_def)
    next
      case (Inr dir1)
      then have dir1: "dir1 = dir(i := None)" by (auto simp: remove_file_def result_simps split: option.splits)
      have run: "prune_completed fault cutoff maximum rest (btree_remove i receipts) dir1 = (r, s', dir')"
        using "2.prems"(2) True q(1) rid Inr by (simp add: Let_def)
      have "state_of_files codecs dir1 \<lparr>rc_receipts = btree_remove i receipts, rc_completed_by_time = rest\<rparr>" unfolding dir1 by (rule del(1))
      from "2.IH" [OF True refl q(1) refl Inr [folded rid] this run] have IH: "state_of_files codecs dir' s'"
        "pruned \<lparr>rc_receipts = btree_remove i receipts, rc_completed_by_time = rest\<rparr> dir1 s' dir'"
        "r = Inr () \<longrightarrow> (\<forall>j. map_of (rc_receipts s') j = None \<longrightarrow> map_of (btree_remove i receipts) j = None \<or> dir' j = None)" by auto
      have gone: "dir' i = None" "map_of (rc_receipts s') i = None" using IH(2) by (auto simp: pruned_def dir1 dest: spec [of _ i])
      have "pruned \<lparr>rc_receipts = receipts, rc_completed_by_time = ((t, i), u) # rest\<rparr> dir s' dir'" unfolding pruned_def
      proof
        fix j
        show "map_of (rc_receipts s') j = map_of (rc_receipts \<lparr>rc_receipts = receipts, rc_completed_by_time = ((t, i), u) # rest\<rparr>) j \<and> dir' j = dir j
          \<or> map_of (rc_receipts s') j = None
            \<and> (\<exists>r. map_of (rc_receipts \<lparr>rc_receipts = receipts, rc_completed_by_time = ((t, i), u) # rest\<rparr>) j = Some (Complete r))
            \<and> (dir' j = dir j \<or> dir' j = None)"
          using gone q(1) IH(2) [unfolded pruned_def, THEN spec, of j] by (cases "j = i") (simp_all add: dir1)
      qed
      moreover have "map_of receipts j = None \<or> dir' j = None" if "r = Inr ()" "map_of (rc_receipts s') j = None" for j
        using that gone IH(3) [rule_format, of j] by (cases "j = i") simp_all
      ultimately show ?thesis using IH(1) by simp
    qed
  next
    case False
    with "2.prems" show ?thesis by (auto simp: pruned_def)
  qed
qed (auto simp: pruned_def)

lemma prune_locked_ok:
  assumes "state_of_files codecs dir s" "prune_locked fault cutoff maximum s dir = (r, s', dir')"
  shows "state_of_files codecs dir' s'" "pruned s dir s' dir'"
    "r = Inr () \<Longrightarrow> map_of (rc_receipts s') i = None \<Longrightarrow> map_of (rc_receipts s) i = None \<or> dir' i = None"
proof -
  have s: "\<lparr>rc_receipts = rc_receipts s, rc_completed_by_time = rc_completed_by_time s\<rparr> = s" by (cases s) simp
  from prune_completed_ok [of codecs dir "rc_receipts s" "rc_completed_by_time s" fault cutoff maximum r s' dir', unfolded s] assms
  show "state_of_files codecs dir' s'" "pruned s dir s' dir'"
    "r = Inr () \<Longrightarrow> map_of (rc_receipts s') i = None \<Longrightarrow> map_of (rc_receipts s) i = None \<or> dir' i = None"
    by (simp_all add: prune_locked_def)
qed

section \<open>Opening\<close>

definition restored :: "receipt_codecs \<Rightarrow> receipt_directory \<Rightarrow> receipt_state \<Rightarrow> bool" where
  "restored codecs dir s \<longleftrightarrow> state_of_files codecs dir s
     \<and> (\<forall>i. if dir i = None then map_of (rc_receipts s) i = None else \<exists>r. map_of (rc_receipts s) i = Some (Complete r))"

lemma restored_insert:
  assumes "restored codecs dir s" "dir n = None" "receipt_file codecs n contents r" "insert_recovered r s = Inr s'"
  shows "restored codecs (dir(n \<mapsto> contents)) s'"
proof -
  have r: "rp_request_id r = n" using assms(3) by (simp add: receipt_file_def)
  have none: "map_of (rc_receipts s) n = None" using assms(1,2) by (simp add: restored_def split: if_splits)
  have s': "rc_receipts s' = btree_insert n (Complete r) (rc_receipts s)"
    "rc_completed_by_time s' = btree_insert (rp_recorded_at r, n) () (rc_completed_by_time s)"
    using assms(4) r by (auto simp: insert_recovered_def split: if_splits)
  have listed: "(t, i) \<in> fst ` set (rc_completed_by_time s') \<longleftrightarrow> (\<exists>q. map_of (rc_receipts s') i = Some (Complete q) \<and> rp_recorded_at q = t)" for t i
  proof -
    have "(t, i) \<in> fst ` set (rc_completed_by_time s) \<longleftrightarrow> (\<exists>q. map_of (rc_receipts s) i = Some (Complete q) \<and> rp_recorded_at q = t)"
      using assms(1) by (simp add: restored_def state_of_files_def)
    then show ?thesis using none by (auto simp: s' dom_btree_insert)
  qed
  have "holds codecs (dir(n \<mapsto> contents)) i q" if "map_of (rc_receipts s') i = Some (Complete q)" for i q
    using that assms(1,3) r by (cases "i = n") (auto simp: s' holds_def restored_def state_of_files_def)
  with assms(1) listed show ?thesis by (auto simp: restored_def state_of_files_def s')
qed

lemma restored_listing:
  assumes "restored codecs dir s" "distinct (map fst xs)" "\<forall>n \<in> fst ` set xs. dir n = None"
    and "\<forall>(n, c) \<in> set xs. \<exists>r. receipt_file codecs n c r" "rfold (recover_file codecs fault) xs s = Inr s'"
  shows "restored codecs (dir ++ map_of xs) s'"
  using assms
proof (induction xs arbitrary: s dir)
  case (Cons x xs)
  obtain n c where x: "x = (n, c)" by (cases x)
  obtain s1 where s1: "recover_file codecs fault x s = Inr s1" "rfold (recover_file codecs fault) xs s1 = Inr s'"
    using Cons.prems(5) by (auto simp: result_simps)
  obtain r where r: "receipt_file codecs n c r" using Cons.prems(4) x by auto
  have "insert_recovered r s = Inr s1" using s1(1) r by (auto simp: x recover_file_def receipt_file_def result_simps)
  then have one: "restored codecs (dir(n \<mapsto> c)) s1" using Cons.prems(1,3) r x by (intro restored_insert) auto
  have "restored codecs (dir(n \<mapsto> c) ++ map_of xs) s'"
    using Cons.prems(2-4) x by (intro Cons.IH [OF one _ _ _ s1(2)]) auto
  moreover have none: "map_of xs n = None" using Cons.prems(2) x by (simp add: map_of_eq_None_iff)
  have "dir(n \<mapsto> c) ++ map_of xs = dir ++ map_of (x # xs)"
    using none by (auto simp: fun_eq_iff map_add_def x split: option.split)
  ultimately show ?case by (simp only:)
qed simp

lemma persist_missing_present:
  "\<forall>r. Complete r \<in> set entries \<longrightarrow> dir (rp_request_id r) \<noteq> None \<Longrightarrow> persist_missing codecs fault partial entries dir = (Inr (), dir)"
proof (induction entries)
  case (Cons e entries)
  then show ?case by (cases e) auto
qed simp

lemma receipts_open_ok:
  assumes "distinct (map fst listing)" "dir_ok codecs (map_of listing)"
    and "receipts_open codecs fault partial now listing None = (r, dir')"
  shows "dir' n = map_of listing n \<or> dir' n = None"
    "r = Inr c \<Longrightarrow> \<not> rc_poisoned c \<and> restored codecs dir' (rc_state c)"
proof -
  have files: "\<forall>(n, c) \<in> set listing. \<exists>r. receipt_file codecs n c r"
  proof (clarify)
    fix n c assume "(n, c) \<in> set listing"
    then have "map_of listing n = Some c" using assms(1) by simp
    with assms(2) show "\<exists>r. receipt_file codecs n c r" by (force simp: dir_ok_def holds_def)
  qed
  have main: "(dir' n = map_of listing n \<or> dir' n = None) \<and> (r = Inr c \<longrightarrow> \<not> rc_poisoned c \<and> restored codecs dir' (rc_state c))"
  proof (cases "recover_receipts codecs fault listing None")
    case (Inl e)
    with assms(3) show ?thesis by (auto simp: receipts_open_def)
  next
    case (Inr s)
    then have "rfold (recover_file codecs fault) listing \<lparr>rc_receipts = [], rc_completed_by_time = []\<rparr> = Inr s"
      by (auto simp: recover_receipts_def result_simps)
    moreover have "restored codecs Map.empty \<lparr>rc_receipts = [], rc_completed_by_time = []\<rparr>"
      by (simp add: restored_def state_of_files_def)
    ultimately have s: "restored codecs (map_of listing) s" using restored_listing [of codecs Map.empty _ listing fault s] assms(1) files by simp
    obtain q s1 dir1 where q: "prune_locked fault (receipt_cutoff now) MAX_NATIVE_APPEND_RECEIPTS s (map_of listing) = (q, s1, dir1)"
      by (metis prod_cases3)
    have ok: "state_of_files codecs (map_of listing) s" using s by (simp add: restored_def)
    note pr = prune_locked_ok [OF ok q]
    have sub: "dir1 n = map_of listing n \<or> dir1 n = None" for n using pr(2) [unfolded pruned_def, THEN spec, of n] by auto
    show ?thesis
    proof (cases q)
      case (Inl e)
      with assms(3) Inr q sub show ?thesis by (auto simp: receipts_open_def)
    next
      case finished: (Inr u)
      have res: "restored codecs dir1 s1" unfolding restored_def
      proof (intro conjI allI pr(1))
        fix i
        show "if dir1 i = None then map_of (rc_receipts s1) i = None else \<exists>r. map_of (rc_receipts s1) i = Some (Complete r)"
          using pr(2) [unfolded pruned_def, THEN spec, of i] pr(3) [of i] finished s [unfolded restored_def, THEN conjunct2, THEN spec, of i] sub [of i]
          by (auto split: if_splits)
      qed
      have "persist_missing codecs fault partial (map snd (rc_receipts s1)) dir1 = (Inr (), dir1)"
      proof (rule persist_missing_present, intro allI impI)
        fix p assume "Complete p \<in> set (map snd (rc_receipts s1))"
        then obtain i where "(i, Complete p) \<in> set (rc_receipts s1)" by auto
        then have "map_of (rc_receipts s1) i = Some (Complete p)" using pr(1) by (simp add: state_of_files_def btree_ok_distinct)
        then have "holds codecs dir1 i p" using pr(1) by (simp add: state_of_files_def)
        then show "dir1 (rp_request_id p) \<noteq> None" using holds_request_id by (auto simp: holds_def)
      qed
      with assms(3) Inr q finished res sub show ?thesis by (auto simp: receipts_open_def)
    qed
  qed
  then show "dir' n = map_of listing n \<or> dir' n = None" "r = Inr c \<Longrightarrow> \<not> rc_poisoned c \<and> restored codecs dir' (rc_state c)"
    by simp_all
qed

section \<open>Runs\<close>

text \<open>Receipts that were complete before and are gone.\<close>

definition dropped :: "receipt_state \<Rightarrow> receipt_state \<Rightarrow> bytes set" where
  "dropped s s' = {i. (\<exists>r. map_of (rc_receipts s) i = Some (Complete r)) \<and> map_of (rc_receipts s') i = None}"

text \<open>
  The life of a catalog: requests reserve, append and complete or abandon in any order and
  concurrently, each step with its own clock and faults; the process can crash and restart at any
  time. A restart finds the directory as it was, except that a removal which had not reached the disk
  may be undone, in any listing order. The state is absent while opening fails. The lists record the
  reservations in flight and the acknowledged appends, latest first, and the set the keys whose latest
  receipt has left the window.
\<close>

inductive receipt_run ::
  "receipt_codecs \<Rightarrow> receipt_catalog option \<Rightarrow> receipt_directory \<Rightarrow> (u128 \<times> bytes) list \<Rightarrow> (u128 \<times> bytes \<times> native_telemetry_append_ack) list
   \<Rightarrow> bytes set \<Rightarrow> bool" for codecs where
  opened: "receipts_open codecs fault partial now [] None = (Inr c, dir) \<Longrightarrow> receipt_run codecs (Some c) dir [] [] {}"
| reserved: "receipt_run codecs (Some c) dir flights acked forgotten \<Longrightarrow> length digest = 64
    \<Longrightarrow> receipt_reserve fault now i digest c dir = (r, c', dir')
    \<Longrightarrow> receipt_run codecs (Some c') dir' (if r = Some (Inr Reserved) then (i, digest) # flights else flights) acked
         (forgotten \<union> dropped (rc_state c) (rc_state c'))"
| completed: "receipt_run codecs (Some c) dir flights acked forgotten \<Longrightarrow> (i, digest) \<in> set flights
    \<Longrightarrow> receipt_complete codecs fault partial now i digest ack c dir = (Inr (), c', dir')
    \<Longrightarrow> receipt_run codecs (Some c') dir' (removeAll (i, digest) flights) ((i, digest, ack) # acked) (forgotten - {request_key i})"
| incomplete: "receipt_run codecs (Some c) dir flights acked forgotten \<Longrightarrow> (i, digest) \<in> set flights
    \<Longrightarrow> receipt_complete codecs fault partial now i digest ack c dir = (Inl e, c', dir')
    \<Longrightarrow> receipt_run codecs (Some c') dir' flights acked forgotten"
| abandoned: "receipt_run codecs (Some c) dir flights acked forgotten \<Longrightarrow> (i, digest) \<in> set flights
    \<Longrightarrow> receipt_run codecs (Some (receipt_abandon i c)) dir (removeAll (i, digest) flights) acked forgotten"
| retained: "receipt_run codecs (Some c) dir flights acked forgotten \<Longrightarrow> retain_since fault cutoff c dir = (r, c', dir')
    \<Longrightarrow> receipt_run codecs (Some c') dir' flights acked (forgotten \<union> dropped (rc_state c) (rc_state c'))"
| restarted: "receipt_run codecs co dir flights acked forgotten \<Longrightarrow> distinct (map fst listing)
    \<Longrightarrow> (\<And>n. map_of listing n = dir n \<or> dir n = None \<and> (\<exists>r. holds codecs (map_of listing) n r))
    \<Longrightarrow> receipts_open codecs fault partial now listing None = (r, dir')
    \<Longrightarrow> receipt_run codecs (case r of Inl _ \<Rightarrow> None | Inr c \<Rightarrow> Some c) dir' [] acked (forgotten \<union> {n. dir n \<noteq> None \<and> dir' n = None})"

text \<open>The invariant of a running catalog.\<close>

definition catalog_ok :: "receipt_codecs \<Rightarrow> receipt_catalog \<Rightarrow> receipt_directory \<Rightarrow> (u128 \<times> bytes) list \<Rightarrow> bool" where
  "catalog_ok codecs c dir flights \<longleftrightarrow> \<not> rc_poisoned c \<and> state_of_files codecs dir (rc_state c)
     \<and> (\<forall>k d. map_of (rc_receipts (rc_state c)) k = Some (Pending d) \<longleftrightarrow> (\<exists>i. k = request_key i \<and> (i, d) \<in> set flights))
     \<and> (\<forall>(i, d) \<in> set flights. length d = 64)"

definition acked_ok :: "receipt_codecs \<Rightarrow> receipt_catalog option \<Rightarrow> receipt_directory \<Rightarrow> u128 \<Rightarrow> bytes \<Rightarrow> native_telemetry_append_ack \<Rightarrow> bool" where
  "acked_ok codecs co dir i digest ack \<longleftrightarrow> (\<exists>r. holds codecs dir (request_key i) r \<and> rp_payload_digest r = digest \<and> rp_acknowledgement r = ack
     \<and> (\<forall>c. co = Some c \<longrightarrow> map_of (rc_receipts (rc_state c)) (request_key i) = Some (Complete r)))"

definition receipt_inv :: "receipt_codecs \<Rightarrow> receipt_catalog option \<Rightarrow> receipt_directory \<Rightarrow> (u128 \<times> bytes) list
   \<Rightarrow> (u128 \<times> bytes \<times> native_telemetry_append_ack) list \<Rightarrow> bytes set \<Rightarrow> bool" where
  "receipt_inv codecs co dir flights acked forgotten \<longleftrightarrow> dir_ok codecs dir \<and> (\<forall>c. co = Some c \<longrightarrow> catalog_ok codecs c dir flights)
     \<and> (\<forall>i digest ack. map_of acked i = Some (digest, ack) \<and> request_key i \<notin> forgotten \<longrightarrow> acked_ok codecs co dir i digest ack)"

lemma dir_ok_subset: "dir_ok codecs dir \<Longrightarrow> (\<And>n. dir' n = dir n \<or> dir' n = None) \<Longrightarrow> dir_ok codecs dir'"
  unfolding dir_ok_def holds_def by metis

lemma flights_unique: "catalog_ok codecs c dir flights \<Longrightarrow> (i, d) \<in> set flights \<Longrightarrow> (i, d') \<in> set flights \<Longrightarrow> d' = d"
  unfolding catalog_ok_def by (metis option.inject receipt_entry.inject(1))

text \<open>Pruning keeps the invariant, what it drops being forgotten.\<close>

lemma pruned_inv:
  assumes inv: "receipt_inv codecs (Some c) dir flights acked forgotten"
    and prune: "prune_locked fault cutoff maximum (rc_state c) dir = (r, s', dir')"
  shows "receipt_inv codecs (Some (c\<lparr>rc_state := s'\<rparr>)) dir' flights acked (forgotten \<union> dropped (rc_state c) s')"
proof -
  have ok: "catalog_ok codecs c dir flights" and dir: "dir_ok codecs dir" using inv by (auto simp: receipt_inv_def)
  then have files: "state_of_files codecs dir (rc_state c)" by (simp add: catalog_ok_def)
  note pr = prune_locked_ok [OF files prune]
  have each: "map_of (rc_receipts s') k = map_of (rc_receipts (rc_state c)) k \<and> dir' k = dir k
     \<or> map_of (rc_receipts s') k = None \<and> (\<exists>r. map_of (rc_receipts (rc_state c)) k = Some (Complete r)) \<and> (dir' k = dir k \<or> dir' k = None)" for k
    using pr(2) by (simp add: pruned_def)
  have sub: "dir' n = dir n \<or> dir' n = None" for n using each [of n] by (elim disjE conjE) simp_all
  have "dir_ok codecs dir'" by (rule dir_ok_subset [OF dir sub])
  moreover have "map_of (rc_receipts s') k = Some (Pending d) \<longleftrightarrow> map_of (rc_receipts (rc_state c)) k = Some (Pending d)" for k d
    using each [of k] by auto
  then have "catalog_ok codecs (c\<lparr>rc_state := s'\<rparr>) dir' flights" using ok pr(1) by (simp add: catalog_ok_def)
  moreover have "acked_ok codecs (Some (c\<lparr>rc_state := s'\<rparr>)) dir' i digest ack"
    if a: "map_of acked i = Some (digest, ack)" "request_key i \<notin> forgotten \<union> dropped (rc_state c) s'" for i digest ack
  proof -
    have "acked_ok codecs (Some c) dir i digest ack" using inv a by (simp add: receipt_inv_def)
    then obtain q where q: "holds codecs dir (request_key i) q" "rp_payload_digest q = digest" "rp_acknowledgement q = ack"
      "map_of (rc_receipts (rc_state c)) (request_key i) = Some (Complete q)" by (auto simp: acked_ok_def)
    with a(2) have "map_of (rc_receipts s') (request_key i) = Some (Complete q)" using each [of "request_key i"] by (auto simp: dropped_def)
    moreover then have "holds codecs dir' (request_key i) q" using pr(1) by (simp add: state_of_files_def)
    ultimately show ?thesis using q(2,3) by (auto simp: acked_ok_def)
  qed
  ultimately show ?thesis by (simp add: receipt_inv_def)
qed

lemma dropped_same [simp]: "dropped s s = {}"
  by (auto simp: dropped_def)

text \<open>A reservation.\<close>

lemma pending_inv:
  assumes inv: "receipt_inv codecs (Some c) dir flights acked forgotten" and none: "map_of (rc_receipts (rc_state c)) (request_key i) = None"
    and digest: "length digest = 64"
  shows "receipt_inv codecs (Some (c\<lparr>rc_state := (rc_state c)\<lparr>rc_receipts := btree_insert (request_key i) (Pending digest) (rc_receipts (rc_state c))\<rparr>\<rparr>))
    dir ((i, digest) # flights) acked forgotten"
proof -
  let ?s = "(rc_state c)\<lparr>rc_receipts := btree_insert (request_key i) (Pending digest) (rc_receipts (rc_state c))\<rparr>"
  have ok: "catalog_ok codecs c dir flights" using inv by (simp add: receipt_inv_def)
  have same: "map_of (rc_receipts ?s) k = Some (Complete r) \<longleftrightarrow> map_of (rc_receipts (rc_state c)) k = Some (Complete r)" for k r
    using none by auto
  then have "state_of_files codecs dir ?s" using ok by (simp add: catalog_ok_def state_of_files_def)
  moreover have "map_of (rc_receipts ?s) k = Some (Pending d) \<longleftrightarrow> (\<exists>j. k = request_key j \<and> (j, d) \<in> set ((i, digest) # flights))" for k d
  proof -
    have "map_of (rc_receipts (rc_state c)) k = Some (Pending d) \<longleftrightarrow> (\<exists>j. k = request_key j \<and> (j, d) \<in> set flights)"
      using ok by (simp add: catalog_ok_def)
    then show ?thesis using none by (auto simp: request_key_faithful)
  qed
  ultimately have "catalog_ok codecs (c\<lparr>rc_state := ?s\<rparr>) dir ((i, digest) # flights)" using ok digest by (simp add: catalog_ok_def)
  with inv same show ?thesis by (auto simp: receipt_inv_def acked_ok_def simp del: map_of_btree_insert)
qed

lemma reserve_inv:
  assumes inv: "receipt_inv codecs (Some c) dir flights acked forgotten" and digest: "length digest = 64"
    and run: "receipt_reserve fault now i digest c dir = (r, c', dir')"
  shows "receipt_inv codecs (Some c') dir' (if r = Some (Inr Reserved) then (i, digest) # flights else flights) acked
    (forgotten \<union> dropped (rc_state c) (rc_state c'))"
proof (cases "map_of (rc_receipts (rc_state c)) (request_key i)")
  case None
  have alive: "\<not> rc_poisoned c" and ok: "catalog_ok codecs c dir flights" using inv by (auto simp: receipt_inv_def catalog_ok_def)
  obtain q s' dir1 where q: "prune_locked fault (receipt_cutoff now) (MAX_NATIVE_APPEND_RECEIPTS - 1) (rc_state c) dir = (q, s', dir1)"
    by (metis prod_cases3)
  note inv1 = pruned_inv [OF inv q]
  show ?thesis
  proof (cases "r = Some (Inr Reserved)")
    case True
    then have c': "c' = c\<lparr>rc_state := s'\<lparr>rc_receipts := btree_insert (request_key i) (Pending digest) (rc_receipts s')\<rparr>\<rparr>" "dir' = dir1"
      using run alive None q by (auto simp: receipt_reserve_def Let_def split: sum.splits if_splits)
    have "pruned (rc_state c) dir s' dir1" using ok q by (intro prune_locked_ok(2)) (auto simp: catalog_ok_def)
    then have none: "map_of (rc_receipts s') (request_key i) = None" using None by (auto simp: pruned_def dest: spec [of _ "request_key i"])
    have "dropped (rc_state c) (rc_state c') = dropped (rc_state c) s'" using None by (auto simp: dropped_def c'(1))
    with True pending_inv [OF inv1 _ digest, of i] none show ?thesis by (simp add: c')
  next
    case False
    then have "c' = c\<lparr>rc_state := s'\<rparr>" "dir' = dir1" using run alive None q by (auto simp: receipt_reserve_def Let_def split: sum.splits if_splits)
    with False inv1 show ?thesis by simp
  qed
next
  case (Some e)
  have "\<not> rc_poisoned c" using inv by (simp add: receipt_inv_def catalog_ok_def)
  with Some run have "c' = c" "dir' = dir" "r \<noteq> Some (Inr Reserved)"
    by (auto simp: receipt_reserve_def Let_def split: receipt_entry.splits if_splits)
  with inv show ?thesis by simp
qed

text \<open>Writing a receipt.\<close>

lemma persist_receipt_cases:
  assumes "persist_receipt codecs fault partial r dir = (q, dir')"
  shows "q \<noteq> Inr () \<and> dir' = dir \<or> (\<exists>encoded. rj_to_vec codecs r = Inr encoded \<and> dir' = dir(rp_request_id r \<mapsto> encoded))"
proof (cases "rj_to_vec codecs r")
  case (Inl e)
  with assms show ?thesis by (auto simp: persist_receipt_def)
next
  case (Inr encoded)
  obtain fs where fs: "replace_file receipt_io_error (fault (rp_request_id r)) partial encoded \<lparr>fp_main = dir (rp_request_id r), fp_temp = None\<rparr> = (q, fs)"
    "dir' = dir(rp_request_id r := fp_main fs)" using assms Inr by (auto simp: persist_receipt_def split: prod.splits)
  from replace_file_cases [OF fs(1)] fs(2) Inr show ?thesis by (auto simp: fun_upd_idem)
qed

lemma written_files:
  assumes lossless: "receipts_lossless codecs" and inv: "receipt_inv codecs (Some c) dir flights acked forgotten"
    and flight: "(i, digest) \<in> set flights" and r: "rp_request_id r = request_key i" "rp_payload_digest r = digest" "rj_to_vec codecs r = Inr encoded"
  shows "holds codecs (dir(request_key i \<mapsto> encoded)) (request_key i) r"
    "receipt_inv codecs (Some c) (dir(request_key i \<mapsto> encoded)) flights acked forgotten"
proof -
  let ?dir = "dir(request_key i \<mapsto> encoded)" and ?m = "map_of (rc_receipts (rc_state c))"
  have ok: "catalog_ok codecs c dir flights" and dir: "dir_ok codecs dir" using inv by (auto simp: receipt_inv_def)
  have len: "length digest = 64" and pend: "?m (request_key i) = Some (Pending digest)" using ok flight by (auto simp: catalog_ok_def)
  show new: "holds codecs ?dir (request_key i) r"
    using lossless r len by (simp add: holds_def receipt_file_def receipts_lossless_def request_key_faithful)
  have other: "holds codecs ?dir k q = holds codecs dir k q" if "k \<noteq> request_key i" for k q using that by (intro holds_same) simp
  have "dir_ok codecs ?dir" unfolding dir_ok_def
  proof (intro allI impI)
    fix n assume "?dir n \<noteq> None"
    with dir new other [of n] show "\<exists>r. holds codecs ?dir n r" by (cases "n = request_key i") (auto simp: dir_ok_def)
  qed
  moreover have "state_of_files codecs ?dir (rc_state c)"
  proof -
    have "holds codecs ?dir k q" if "?m k = Some (Complete q)" for k q
      using that pend ok other [of k] by (cases "k = request_key i") (auto simp: catalog_ok_def state_of_files_def)
    with ok show ?thesis by (simp add: catalog_ok_def state_of_files_def)
  qed
  moreover have "acked_ok codecs (Some c) ?dir j d ack" if "map_of acked j = Some (d, ack)" "request_key j \<notin> forgotten" for j d ack
  proof -
    have "acked_ok codecs (Some c) dir j d ack" using inv that by (simp add: receipt_inv_def)
    moreover then have "request_key j \<noteq> request_key i" using pend by (auto simp: acked_ok_def)
    ultimately show ?thesis using other by (simp add: acked_ok_def)
  qed
  ultimately show "receipt_inv codecs (Some c) ?dir flights acked forgotten" using ok by (simp add: receipt_inv_def catalog_ok_def)
qed

lemma complete_cases:
  assumes lossless: "receipts_lossless codecs" and inv: "receipt_inv codecs (Some c) dir flights acked forgotten"
    and flight: "(i, digest) \<in> set flights" and run: "receipt_complete codecs fault partial now i digest ack c dir = (r, c', dir')"
  defines "receipt \<equiv> \<lparr>rp_request_id = request_key i, rp_payload_digest = digest, rp_recorded_at = now, rp_acknowledgement = ack\<rparr>"
  shows "receipt_inv codecs (Some c) dir' flights acked forgotten"
    "r = Inr () \<and> holds codecs dir' (request_key i) receipt \<and> c' = c\<lparr>rc_state := \<lparr>rc_receipts = btree_insert (request_key i) (Complete receipt)
         (btree_remove (request_key i) (rc_receipts (rc_state c))), rc_completed_by_time = btree_insert (now, request_key i) () (rc_completed_by_time (rc_state c))\<rparr>\<rparr>
     \<or> r \<noteq> Inr () \<and> c' = c"
proof -
  obtain q dir1 where q: "persist_receipt codecs fault partial receipt dir = (q, dir1)" by fastforce
  have d: "dir' = dir1" using run q by (auto simp: receipt_complete_def Let_def receipt_def [symmetric] split: sum.splits if_splits option.splits receipt_entry.splits)
  have pend: "map_of (rc_receipts (rc_state c)) (request_key i) = Some (Pending digest)" "\<not> rc_poisoned c"
    using inv flight by (auto simp: receipt_inv_def catalog_ok_def)
  have w: "q \<noteq> Inr () \<and> dir1 = dir \<or> holds codecs dir1 (request_key i) receipt \<and> receipt_inv codecs (Some c) dir1 flights acked forgotten"
    using persist_receipt_cases [OF q] written_files [OF lossless inv flight, of receipt] by (auto simp: receipt_def)
  with inv d show "receipt_inv codecs (Some c) dir' flights acked forgotten" by auto
  show "r = Inr () \<and> holds codecs dir' (request_key i) receipt \<and> c' = c\<lparr>rc_state := \<lparr>rc_receipts = btree_insert (request_key i) (Complete receipt)
         (btree_remove (request_key i) (rc_receipts (rc_state c))), rc_completed_by_time = btree_insert (now, request_key i) () (rc_completed_by_time (rc_state c))\<rparr>\<rparr>
     \<or> r \<noteq> Inr () \<and> c' = c"
    using run q pend w d by (cases q) (auto simp: receipt_complete_def Let_def receipt_def [symmetric])
qed

lemma completed_inv:
  assumes lossless: "receipts_lossless codecs" and inv: "receipt_inv codecs (Some c) dir flights acked forgotten"
    and flight: "(i, digest) \<in> set flights" and run: "receipt_complete codecs fault partial now i digest ack c dir = (Inr (), c', dir')"
  shows "receipt_inv codecs (Some c') dir' (removeAll (i, digest) flights) ((i, digest, ack) # acked) (forgotten - {request_key i})"
proof -
  let ?k = "request_key i" and ?r = "\<lparr>rp_request_id = request_key i, rp_payload_digest = digest, rp_recorded_at = now, rp_acknowledgement = ack\<rparr>"
  note cc = complete_cases [OF lossless inv flight run]
  have inv': "receipt_inv codecs (Some c) dir' flights acked forgotten" and hold: "holds codecs dir' ?k ?r" using cc by auto
  have c': "rc_receipts (rc_state c') = btree_insert ?k (Complete ?r) (btree_remove ?k (rc_receipts (rc_state c)))"
    "rc_completed_by_time (rc_state c') = btree_insert (now, ?k) () (rc_completed_by_time (rc_state c))" "rc_poisoned c' = rc_poisoned c"
    using cc by auto
  have ok: "catalog_ok codecs c dir' flights" using inv' by (simp add: receipt_inv_def)
  have pend: "map_of (rc_receipts (rc_state c)) ?k = Some (Pending digest)" using ok flight by (auto simp: catalog_ok_def)
  have m: "map_of (rc_receipts (rc_state c')) = (map_of (rc_receipts (rc_state c)))(?k \<mapsto> Complete ?r)" by (auto simp: c' fun_eq_iff)
  define A where "A = fst ` set (rc_completed_by_time (rc_state c))"
  have listed: "(t, k) \<in> A \<longleftrightarrow> (\<exists>q. map_of (rc_receipts (rc_state c)) k = Some (Complete q) \<and> rp_recorded_at q = t)" for t k
    using ok by (simp add: catalog_ok_def state_of_files_def A_def)
  have "(t, k) \<in> fst ` set (rc_completed_by_time (rc_state c')) \<longleftrightarrow> (\<exists>q. map_of (rc_receipts (rc_state c')) k = Some (Complete q) \<and> rp_recorded_at q = t)" for t k
    unfolding m c'(2) dom_btree_insert A_def [symmetric] using listed [of t k] pend by auto
  then have files: "state_of_files codecs dir' (rc_state c')"
    using ok hold by (auto simp: catalog_ok_def state_of_files_def m) (simp_all add: c')
  have "map_of (rc_receipts (rc_state c')) k = Some (Pending d) \<longleftrightarrow> (\<exists>j. k = request_key j \<and> (j, d) \<in> set (removeAll (i, digest) flights))" for k d
  proof -
    have "map_of (rc_receipts (rc_state c)) k = Some (Pending d) \<longleftrightarrow> (\<exists>j. k = request_key j \<and> (j, d) \<in> set flights)" using ok by (simp add: catalog_ok_def)
    then show ?thesis using flights_unique [OF ok flight] by (auto simp: m request_key_faithful)
  qed
  then have "catalog_ok codecs c' dir' (removeAll (i, digest) flights)" using ok files c'(3) by (auto simp: catalog_ok_def)
  moreover have "acked_ok codecs (Some c') dir' j d a" if "map_of ((i, digest, ack) # acked) j = Some (d, a)" "request_key j \<notin> forgotten - {?k}" for j d a
    using that inv' hold by (cases "j = i") (auto simp: acked_ok_def m receipt_inv_def request_key_faithful)
  ultimately show ?thesis using inv' by (simp add: receipt_inv_def)
qed

lemma abandoned_inv:
  assumes inv: "receipt_inv codecs (Some c) dir flights acked forgotten" and flight: "(i, digest) \<in> set flights"
  shows "receipt_inv codecs (Some (receipt_abandon i c)) dir (removeAll (i, digest) flights) acked forgotten"
proof -
  let ?k = "request_key i" and ?c = "receipt_abandon i c"
  have ok: "catalog_ok codecs c dir flights" using inv by (simp add: receipt_inv_def)
  have pend: "map_of (rc_receipts (rc_state c)) ?k = Some (Pending digest)" "\<not> rc_poisoned c" using ok flight by (auto simp: catalog_ok_def)
  have c': "rc_receipts (rc_state ?c) = btree_remove ?k (rc_receipts (rc_state c))" "rc_completed_by_time (rc_state ?c) = rc_completed_by_time (rc_state c)"
    "rc_poisoned ?c = rc_poisoned c" using pend by (simp_all add: receipt_abandon_def)
  have same: "map_of (rc_receipts (rc_state ?c)) k = Some (Complete q) \<longleftrightarrow> map_of (rc_receipts (rc_state c)) k = Some (Complete q)" for k q
    using pend by (simp add: c')
  have "state_of_files codecs dir (rc_state ?c)" using ok unfolding catalog_ok_def state_of_files_def same by (simp add: c')
  moreover have "map_of (rc_receipts (rc_state ?c)) k = Some (Pending d) \<longleftrightarrow> (\<exists>j. k = request_key j \<and> (j, d) \<in> set (removeAll (i, digest) flights))" for k d
  proof -
    have "map_of (rc_receipts (rc_state c)) k = Some (Pending d) \<longleftrightarrow> (\<exists>j. k = request_key j \<and> (j, d) \<in> set flights)" using ok by (simp add: catalog_ok_def)
    then show ?thesis using flights_unique [OF ok flight] by (auto simp: c' request_key_faithful)
  qed
  ultimately have "catalog_ok codecs ?c dir (removeAll (i, digest) flights)" using ok c'(3) by (auto simp: catalog_ok_def)
  with inv show ?thesis unfolding receipt_inv_def acked_ok_def by (auto simp: same)
qed

lemma retained_inv:
  assumes "receipt_inv codecs (Some c) dir flights acked forgotten" "retain_since fault cutoff c dir = (r, c', dir')"
  shows "receipt_inv codecs (Some c') dir' flights acked (forgotten \<union> dropped (rc_state c) (rc_state c'))"
proof -
  obtain q s' dir1 where q: "prune_locked fault cutoff MAX_NATIVE_APPEND_RECEIPTS (rc_state c) dir = (q, s', dir1)" by (metis prod_cases3)
  have "\<not> rc_poisoned c" using assms(1) by (simp add: receipt_inv_def catalog_ok_def)
  with assms(2) q have "c' = c\<lparr>rc_state := s'\<rparr>" "dir' = dir1" by (auto simp: retain_since_def)
  with pruned_inv [OF assms(1) q] show ?thesis by simp
qed

lemma restarted_inv:
  assumes inv: "receipt_inv codecs co dir flights acked forgotten" and listing: "distinct (map fst listing)"
    "\<And>n. map_of listing n = dir n \<or> dir n = None \<and> (\<exists>r. holds codecs (map_of listing) n r)"
    and run: "receipts_open codecs fault partial now listing None = (r, dir')"
  shows "receipt_inv codecs (case r of Inl _ \<Rightarrow> None | Inr c \<Rightarrow> Some c) dir' [] acked (forgotten \<union> {n. dir n \<noteq> None \<and> dir' n = None})"
proof -
  have dir0: "dir_ok codecs (map_of listing)" unfolding dir_ok_def
  proof (intro allI impI)
    fix n assume n: "map_of listing n \<noteq> None"
    show "\<exists>r. holds codecs (map_of listing) n r"
    proof (cases "map_of listing n = dir n")
      case True
      with n inv have "\<exists>r. holds codecs dir n r" by (simp add: receipt_inv_def dir_ok_def)
      with holds_same [of "map_of listing" n dir] True show ?thesis by simp
    qed (use listing(2) [of n] in blast)
  qed
  note op = receipts_open_ok [OF listing(1) dir0 run]
  have "dir_ok codecs dir'" by (rule dir_ok_subset [OF dir0 op(1)])
  moreover have "catalog_ok codecs c dir' []" if "r = Inr c" for c
  proof -
    have res: "\<not> rc_poisoned c" "restored codecs dir' (rc_state c)" using op(2) [OF that] by auto
    have "map_of (rc_receipts (rc_state c)) k \<noteq> Some (Pending d)" for k d
      using res(2) [unfolded restored_def, THEN conjunct2, THEN spec, of k] by (auto split: if_splits)
    with res show ?thesis by (simp add: catalog_ok_def restored_def)
  qed
  moreover have "acked_ok codecs (case r of Inl _ \<Rightarrow> None | Inr c \<Rightarrow> Some c) dir' i digest ack"
    if a: "map_of acked i = Some (digest, ack)" "request_key i \<notin> forgotten \<union> {n. dir n \<noteq> None \<and> dir' n = None}" for i digest ack
  proof -
    have "acked_ok codecs co dir i digest ack" using inv a by (simp add: receipt_inv_def)
    then obtain q where q: "holds codecs dir (request_key i) q" "rp_payload_digest q = digest" "rp_acknowledgement q = ack" by (auto simp: acked_ok_def)
    then have "dir (request_key i) \<noteq> None" by (auto simp: holds_def)
    with a(2) listing(2) [of "request_key i"] op(1) [of "request_key i"] have same: "dir' (request_key i) = dir (request_key i)" by auto
    have h: "holds codecs dir' (request_key i) q" using q(1) unfolding holds_def same .
    have "map_of (rc_receipts (rc_state c)) (request_key i) = Some (Complete q)" if "r = Inr c" for c
    proof -
      have res: "restored codecs dir' (rc_state c)" using op(2) [OF that] by simp
      obtain p where "map_of (rc_receipts (rc_state c)) (request_key i) = Some (Complete p)"
        using res [unfolded restored_def, THEN conjunct2, THEN spec, of "request_key i"] h by (auto simp: holds_def split: if_splits)
      moreover then have "holds codecs dir' (request_key i) p" using res by (simp add: restored_def state_of_files_def)
      ultimately show ?thesis using holds_unique [OF h] by blast
    qed
    with h q(2,3) show ?thesis by (auto simp: acked_ok_def split: sum.splits)
  qed
  ultimately show ?thesis by (auto simp: receipt_inv_def split: sum.splits)
qed

lemma receipt_run_inv:
  assumes "receipt_run codecs co dir flights acked forgotten" "receipts_lossless codecs"
  shows "receipt_inv codecs co dir flights acked forgotten"
  using assms(1)
proof induction
  case (opened fault partial now c dir)
  have "receipt_inv codecs None Map.empty [] [] {}" by (simp add: receipt_inv_def dir_ok_def)
  from restarted_inv [OF this _ _ opened] show ?case by simp
next
  case (reserved c dir flights acked forgotten digest fault now i r c' dir')
  then show ?case using reserve_inv by blast
next
  case (completed c dir flights acked forgotten i digest fault partial now ack c' dir')
  then show ?case using completed_inv [OF assms(2)] by blast
next
  case (incomplete c dir flights acked forgotten i digest fault partial now ack e c' dir')
  then show ?case using complete_cases [OF assms(2) incomplete.IH incomplete.hyps(2,3)] by auto
next
  case (abandoned c dir flights acked forgotten i digest)
  then show ?case using abandoned_inv by blast
next
  case (retained c dir flights acked forgotten fault cutoff r c' dir')
  then show ?case using retained_inv by blast
next
  case (restarted co dir flights acked forgotten listing fault partial now r dir')
  then show ?case using restarted_inv by blast
qed

section \<open>The window\<close>

text \<open>Pruning takes receipts from the old end, and stops at the first one inside the window.\<close>

lemma prune_prefix:
  assumes "prune_completed fault cutoff maximum completed receipts dir = (r, s', dir')"
  shows "\<exists>n \<le> length completed. rc_completed_by_time s' = drop n completed
    \<and> (\<forall>j < n. fst (fst (completed ! j)) < cutoff \<or> maximum < length completed - j)
    \<and> (\<forall>i. map_of (rc_receipts s') i = (if i \<in> (snd \<circ> fst) ` set (take n completed) then None else map_of receipts i))
    \<and> (r = Inr () \<and> n < length completed \<longrightarrow> cutoff \<le> fst (fst (completed ! n)) \<and> length completed - n \<le> maximum)"
  using assms
proof (induction fault cutoff maximum completed receipts dir rule: prune_completed.induct)
  case (2 fault cutoff maximum t i u rest receipts dir)
  show ?case
  proof (cases "t < cutoff \<or> length (((t, i), u) # rest) > maximum")
    case True
    show ?thesis
    proof (cases "\<exists>q dir1. map_of receipts i = Some (Complete q) \<and> remove_file fault (rp_request_id q) dir = Inr dir1")
      case gone: True
      then obtain q dir1 where q: "map_of receipts i = Some (Complete q)" "remove_file fault (rp_request_id q) dir = Inr dir1" by blast
      have "prune_completed fault cutoff maximum rest (btree_remove i receipts) dir1 = (r, s', dir')" using "2.prems" True q by (simp add: Let_def)
      from "2.IH" [OF True refl q(1) refl q(2) this] obtain n where n: "n \<le> length rest" "rc_completed_by_time s' = drop n rest"
          "\<forall>j < n. fst (fst (rest ! j)) < cutoff \<or> maximum < length rest - j"
          "\<forall>k. map_of (rc_receipts s') k = (if k \<in> (snd \<circ> fst) ` set (take n rest) then None else map_of (btree_remove i receipts) k)"
          "r = Inr () \<and> n < length rest \<longrightarrow> cutoff \<le> fst (fst (rest ! n)) \<and> length rest - n \<le> maximum" by blast
      have "\<forall>j < Suc n. fst (fst ((((t, i), u) # rest) ! j)) < cutoff \<or> maximum < length (((t, i), u) # rest) - j"
        using n(3) True by (auto simp: less_Suc_eq_0_disj)
      with n show ?thesis by (intro exI [of _ "Suc n"]) auto
    next
      case False
      with "2.prems" True have "s' = \<lparr>rc_receipts = btree_remove i receipts, rc_completed_by_time = rest\<rparr>" "r \<noteq> Inr ()"
        by (auto simp: Let_def split: option.splits receipt_entry.splits sum.splits)
      with True show ?thesis by (intro exI [of _ 1]) auto
    qed
  next
    case False
    with "2.prems" show ?thesis by (intro exI [of _ 0]) auto
  qed
qed auto

lemma middle_split: "S = A \<union> {b} \<union> C \<Longrightarrow> \<forall>x \<in> A. x < b \<Longrightarrow> \<forall>x \<in> C. b < x \<Longrightarrow> {x \<in> S. (b :: 'a::order) < x} = C"
  by (auto dest: less_asym)

lemma sorted_prefix_newer:
  fixes xs :: "('a::linorder \<times> 'b) list"
  assumes "sorted_wrt (<) (map fst xs)" "j < length xs"
  shows "{x \<in> fst ` set xs. fst (xs ! j) < x} = fst ` set (drop (Suc j) xs)" "card (fst ` set (drop (Suc j) xs)) = length xs - Suc j"
proof -
  have split: "xs = take j xs @ xs ! j # drop (Suc j) xs" using assms(2) by (rule id_take_nth_drop)
  have srt: "sorted_wrt (<) (map fst (take j xs @ xs ! j # drop (Suc j) xs))" using assms(1) split by simp
  have "fst ` set xs = fst ` set (take j xs) \<union> {fst (xs ! j)} \<union> fst ` set (drop (Suc j) xs)" by (subst split) auto
  moreover have "\<forall>x \<in> fst ` set (take j xs). x < fst (xs ! j)" "\<forall>x \<in> fst ` set (drop (Suc j) xs). fst (xs ! j) < x"
    using srt by (simp_all add: sorted_wrt_append)
  ultimately show "{x \<in> fst ` set xs. fst (xs ! j) < x} = fst ` set (drop (Suc j) xs)"
    by (rule middle_split)
  have "distinct (map fst (drop (Suc j) xs))" using srt by (simp add: sorted_wrt_append strict_sorted_iff)
  then show "card (fst ` set (drop (Suc j) xs)) = length xs - Suc j" using distinct_card [of "map fst (drop (Suc j) xs)"] by simp
qed

section \<open>Migration\<close>

definition indexed :: "receipt_state \<Rightarrow> bool" where
  "indexed s \<longleftrightarrow> btree_ok (rc_completed_by_time s)
     \<and> (\<forall>t i. (t, i) \<in> fst ` set (rc_completed_by_time s) \<longleftrightarrow> (\<exists>r. map_of (rc_receipts s) i = Some (Complete r) \<and> rp_recorded_at r = t))"

lemma indexed_insert:
  assumes "indexed s" "map_of (rc_receipts s) (rp_request_id r) = None" "insert_recovered r s = Inr s'"
  shows "indexed s'" "map_of (rc_receipts s') = (map_of (rc_receipts s))(rp_request_id r \<mapsto> Complete r)"
proof -
  have s': "rc_receipts s' = btree_insert (rp_request_id r) (Complete r) (rc_receipts s)"
    "rc_completed_by_time s' = btree_insert (rp_recorded_at r, rp_request_id r) () (rc_completed_by_time s)"
    using assms(3) by (auto simp: insert_recovered_def split: if_splits)
  show m: "map_of (rc_receipts s') = (map_of (rc_receipts s))(rp_request_id r \<mapsto> Complete r)" by (simp add: s')
  have "(t, i) \<in> fst ` set (rc_completed_by_time s') \<longleftrightarrow> (\<exists>q. map_of (rc_receipts s') i = Some (Complete q) \<and> rp_recorded_at q = t)" for t i
    using assms(1) [unfolded indexed_def, THEN conjunct2, THEN spec, THEN spec, of t i] assms(2)
    unfolding m s'(2) dom_btree_insert by auto
  with assms(1) show "indexed s'" by (simp add: indexed_def s'(2))
qed

lemma recover_all:
  assumes "indexed s" "distinct (map rp_request_id rs)" "\<forall>r \<in> set rs. length (rp_request_id r) = 32 \<and> length (rp_payload_digest r) = 64"
    and "\<forall>r \<in> set rs. map_of (rc_receipts s) (rp_request_id r) = None"
  shows "\<exists>s'. rfold insert_recovered rs s = Inr s' \<and> indexed s' \<and> (\<forall>r \<in> set rs. map_of (rc_receipts s') (rp_request_id r) = Some (Complete r))
    \<and> (\<forall>i. i \<notin> rp_request_id ` set rs \<longrightarrow> map_of (rc_receipts s') i = map_of (rc_receipts s) i)"
  using assms
proof (induction rs arbitrary: s)
  case (Cons r rs)
  obtain s1 where s1: "insert_recovered r s = Inr s1" using Cons.prems(3,4) by (simp add: insert_recovered_def)
  have none: "map_of (rc_receipts s) (rp_request_id r) = None" using Cons.prems(4) by simp
  note ins = indexed_insert [OF Cons.prems(1) none s1]
  have fresh: "rp_request_id r \<notin> rp_request_id ` set rs" using Cons.prems(2) by simp
  then have "\<forall>q \<in> set rs. map_of (rc_receipts s1) (rp_request_id q) = None" using Cons.prems(4) unfolding ins(2) by (metis fun_upd_other imageI list.set_intros(2))
  with Cons.IH [OF ins(1)] Cons.prems(2,3) obtain s' where s': "rfold insert_recovered rs s1 = Inr s'" "indexed s'"
      "\<forall>q \<in> set rs. map_of (rc_receipts s') (rp_request_id q) = Some (Complete q)"
      "\<forall>i. i \<notin> rp_request_id ` set rs \<longrightarrow> map_of (rc_receipts s') i = map_of (rc_receipts s1) i" by auto
  have "map_of (rc_receipts s') (rp_request_id r) = Some (Complete r)" using s'(4) fresh ins(2) by simp
  moreover have "map_of (rc_receipts s') i = map_of (rc_receipts s) i" if "i \<notin> rp_request_id ` set (r # rs)" for i
    using that s'(4) ins(2) by simp
  ultimately show ?case using s' s1 by auto
qed simp

section \<open>Guarantees\<close>


text \<open>
  C16: appends with one identifier do not overlap. While one is in flight, a request with the same
  content waits, one with other content is refused, and no two reservations have the same identifier.
\<close>

theorem append_exclusive:
  assumes "receipts_lossless codecs" "receipt_run codecs (Some c) dir flights acked forgotten" "(i, digest) \<in> set flights"
  shows "receipt_reserve fault now i digest' c dir
    = (if digest' = digest then None else Some (Inl (bad_request ''native retry ID was reused with different telemetry content'')), c, dir)
    \<and> (\<forall>d. (i, d) \<in> set flights \<longleftrightarrow> d = digest)"
proof -
  have ok: "catalog_ok codecs c dir flights" using receipt_run_inv [OF assms(2,1)] by (simp add: receipt_inv_def)
  then have "map_of (rc_receipts (rc_state c)) (request_key i) = Some (Pending digest)" "\<not> rc_poisoned c"
    using assms(3) by (auto simp: catalog_ok_def)
  then have "receipt_reserve fault now i digest' c dir
    = (if digest' = digest then None else Some (Inl (bad_request ''native retry ID was reused with different telemetry content'')), c, dir)"
    by (simp add: receipt_reserve_def Let_def)
  moreover have "\<forall>d. (i, d) \<in> set flights \<longleftrightarrow> d = digest" using flights_unique [OF ok assms(3)] assms(3) by blast
  ultimately show ?thesis by (rule conjI)
qed

text \<open>
  C18: what leaves the window. Pruning drops a receipt only if it is older than the cutoff or at least
  as many newer receipts as the window holds are complete, and when it succeeds everything that stays is inside the window.
\<close>

theorem receipt_window:
  assumes "receipts_lossless codecs" "receipt_run codecs (Some c) dir flights acked forgotten"
    and "prune_locked fault cutoff maximum (rc_state c) dir = (r, s', dir')"
  shows "(\<forall>k \<in> dropped (rc_state c) s'. \<exists>q. map_of (rc_receipts (rc_state c)) k = Some (Complete q) \<and> (rp_recorded_at q < cutoff
       \<or> maximum \<le> card {(t, k'). (rp_recorded_at q, k) < (t, k') \<and> (\<exists>q'. map_of (rc_receipts (rc_state c)) k' = Some (Complete q') \<and> rp_recorded_at q' = t)}))
    \<and> (r = Inr () \<longrightarrow> length (rc_completed_by_time s') \<le> maximum
       \<and> (\<forall>k q. map_of (rc_receipts s') k = Some (Complete q) \<longrightarrow> cutoff \<le> rp_recorded_at q))"
proof -
  let ?done = "rc_completed_by_time (rc_state c)" and ?m = "map_of (rc_receipts (rc_state c))"
  have files: "state_of_files codecs dir (rc_state c)" using receipt_run_inv [OF assms(2,1)] by (simp add: receipt_inv_def catalog_ok_def)
  have srt: "sorted_wrt (<) (map fst ?done)" using files by (simp add: state_of_files_def btree_ok_def)
  have listed: "(t, k) \<in> fst ` set ?done \<longleftrightarrow> (\<exists>q. ?m k = Some (Complete q) \<and> rp_recorded_at q = t)" for t k
    using files by (simp add: state_of_files_def)
  obtain n where n: "n \<le> length ?done" "rc_completed_by_time s' = drop n ?done"
      "\<forall>j < n. fst (fst (?done ! j)) < cutoff \<or> maximum < length ?done - j"
      "\<forall>i. map_of (rc_receipts s') i = (if i \<in> (snd \<circ> fst) ` set (take n ?done) then None else ?m i)"
      "r = Inr () \<and> n < length ?done \<longrightarrow> cutoff \<le> fst (fst (?done ! n)) \<and> length ?done - n \<le> maximum"
    using prune_prefix [OF assms(3) [unfolded prune_locked_def]] by blast
  have old: "\<exists>q. ?m k = Some (Complete q) \<and> (rp_recorded_at q < cutoff
       \<or> maximum \<le> card {(t, k'). (rp_recorded_at q, k) < (t, k') \<and> (\<exists>q'. ?m k' = Some (Complete q') \<and> rp_recorded_at q' = t)})"
    if k: "k \<in> dropped (rc_state c) s'" for k
  proof -
    from k n(4) obtain j where j: "j < n" "k = snd (fst (?done ! j))" by (auto simp: dropped_def in_set_conv_nth split: if_splits)
    let ?t = "fst (fst (?done ! j))"
    have "fst (?done ! j) \<in> fst ` set ?done" using j(1) n(1) by simp
    then obtain q where q: "?m k = Some (Complete q)" "rp_recorded_at q = ?t" using listed [of ?t k] j(2) by auto
    have "{(t, k'). (?t, k) < (t, k') \<and> (\<exists>q'. ?m k' = Some (Complete q') \<and> rp_recorded_at q' = t)} = {x \<in> fst ` set ?done. fst (?done ! j) < x}"
      using listed j(2) by (auto simp del: less_prod_simp)
    also have "card \<dots> = length ?done - Suc j" using sorted_prefix_newer [OF srt, of j] j(1) n(1) by simp
    finally show ?thesis using q n(3) j(1) by auto
  qed
  have kept: "cutoff \<le> rp_recorded_at q" if "r = Inr ()" "map_of (rc_receipts s') k = Some (Complete q)" for k q
  proof -
    have "state_of_files codecs dir' s'" by (rule prune_locked_ok(1) [OF files assms(3)])
    with that(2) have "(rp_recorded_at q, k) \<in> fst ` set (drop n ?done)" using n(2) unfolding state_of_files_def by (metis (no_types))
    then obtain i where "i < length ?done - n" "fst (?done ! (n + i)) = (rp_recorded_at q, k)" by (auto simp: in_set_conv_nth)
    then obtain j where j: "n \<le> j" "j < length ?done" "fst (?done ! j) = (rp_recorded_at q, k)" by (intro that [of "n + i"]) auto
    have "fst (?done ! n) \<le> fst (?done ! j)" using srt j(1,2) by (cases "n = j") (auto simp: sorted_wrt_iff_nth_less less_imp_le)
    then have "fst (fst (?done ! n)) \<le> rp_recorded_at q" unfolding j(3) by (cases "fst (?done ! n)") auto
    with n(5) that(1) j(1,2) show ?thesis by auto
  qed
  from old kept n(2,5) show ?thesis by (cases "n < length ?done") auto
qed

text \<open>
  C36: an expired receipt in a journal of version 1 blocks the migration: opening removes a file that only
  the new format has, and fails for ever, although the journal is intact.
\<close>

theorem legacy_expired_blocks:
  assumes "rj_journal_from_slice codecs contents = Inr \<lparr>rps_version = APPEND_RECEIPTS_VERSION, rps_receipts = rs\<rparr>"
    and "distinct (map rp_request_id rs)" "\<forall>r \<in> set rs. length (rp_request_id r) = 32 \<and> length (rp_payload_digest r) = 64"
    and "r \<in> set rs" "rp_recorded_at r < receipt_cutoff now"
  shows "receipts_open codecs (\<lambda>_ _. None) partial now [] (Some contents)
    = (Inl (receipt_io_error ''No such file or directory (os error 2)''), \<lambda>_. None)"
proof -
  obtain s where s: "rfold insert_recovered rs \<lparr>rc_receipts = [], rc_completed_by_time = []\<rparr> = Inr s" "indexed s"
      "map_of (rc_receipts s) (rp_request_id r) = Some (Complete r)"
    using recover_all [of "\<lparr>rc_receipts = [], rc_completed_by_time = []\<rparr>" rs] assms(2-4) by (auto simp: indexed_def)
  then have "(rp_recorded_at r, rp_request_id r) \<in> fst ` set (rc_completed_by_time s)" unfolding indexed_def by blast
  then obtain x u rest where x: "rc_completed_by_time s = (x, u) # rest" "(rp_recorded_at r, rp_request_id r) \<in> insert x (fst ` set rest)"
    by (cases "rc_completed_by_time s") auto
  have "\<forall>z \<in> fst ` set rest. x < z" using s(2) x(1) by (simp add: indexed_def btree_ok_def)
  with x(2) have "x \<le> (rp_recorded_at r, rp_request_id r)" by (metis insertE less_imp_le order.refl)
  then obtain t i where ti: "x = (t, i)" "t \<le> rp_recorded_at r" by (cases x) auto
  obtain q where q: "map_of (rc_receipts s) i = Some (Complete q)" using s(2) x(1) ti(1) unfolding indexed_def by (metis image_eqI fst_conv list.set_intros(1))
  have "prune_locked (\<lambda>_ _. None) (receipt_cutoff now) MAX_NATIVE_APPEND_RECEIPTS s Map.empty
      = (Inl (receipt_io_error ''No such file or directory (os error 2)''),
         \<lparr>rc_receipts = btree_remove i (rc_receipts s), rc_completed_by_time = rest\<rparr>, Map.empty)"
    using le_less_trans [OF ti(2) assms(5)] ti(1) q x(1) by (simp add: prune_locked_def Let_def remove_file_def)
  moreover have "recover_receipts codecs (\<lambda>_ _. None) [] (Some contents) = Inr s" using assms(1) s(1) by (simp add: recover_receipts_def recover_legacy_def)
  ultimately show ?thesis by (simp add: receipts_open_def)
qed

section \<open>A concrete run\<close>

definition paid_receipt :: append_receipt where
  "paid_receipt = \<lparr>rp_request_id = request_key 7, rp_payload_digest = replicate 64 0x61, rp_recorded_at = 5, rp_acknowledgement = \<lparr>ack_partitions = []\<rparr>\<rparr>"

definition paid_codecs :: receipt_codecs where
  "paid_codecs = \<lparr>rj_to_vec = (\<lambda>r. if r = paid_receipt then Inr [1] else Inl ''unsupported''),
     rj_from_slice = (\<lambda>bs. if bs = [1] then Inr paid_receipt else Inl ''corrupt''),
     rj_journal_from_slice = (\<lambda>_. Inr \<lparr>rps_version = APPEND_RECEIPTS_VERSION, rps_receipts = [paid_receipt]\<rparr>),
     rj_path = (\<lambda>_. ''receipt''), rj_legacy_path = ''journal''\<rparr>"

definition paid_catalog :: "(bytes, receipt_entry) btree \<Rightarrow> (u64 \<times> bytes, unit) btree \<Rightarrow> receipt_catalog" where
  "paid_catalog receipts completed = \<lparr>rc_state = \<lparr>rc_receipts = receipts, rc_completed_by_time = completed\<rparr>, rc_poisoned = False\<rparr>"

definition pending_catalog :: receipt_catalog where
  "pending_catalog = paid_catalog [(request_key 7, Pending (replicate 64 0x61))] []"

definition complete_catalog :: receipt_catalog where
  "complete_catalog = paid_catalog [(request_key 7, Complete paid_receipt)] [((5, request_key 7), ())]"

lemma paid_lossless: "receipts_lossless paid_codecs"
  by (auto simp: receipts_lossless_def paid_codecs_def split: if_splits)

lemma paid_reserved: "receipt_run paid_codecs (Some pending_catalog) Map.empty [(7, replicate 64 0x61)] [] {}"
proof -
  have "receipts_open paid_codecs (\<lambda>_ _. None) 0 0 [] None = (Inr (paid_catalog [] []), Map.empty)"
    by (simp add: receipts_open_def recover_receipts_def prune_locked_def paid_catalog_def)
  then have opened: "receipt_run paid_codecs (Some (paid_catalog [] [])) Map.empty [] [] {}" by (rule receipt_run.opened)
  have "receipt_reserve (\<lambda>_ _. None) 5 7 (replicate 64 0x61) (paid_catalog [] []) Map.empty = (Some (Inr Reserved), pending_catalog, Map.empty)"
    by (simp add: receipt_reserve_def Let_def paid_catalog_def pending_catalog_def prune_locked_def MAX_NATIVE_APPEND_RECEIPTS_def)
  from receipt_run.reserved [OF opened _ this] show ?thesis by (simp add: dropped_def paid_catalog_def)
qed

lemma paid_completed: "receipt_run paid_codecs (Some complete_catalog) [request_key 7 \<mapsto> [1]] [] [(7, replicate 64 0x61, \<lparr>ack_partitions = []\<rparr>)] {}"
proof -
  have "receipt_complete paid_codecs (\<lambda>_ _. None) 0 5 7 (replicate 64 0x61) \<lparr>ack_partitions = []\<rparr> pending_catalog Map.empty
      = (Inr (), complete_catalog, [request_key 7 \<mapsto> [1]])"
    unfolding receipt_complete_def Let_def paid_receipt_def [symmetric]
    by (simp add: persist_receipt_def paid_codecs_def replace_file_no_fault pending_catalog_def complete_catalog_def paid_catalog_def btree_remove_def)
       (simp add: paid_receipt_def)
  from receipt_run.completed [OF paid_reserved _ this] show ?thesis by simp
qed


theorem append_exclusive_witness:
  "receipt_reserve (\<lambda>_ _. None) 9 7 (replicate 64 0x61) pending_catalog Map.empty = (None, pending_catalog, Map.empty)"
  using append_exclusive [OF paid_lossless paid_reserved, of 7 "replicate 64 0x61" "\<lambda>_ _. None" 9 "replicate 64 0x61"] by simp

theorem receipt_window_witness:
  "prune_locked (\<lambda>_ _. None) 6 10 (rc_state complete_catalog) [request_key 7 \<mapsto> [1]] = (Inr (), \<lparr>rc_receipts = [], rc_completed_by_time = []\<rparr>, Map.empty)
   \<and> (\<exists>q. map_of (rc_receipts (rc_state complete_catalog)) (request_key 7) = Some (Complete q) \<and> (rp_recorded_at q < 6
       \<or> 10 \<le> card {(t, k'). (rp_recorded_at q, request_key 7) < (t, k')
           \<and> (\<exists>q'. map_of (rc_receipts (rc_state complete_catalog)) k' = Some (Complete q') \<and> rp_recorded_at q' = t)}))"
proof -
  have run: "prune_locked (\<lambda>_ _. None) 6 10 (rc_state complete_catalog) [request_key 7 \<mapsto> [1]] = (Inr (), \<lparr>rc_receipts = [], rc_completed_by_time = []\<rparr>, Map.empty)"
    by (simp add: prune_locked_def complete_catalog_def paid_catalog_def paid_receipt_def remove_file_def Let_def btree_remove_def)
  have "request_key 7 \<in> dropped (rc_state complete_catalog) \<lparr>rc_receipts = [], rc_completed_by_time = []\<rparr>"
    by (simp add: dropped_def complete_catalog_def paid_catalog_def)
  from bspec [OF conjunct1 [OF receipt_window [OF paid_lossless paid_completed run]] this] run show ?thesis by (rule conjI [rotated])
qed

theorem legacy_expired_blocks_witness:
  "receipts_open paid_codecs (\<lambda>_ _. None) 0 86400000000010 [] (Some []) = (Inl (receipt_io_error ''No such file or directory (os error 2)''), \<lambda>_. None)"
  by (rule legacy_expired_blocks [where rs = "[paid_receipt]" and r = paid_receipt])
     (simp_all add: paid_codecs_def paid_receipt_def request_key_faithful receipt_cutoff_def NATIVE_APPEND_RECEIPT_RETENTION_def)

end
