(* ===== verification/Dictionary.thy ===== *)
theory Dictionary
  imports Telemetry
begin

text \<open>
  Compression dictionaries (\<^verbatim>\<open>src/src/dictionary.rs\<close>): the catalog that publishes immutable dictionaries
  and assigns them to placements, and the byte-bounded cache of a stripe.

  A \<^verbatim>\<open>HashMap\<close> is an association list with distinct keys. The order in which it yields its entries is
  unspecified; it is the argument \<open>order\<close>, of which only \<open>mset (order xs) = mset xs\<close> is assumed.
\<close>

section \<open>The catalog\<close>

type_synonym compression_placement_id = u64

record catalog_snapshot =
  sn_generation :: u64
  sn_dictionaries :: "(dictionary_id \<times> bytes) list"
  sn_placement_dictionaries :: "(compression_placement_id \<times> dictionary_id) list"

definition snapshot_default :: catalog_snapshot where
  "snapshot_default = \<lparr>sn_generation = 0, sn_dictionaries = [], sn_placement_dictionaries = []\<rparr>"

definition dictionary_for :: "catalog_snapshot \<Rightarrow> compression_placement_id \<Rightarrow> (dictionary_id \<times> bytes) option" where
  "dictionary_for s placement = (case map_of (sn_placement_dictionaries s) placement of
       None \<Rightarrow> None
     | Some d \<Rightarrow> (case map_of (sn_dictionaries s) d of None \<Rightarrow> None | Some payload \<Rightarrow> Some (d, payload)))"

definition snapshot_dictionary :: "catalog_snapshot \<Rightarrow> dictionary_id \<Rightarrow> bytes option" where
  "snapshot_dictionary s = map_of (sn_dictionaries s)"

definition assignments :: "catalog_snapshot \<Rightarrow> (compression_placement_id \<times> dictionary_id) list" where
  "assignments s = sn_placement_dictionaries s"

definition snapshot_dictionaries :: "catalog_snapshot \<Rightarrow> (dictionary_id \<times> bytes) list" where
  "snapshot_dictionaries s = sn_dictionaries s"

record dictionary_publication =
  pb_generation :: u64
  pb_placement_id :: compression_placement_id
  pb_dictionary_id :: dictionary_id

record dictionary_catalog =
  dt_snapshot :: catalog_snapshot
  dt_poisoned :: bool

definition catalog_new :: dictionary_catalog where
  "catalog_new = \<lparr>dt_snapshot = snapshot_default, dt_poisoned = False\<rparr>"

definition catalog_snapshot_of :: "dictionary_catalog \<Rightarrow> telemetry_error + catalog_snapshot" where
  "catalog_snapshot_of c = (if dt_poisoned c then Inl DictionaryCatalogUnavailable else Inr (dt_snapshot c))"

definition hash_insert :: "'k \<Rightarrow> 'v \<Rightarrow> ('k \<times> 'v) list \<Rightarrow> ('k \<times> 'v) list" where
  "hash_insert k v xs = (k, v) # filter (\<lambda>(k', _). k' \<noteq> k) xs"

definition hash_remove :: "'k \<Rightarrow> ('k \<times> 'v) list \<Rightarrow> ('k \<times> 'v) list" where
  "hash_remove k xs = filter (\<lambda>(k', _). k' \<noteq> k) xs"

definition catalog_publish ::
  "compression_placement_id \<Rightarrow> dictionary_id \<Rightarrow> bytes \<Rightarrow> dictionary_catalog \<Rightarrow> (telemetry_error + dictionary_publication) \<times> dictionary_catalog" where
  "catalog_publish placement d payload c =
     (if payload = [] then (Inl EmptyDictionary, c)
      else if dt_poisoned c then (Inl DictionaryCatalogUnavailable, c)
      else let s = dt_snapshot c; existing = map_of (sn_dictionaries s) d in
        if existing \<noteq> None \<and> existing \<noteq> Some payload then (Inl (DictionaryIdConflict d), c)
        else let generation = sn_generation s + 1 in
          (Inr \<lparr>pb_generation = generation, pb_placement_id = placement, pb_dictionary_id = d\<rparr>,
           c\<lparr>dt_snapshot := \<lparr>sn_generation = generation,
               sn_dictionaries = (if existing = None then hash_insert d payload (sn_dictionaries s) else sn_dictionaries s),
               sn_placement_dictionaries = hash_insert placement d (sn_placement_dictionaries s)\<rparr>\<rparr>))"

section \<open>The cache\<close>

record cached_dictionary =
  ch_payload :: bytes
  ch_last_used :: u64

record dictionary_insert =
  di_dictionary_id :: dictionary_id
  di_evicted :: "dictionary_id list"

record dictionary_cache =
  dh_capacity_bytes :: nat
  dh_stored_bytes :: nat
  dh_clock :: u64
  dh_entries :: "(dictionary_id \<times> cached_dictionary) list"

definition cache_new :: "nat \<Rightarrow> telemetry_error + dictionary_cache" where
  "cache_new capacity =
     (if capacity = 0 then Inl (InvalidConfig ''dictionary_cache_bytes must be nonzero'')
      else Inr \<lparr>dh_capacity_bytes = capacity, dh_stored_bytes = 0, dh_clock = 0, dh_entries = []\<rparr>)"

definition cache_len :: "dictionary_cache \<Rightarrow> nat" where
  "cache_len c = length (dh_entries c)"

definition cache_is_empty :: "dictionary_cache \<Rightarrow> bool" where
  "cache_is_empty c \<longleftrightarrow> dh_entries c = []"

definition cache_contains :: "dictionary_id \<Rightarrow> dictionary_cache \<Rightarrow> bool" where
  "cache_contains d c \<longleftrightarrow> map_of (dh_entries c) d \<noteq> None"

text \<open>\<^verbatim>\<open>Iterator::min_by_key\<close> returns the first of the minimal elements.\<close>

fun min_by_key :: "('a \<Rightarrow> 'b::linorder) \<Rightarrow> 'a list \<Rightarrow> 'a option" where
  "min_by_key key [] = None"
| "min_by_key key (x # xs) = Some (foldl (\<lambda>best y. if key y < key best then y else best) x xs)"

lemma length_hash_remove: "map_of xs k = Some v \<Longrightarrow> length (hash_remove k xs) < length xs"
  unfolding hash_remove_def by (rule length_filter_less [where x = "(k, v)"]) (auto dest: map_of_SomeD)

text \<open>The loop of \<^verbatim>\<open>insert\<close>: None is the panic of its two \<^verbatim>\<open>expect\<close> calls.\<close>

function cache_evict ::
  "((dictionary_id \<times> cached_dictionary) list \<Rightarrow> (dictionary_id \<times> cached_dictionary) list) \<Rightarrow> dictionary_cache \<Rightarrow> dictionary_id list
   \<Rightarrow> (dictionary_cache \<times> dictionary_id list) option" where
  "cache_evict order c evicted =
     (if dh_stored_bytes c > dh_capacity_bytes c then
        (case min_by_key (\<lambda>(_, entry). ch_last_used entry) (order (dh_entries c)) of
           None \<Rightarrow> None
         | Some (candidate, _) \<Rightarrow>
             (case map_of (dh_entries c) candidate of
                None \<Rightarrow> None
              | Some entry \<Rightarrow> cache_evict order
                  (c\<lparr>dh_entries := hash_remove candidate (dh_entries c), dh_stored_bytes := dh_stored_bytes c - length (ch_payload entry)\<rparr>)
                  (evicted @ [candidate])))
      else Some (c, evicted))"
  by pat_completeness auto

termination
  by (relation "measure (\<lambda>(_, c, _). length (dh_entries c))") (auto simp: length_hash_remove)

declare cache_evict.simps [simp del]

definition cache_insert ::
  "((dictionary_id \<times> cached_dictionary) list \<Rightarrow> (dictionary_id \<times> cached_dictionary) list) \<Rightarrow> dictionary_id \<Rightarrow> bytes \<Rightarrow> dictionary_cache
   \<Rightarrow> ((telemetry_error + dictionary_insert) \<times> dictionary_cache) option" where
  "cache_insert order d payload c =
     (if payload = [] then Some (Inl EmptyDictionary, c)
      else if length payload > dh_capacity_bytes c then Some (Inl (DictionaryTooLarge (length payload) (dh_capacity_bytes c)), c)
      else let existing = map_of (dh_entries c) d in
        if (case existing of None \<Rightarrow> False | Some e \<Rightarrow> ch_payload e \<noteq> payload) then Some (Inl (DictionaryIdConflict d), c)
        else
          let c = (case existing of
                     None \<Rightarrow> c
                   | Some previous \<Rightarrow> c\<lparr>dh_entries := hash_remove d (dh_entries c),
                       dh_stored_bytes := dh_stored_bytes c - length (ch_payload previous)\<rparr>);
              c = c\<lparr>dh_clock := dh_clock c + 1, dh_stored_bytes := dh_stored_bytes c + length payload,
                dh_entries := hash_insert d \<lparr>ch_payload = payload, ch_last_used = dh_clock c + 1\<rparr> (dh_entries c)\<rparr> in
          (case cache_evict order c [] of
             None \<Rightarrow> None
           | Some (c, evicted) \<Rightarrow> Some (Inr \<lparr>di_dictionary_id = d, di_evicted = evicted\<rparr>, c)))"

definition cache_get :: "dictionary_id \<Rightarrow> dictionary_cache \<Rightarrow> bytes option \<times> dictionary_cache" where
  "cache_get d c =
     (let c = c\<lparr>dh_clock := dh_clock c + 1\<rparr> in
      case map_of (dh_entries c) d of
        None \<Rightarrow> (None, c)
      | Some entry \<Rightarrow> (Some (ch_payload entry), c\<lparr>dh_entries := hash_insert d (entry\<lparr>ch_last_used := dh_clock c\<rparr>) (dh_entries c)\<rparr>))"

section \<open>The cache as a queue\<close>

text \<open>
  The reference: the resident dictionaries from the least to the most recently used. An insertion or a
  successful lookup moves its dictionary to the end; the front leaves until the rest fits.
\<close>

definition lru_bytes :: "(dictionary_id \<times> bytes) list \<Rightarrow> nat" where
  "lru_bytes l = sum_list (map (length \<circ> snd) l)"

fun lru_evict :: "nat \<Rightarrow> (dictionary_id \<times> bytes) list \<Rightarrow> dictionary_id list \<times> (dictionary_id \<times> bytes) list" where
  "lru_evict capacity [] = ([], [])"
| "lru_evict capacity (x # xs) =
     (if lru_bytes (x # xs) > capacity then (case lru_evict capacity xs of (out, rest) \<Rightarrow> (fst x # out, rest)) else ([], x # xs))"

datatype cache_op = CacheInsert dictionary_id bytes | CacheGet dictionary_id
datatype cache_answer = Inserted "telemetry_error + dictionary_insert" | Got "bytes option"

fun lru_step :: "nat \<Rightarrow> cache_op \<Rightarrow> (dictionary_id \<times> bytes) list \<Rightarrow> cache_answer \<times> (dictionary_id \<times> bytes) list" where
  "lru_step capacity (CacheInsert d payload) l =
     (if payload = [] then (Inserted (Inl EmptyDictionary), l)
      else if length payload > capacity then (Inserted (Inl (DictionaryTooLarge (length payload) capacity)), l)
      else if map_of l d \<noteq> None \<and> map_of l d \<noteq> Some payload then (Inserted (Inl (DictionaryIdConflict d)), l)
      else case lru_evict capacity (hash_remove d l @ [(d, payload)]) of
        (out, rest) \<Rightarrow> (Inserted (Inr \<lparr>di_dictionary_id = d, di_evicted = out\<rparr>), rest))"
| "lru_step capacity (CacheGet d) l = (case map_of l d of
       None \<Rightarrow> (Got None, l)
     | Some payload \<Rightarrow> (Got (Some payload), hash_remove d l @ [(d, payload)]))"

fun lru_run :: "nat \<Rightarrow> cache_op list \<Rightarrow> (dictionary_id \<times> bytes) list \<Rightarrow> cache_answer list \<times> (dictionary_id \<times> bytes) list" where
  "lru_run capacity [] l = ([], l)"
| "lru_run capacity (op # ops) l =
     (case lru_step capacity op l of (a, l) \<Rightarrow> case lru_run capacity ops l of (as, l) \<Rightarrow> (a # as, l))"

fun cache_step ::
  "((dictionary_id \<times> cached_dictionary) list \<Rightarrow> (dictionary_id \<times> cached_dictionary) list) \<Rightarrow> cache_op \<Rightarrow> dictionary_cache
   \<Rightarrow> (cache_answer \<times> dictionary_cache) option" where
  "cache_step order (CacheInsert d payload) c = map_option (\<lambda>(r, c). (Inserted r, c)) (cache_insert order d payload c)"
| "cache_step order (CacheGet d) c = (case cache_get d c of (r, c) \<Rightarrow> Some (Got r, c))"

fun cache_run ::
  "((dictionary_id \<times> cached_dictionary) list \<Rightarrow> (dictionary_id \<times> cached_dictionary) list) \<Rightarrow> cache_op list \<Rightarrow> dictionary_cache
   \<Rightarrow> (cache_answer list \<times> dictionary_cache) option" where
  "cache_run order [] c = Some ([], c)"
| "cache_run order (op # ops) c =
     (case cache_step order op c of
        None \<Rightarrow> None
      | Some (a, c) \<Rightarrow> map_option (\<lambda>(as, c). (a # as, c)) (cache_run order ops c))"

text \<open>
  How the two correspond after \<open>n\<close> ticks of the clock: the entries sorted by their last use are the
  queue, and the counter is the sum of their sizes.
\<close>

definition queue_of :: "(dictionary_id \<times> cached_dictionary) list \<Rightarrow> (dictionary_id \<times> bytes) list" where
  "queue_of es = map (\<lambda>(d, e). (d, ch_payload e)) es"

definition lru_sorted :: "nat \<Rightarrow> (dictionary_id \<times> cached_dictionary) list \<Rightarrow> bool" where
  "lru_sorted n es \<longleftrightarrow> sorted_wrt (\<lambda>x y. ch_last_used (snd x) < ch_last_used (snd y)) es \<and> distinct (map fst es)
     \<and> (\<forall>x \<in> set es. unat (ch_last_used (snd x)) \<le> n)"

definition lru_rel :: "nat \<Rightarrow> nat \<Rightarrow> dictionary_cache \<Rightarrow> (dictionary_id \<times> bytes) list \<Rightarrow> bool" where
  "lru_rel capacity n c l \<longleftrightarrow> dh_capacity_bytes c = capacity \<and> dh_clock c = of_nat n \<and> dh_stored_bytes c = lru_bytes l
     \<and> (\<exists>es. mset (dh_entries c) = mset es \<and> lru_sorted n es \<and> l = queue_of es)"

lemma mset_map_of:
  assumes "mset xs = mset ys" "distinct (map fst ys)"
  shows "map_of xs = map_of ys"
proof -
  have "mset (map fst xs) = mset (map fst ys)" using assms(1) by simp
  then have "distinct (map fst xs)" using assms(2) by (rule mset_eq_imp_distinct_iff [THEN iffD2])
  from map_of_inject_set [OF this assms(2)] mset_eq_setD [OF assms(1)] show ?thesis by simp
qed

lemma min_by_key_unique:
  assumes "mset ys = mset (x # xs)" "\<forall>y \<in> set xs. key x < key y"
  shows "min_by_key key ys = Some x"
proof (cases ys)
  case (Cons z zs)
  let ?best = "foldl (\<lambda>best y. if key y < key best then y else best)"
  have best: "?best a bs \<in> set (a # bs) \<and> (\<forall>y \<in> set (a # bs). key (?best a bs) \<le> key y)" for a bs
  proof (induction bs arbitrary: a)
    case (Cons b bs)
    from Cons [of "if key b < key a then b else a"] show ?case by (auto split: if_splits)
  qed simp
  have eq: "set (z # zs) = set (x # xs)" using mset_eq_setD [OF assms(1)] unfolding Cons .
  have "?best z zs \<in> set (x # xs)" "key (?best z zs) \<le> key x" using best [of z zs] unfolding eq by simp_all
  with assms(2) Cons show ?thesis by auto
qed (use assms(1) in simp)

lemma mset_hash_remove: "mset xs = mset ys \<Longrightarrow> mset (hash_remove k xs) = mset (hash_remove k ys)"
  by (simp add: hash_remove_def)

lemma queue_of_simps [simp]:
  "queue_of [] = []" "queue_of (x # es) = (fst x, ch_payload (snd x)) # queue_of es" "queue_of (es @ fs) = queue_of es @ queue_of fs"
  "lru_bytes [] = 0" "lru_bytes (y # l) = length (snd y) + lru_bytes l" "lru_bytes (l @ m) = lru_bytes l + lru_bytes m"
  by (simp_all add: queue_of_def lru_bytes_def case_prod_unfold)

lemma map_of_queue: "map_of (queue_of es) d = map_option ch_payload (map_of es d)"
  by (induction es) auto

lemma queue_of_remove: "queue_of (hash_remove d es) = hash_remove d (queue_of es)"
  by (induction es) (auto simp: hash_remove_def)

lemma hash_remove_absent: "d \<notin> fst ` set es \<Longrightarrow> hash_remove d es = es"
  unfolding hash_remove_def by (rule filter_True) force

lemma cache_evict_lru:
  assumes "\<And>xs. mset (order xs) = mset xs" "mset (dh_entries c) = mset es" "lru_sorted n es" "dh_stored_bytes c = lru_bytes (queue_of es)"
  shows "\<exists>c' es'. cache_evict order c out = Some (c', out @ fst (lru_evict (dh_capacity_bytes c) (queue_of es)))
    \<and> dh_capacity_bytes c' = dh_capacity_bytes c \<and> dh_clock c' = dh_clock c \<and> mset (dh_entries c') = mset es' \<and> lru_sorted n es'
    \<and> queue_of es' = snd (lru_evict (dh_capacity_bytes c) (queue_of es)) \<and> dh_stored_bytes c' = lru_bytes (queue_of es')"
  using assms(2-4)
proof (induction es arbitrary: c out)
  case (Cons x es)
  show ?case
  proof (cases "dh_stored_bytes c > dh_capacity_bytes c")
    case True
    have s: "lru_sorted n es" "fst x \<notin> fst ` set es" "\<forall>y \<in> set es. ch_last_used (snd x) < ch_last_used (snd y)"
      using Cons.prems(2) by (auto simp: lru_sorted_def)
    have "mset (order (dh_entries c)) = mset (x # es)" using Cons.prems(1) assms(1) by simp
    then have m: "min_by_key (\<lambda>(_, entry). ch_last_used entry) (order (dh_entries c)) = Some x"
      by (rule min_by_key_unique) (use s(3) in \<open>auto simp: case_prod_unfold\<close>)
    have x: "map_of (dh_entries c) (fst x) = Some (snd x)"
      using mset_map_of [OF Cons.prems(1)] Cons.prems(2) by (simp add: lru_sorted_def)
    let ?c = "c\<lparr>dh_entries := hash_remove (fst x) (dh_entries c), dh_stored_bytes := dh_stored_bytes c - length (ch_payload (snd x))\<rparr>"
    have "hash_remove (fst x) (x # es) = es"
      using hash_remove_absent [OF s(2)] by (simp add: hash_remove_def case_prod_unfold)
    then have "mset (hash_remove (fst x) (dh_entries c)) = mset es"
      using mset_hash_remove [OF Cons.prems(1), of "fst x"] by (simp only:)
    then have IH: "\<exists>c' es'. cache_evict order ?c (out @ [fst x]) = Some (c', (out @ [fst x]) @ fst (lru_evict (dh_capacity_bytes c) (queue_of es)))
      \<and> dh_capacity_bytes c' = dh_capacity_bytes c \<and> dh_clock c' = dh_clock c \<and> mset (dh_entries c') = mset es' \<and> lru_sorted n es'
      \<and> queue_of es' = snd (lru_evict (dh_capacity_bytes c) (queue_of es)) \<and> dh_stored_bytes c' = lru_bytes (queue_of es')"
      using Cons.IH [of ?c "out @ [fst x]"] s(1) Cons.prems(3) by simp
    have "cache_evict order c out = cache_evict order ?c (out @ [fst x])"
      using True m x by (cases x) (simp add: cache_evict.simps [of order c out])
    with IH True Cons.prems(3) show ?thesis by (simp add: case_prod_unfold)
  next
    case False
    with Cons.prems show ?thesis by (subst cache_evict.simps) (auto intro!: exI [of _ "x # es"])
  qed
qed (subst cache_evict.simps, auto)

lemma lru_bytes_remove:
  "distinct (map fst es) \<Longrightarrow> map_of es d = Some e \<Longrightarrow>
     lru_bytes (queue_of es) = lru_bytes (queue_of (hash_remove d es)) + length (ch_payload e)"
proof (induction es)
  case (Cons x es)
  show ?case
  proof (cases "fst x = d")
    case True
    with Cons.prems have "hash_remove d es = es" by (intro hash_remove_absent) auto
    with True Cons.prems show ?thesis by (auto simp: hash_remove_def case_prod_unfold)
  next
    case False
    with Cons show ?thesis by (auto simp: hash_remove_def case_prod_unfold split: if_splits)
  qed
qed simp

lemma lru_sorted_touch:
  assumes "lru_sorted n es" "n + 1 < 2 ^ 64" "ch_last_used e = of_nat n + 1"
  shows "lru_sorted (n + 1) (hash_remove d es @ [(d, e)])"
proof -
  have u: "unat (ch_last_used e) = n + 1" using assms(2,3) by (simp add: unat_of_nat unat_word_ariths)
  have "sorted_wrt (\<lambda>x y. ch_last_used (snd x) < ch_last_used (snd y)) (hash_remove d es)" "distinct (map fst (hash_remove d es))"
    using assms(1) unfolding hash_remove_def lru_sorted_def by (auto intro: sorted_wrt_filter distinct_map_filter)
  moreover have "\<forall>x \<in> set (hash_remove d es). unat (ch_last_used (snd x)) \<le> n \<and> fst x \<noteq> d"
    using assms(1) by (auto simp: lru_sorted_def hash_remove_def)
  ultimately show ?thesis using u unfolding lru_sorted_def by (auto simp: sorted_wrt_append word_less_nat_alt)
qed

lemma mset_hash_insert: "mset (hash_insert d v xs) = mset (hash_remove d xs @ [(d, v)])"
  by (simp add: hash_insert_def hash_remove_def)

lemma hash_remove_idem [simp]: "hash_remove d (hash_remove d xs) = hash_remove d xs"
  by (simp add: hash_remove_def case_prod_unfold)

lemma cache_get_lru:
  assumes "lru_rel capacity n c l" "n + 1 < 2 ^ 64"
  shows "\<exists>c'. cache_step order (CacheGet d) c = Some (fst (lru_step capacity (CacheGet d) l), c')
    \<and> lru_rel capacity (n + 1) c' (snd (lru_step capacity (CacheGet d) l))"
proof -
  from assms(1) obtain es where es: "mset (dh_entries c) = mset es" "lru_sorted n es" "l = queue_of es"
    and c: "dh_capacity_bytes c = capacity" "dh_clock c = of_nat n" "dh_stored_bytes c = lru_bytes l"
    by (auto simp: lru_rel_def)
  have m: "map_of (dh_entries c) = map_of es" by (rule mset_map_of [OF es(1)]) (use es(2) in \<open>simp add: lru_sorted_def\<close>)
  show ?thesis
  proof (cases "map_of es d")
    case None
    have "lru_sorted (n + 1) es" using es(2) by (auto simp: lru_sorted_def)
    with None m es c show ?thesis by (auto simp: cache_get_def Let_def map_of_queue lru_rel_def)
  next
    case (Some e)
    let ?e = "e\<lparr>ch_last_used := of_nat n + 1\<rparr>"
    have "lru_sorted (n + 1) (hash_remove d es @ [(d, ?e)])" by (rule lru_sorted_touch [OF es(2) assms(2)]) simp
    moreover have "mset (hash_insert d ?e (dh_entries c)) = mset (hash_remove d es @ [(d, ?e)])"
      using mset_hash_remove [OF es(1), of d] by (simp add: mset_hash_insert)
    moreover have "lru_bytes (queue_of es) = lru_bytes (queue_of (hash_remove d es)) + length (ch_payload e)"
      using lru_bytes_remove [OF _ Some] es(2) by (simp add: lru_sorted_def)
    ultimately show ?thesis using Some m es c
      by (auto simp: cache_get_def Let_def map_of_queue lru_rel_def queue_of_remove
          intro!: exI [of _ "hash_remove d es @ [(d, ?e)]"])
  qed
qed

lemma cache_insert_lru:
  assumes order: "\<And>xs. mset (order xs) = mset xs" and rel: "lru_rel capacity n c l" "n + 1 < 2 ^ 64"
  shows "\<exists>c' m. m \<le> n + 1 \<and> cache_step order (CacheInsert d payload) c = Some (fst (lru_step capacity (CacheInsert d payload) l), c')
    \<and> lru_rel capacity m c' (snd (lru_step capacity (CacheInsert d payload) l))"
proof -
  from rel(1) obtain es where es: "mset (dh_entries c) = mset es" "lru_sorted n es" "l = queue_of es"
    and c: "dh_capacity_bytes c = capacity" "dh_clock c = of_nat n" "dh_stored_bytes c = lru_bytes l"
    by (auto simp: lru_rel_def)
  have m: "map_of (dh_entries c) = map_of es" by (rule mset_map_of [OF es(1)]) (use es(2) in \<open>simp add: lru_sorted_def\<close>)
  have conflict: "(case map_of es d of None \<Rightarrow> False | Some e \<Rightarrow> ch_payload e \<noteq> payload) \<longleftrightarrow> map_of l d \<noteq> None \<and> map_of l d \<noteq> Some payload"
    by (auto simp: es(3) map_of_queue split: option.splits)
  show ?thesis
  proof (cases "payload = [] \<or> length payload > capacity \<or> map_of l d \<noteq> None \<and> map_of l d \<noteq> Some payload")
    case True
    with rel(1) c m conflict show ?thesis by (auto simp: cache_insert_def Let_def intro!: exI [of _ n])
  next
    case False
    let ?e = "\<lparr>ch_payload = payload, ch_last_used = of_nat n + 1\<rparr>"
    define c1 where "c1 = (case map_of (dh_entries c) d of None \<Rightarrow> c
      | Some previous \<Rightarrow> c\<lparr>dh_entries := hash_remove d (dh_entries c), dh_stored_bytes := dh_stored_bytes c - length (ch_payload previous)\<rparr>)"
    define c2 where "c2 = c1\<lparr>dh_clock := dh_clock c1 + 1, dh_stored_bytes := dh_stored_bytes c1 + length payload,
      dh_entries := hash_insert d \<lparr>ch_payload = payload, ch_last_used = dh_clock c1 + 1\<rparr> (dh_entries c1)\<rparr>"
    have same: "dh_capacity_bytes c1 = capacity" "dh_clock c1 = of_nat n" by (simp_all add: c1_def c split: option.splits)
    have gone: "hash_remove d es = es" if "map_of es d = None" using that by (intro hash_remove_absent) (simp add: map_of_eq_None_iff)
    have c1: "mset (hash_remove d (dh_entries c1)) = mset (hash_remove d es)" "dh_stored_bytes c1 = lru_bytes (queue_of (hash_remove d es))"
      using mset_hash_remove [OF es(1), of d] lru_bytes_remove [of es d] es(2,3) c(3) gone
      by (auto simp: c1_def m lru_sorted_def split: option.splits)
    have "mset (dh_entries c2) = mset (hash_remove d es @ [(d, ?e)])" using c1(1) same by (simp add: c2_def mset_hash_insert)
    moreover have "lru_sorted (n + 1) (hash_remove d es @ [(d, ?e)])" by (rule lru_sorted_touch [OF es(2) rel(2)]) simp
    moreover have "dh_stored_bytes c2 = lru_bytes (queue_of (hash_remove d es @ [(d, ?e)]))" using c1(2) by (simp add: c2_def)
    ultimately obtain c' es' where ev: "cache_evict order c2 [] = Some (c', fst (lru_evict capacity (queue_of (hash_remove d es @ [(d, ?e)]))))"
        "dh_capacity_bytes c' = capacity" "dh_clock c' = of_nat n + 1" "mset (dh_entries c') = mset es'" "lru_sorted (n + 1) es'"
        "queue_of es' = snd (lru_evict capacity (queue_of (hash_remove d es @ [(d, ?e)])))" "dh_stored_bytes c' = lru_bytes (queue_of es')"
      using cache_evict_lru [OF order, of c2 "hash_remove d es @ [(d, ?e)]" "n + 1" "[]"] same by (auto simp: c2_def)
    have q: "queue_of (hash_remove d es @ [(d, ?e)]) = hash_remove d l @ [(d, payload)]" by (simp add: es(3) queue_of_remove)
    have "cache_insert order d payload c = Some (Inr \<lparr>di_dictionary_id = d, di_evicted = fst (lru_evict capacity (hash_remove d l @ [(d, payload)]))\<rparr>, c')"
      using False ev(1) conflict by (simp add: cache_insert_def Let_def c m q es(3) queue_of_remove flip: c1_def [unfolded m] c2_def)
    with False ev(2-7) q show ?thesis by (auto simp: lru_rel_def case_prod_unfold intro!: exI [of _ "n + 1"] exI [of _ es'])
  qed
qed

lemma cache_run_lru:
  assumes order: "\<And>xs. mset (order xs) = mset xs" and rel: "lru_rel capacity n c l" "n + length ops < 2 ^ 64"
  shows "\<exists>c' m. cache_run order ops c = Some (fst (lru_run capacity ops l), c') \<and> lru_rel capacity m c' (snd (lru_run capacity ops l))"
  using rel
proof (induction ops arbitrary: n c l)
  case (Cons op ops)
  have "\<exists>c' m. m \<le> n + 1 \<and> cache_step order op c = Some (fst (lru_step capacity op l), c') \<and> lru_rel capacity m c' (snd (lru_step capacity op l))"
  proof (cases op)
    case (CacheInsert d payload)
    then show ?thesis using cache_insert_lru [OF order Cons.prems(1), of d payload] Cons.prems(2) by simp
  next
    case (CacheGet d)
    have "\<exists>c'. cache_step order (CacheGet d) c = Some (fst (lru_step capacity (CacheGet d) l), c')
      \<and> lru_rel capacity (n + 1) c' (snd (lru_step capacity (CacheGet d) l))" 
      using Cons.prems(2) by (intro cache_get_lru [OF Cons.prems(1)]) simp
    then show ?thesis unfolding CacheGet by blast
  qed
  then obtain c1 m where s: "m \<le> n + 1" "cache_step order op c = Some (fst (lru_step capacity op l), c1)"
    "lru_rel capacity m c1 (snd (lru_step capacity op l))" by blast
  from Cons.IH [OF s(3)] s(1) Cons.prems(2) s(2) show ?case by (fastforce simp: case_prod_unfold)
qed auto

lemma lru_evict_bytes: "lru_bytes (snd (lru_evict capacity l)) \<le> capacity"
  by (induction l) (auto simp: case_prod_unfold)

lemma lru_remove_bytes: "map_of l d = Some p \<Longrightarrow> lru_bytes (hash_remove d l) + length p \<le> lru_bytes l"
proof (induction l)
  case (Cons x l)
  have "lru_bytes (hash_remove d l) \<le> lru_bytes l" by (induction l) (auto simp: hash_remove_def)
  with Cons show ?case by (cases x) (auto simp: hash_remove_def split: if_splits)
qed simp

lemma lru_run_bytes: "lru_bytes l \<le> capacity \<Longrightarrow> lru_bytes (snd (lru_run capacity ops l)) \<le> capacity"
proof (induction ops arbitrary: l)
  case (Cons op ops)
  have "lru_bytes (snd (lru_step capacity op l)) \<le> capacity"
  proof (cases op)
    case (CacheInsert d payload)
    with Cons.prems lru_evict_bytes [of capacity "hash_remove d l @ [(d, payload)]"] show ?thesis by (auto simp: case_prod_unfold)
  next
    case (CacheGet d)
    with Cons.prems lru_remove_bytes [of l d] show ?thesis by (fastforce split: option.splits)
  qed
  with Cons.IH show ?case by (simp add: case_prod_unfold)
qed simp

section \<open>Publication histories\<close>

type_synonym publish_attempt = "compression_placement_id \<times> dictionary_id \<times> bytes"

fun publish_all :: "publish_attempt list \<Rightarrow> dictionary_catalog \<Rightarrow> (telemetry_error + dictionary_publication) list \<times> dictionary_catalog" where
  "publish_all [] c = ([], c)"
| "publish_all ((p, d, payload) # ps) c =
     (case catalog_publish p d payload c of (r, c) \<Rightarrow> case publish_all ps c of (rs, c) \<Rightarrow> (r # rs, c))"

definition accepted :: "publish_attempt list \<Rightarrow> (telemetry_error + dictionary_publication) list \<Rightarrow> publish_attempt list" where
  "accepted ps rs = map fst (filter (\<lambda>(_, r). is_ok r) (zip ps rs))"

definition catalog_holds :: "publish_attempt list \<Rightarrow> dictionary_catalog \<Rightarrow> bool" where
  "catalog_holds log c \<longleftrightarrow> \<not> dt_poisoned c \<and> sn_generation (dt_snapshot c) = of_nat (length log)
     \<and> (\<forall>(p, d, payload) \<in> set log. map_of (sn_dictionaries (dt_snapshot c)) d = Some payload)
     \<and> (\<forall>p. map_of (sn_placement_dictionaries (dt_snapshot c)) p = map_option fst (map_of (rev log) p))"

lemma map_of_hash_insert: "map_of (hash_insert k v xs) k' = (if k' = k then Some v else map_of xs k')"
proof -
  have "k' \<noteq> k \<Longrightarrow> map_of (filter (\<lambda>(k', _). k' \<noteq> k) xs) k' = map_of xs k'" by (induction xs) auto
  then show ?thesis by (simp add: hash_insert_def)
qed

lemma catalog_publish_holds:
  assumes "catalog_holds log c" "catalog_publish p d payload c = (r, c')"
  shows "catalog_holds (log @ (if is_ok r then [(p, d, payload)] else [])) c'"
proof (cases "is_ok r")
  case False
  then have "c' = c" using assms(2) by (auto simp: catalog_publish_def Let_def split: if_splits)
  with False assms(1) show ?thesis by simp
next
  case True
  let ?s = "dt_snapshot c" and ?s' = "dt_snapshot c'"
  from True assms(2) have old: "map_of (sn_dictionaries ?s) d = None \<or> map_of (sn_dictionaries ?s) d = Some payload"
    and new: "sn_generation ?s' = sn_generation ?s + 1" "dt_poisoned c' = dt_poisoned c"
      "sn_dictionaries ?s' = (if map_of (sn_dictionaries ?s) d = None then hash_insert d payload (sn_dictionaries ?s) else sn_dictionaries ?s)"
      "sn_placement_dictionaries ?s' = hash_insert p d (sn_placement_dictionaries ?s)"
    by (auto simp: catalog_publish_def Let_def split: if_splits)
  have "map_of (sn_dictionaries ?s') d' = Some x" if "(q, d', x) \<in> set (log @ [(p, d, payload)])" for q d' x
    using that old assms(1) by (auto simp: new(3) catalog_holds_def map_of_hash_insert)
  moreover have "map_of (sn_placement_dictionaries ?s') q = map_option fst (map_of (rev (log @ [(p, d, payload)])) q)" for q
    using assms(1) by (simp add: new(4) catalog_holds_def map_of_hash_insert)
  ultimately show ?thesis using True assms(1) new(1,2) by (auto simp: catalog_holds_def)
qed

lemma publish_all_holds:
  "catalog_holds log c \<Longrightarrow> publish_all ps c = (rs, c') \<Longrightarrow> catalog_holds (log @ accepted ps rs) c'"
proof (induction ps arbitrary: log c rs)
  case (Cons a ps)
  obtain p d payload where a: "a = (p, d, payload)" by (cases a)
  obtain r c1 rs1 where r: "catalog_publish p d payload c = (r, c1)" "publish_all ps c1 = (rs1, c')" "rs = r # rs1"
    using Cons.prems(2) by (auto simp: a split: prod.splits)
  from Cons.IH [OF catalog_publish_holds [OF Cons.prems(1) r(1)] r(2)] show ?case
    by (auto simp: accepted_def a r(3))
qed (simp add: accepted_def)

section \<open>Guarantees\<close>

text \<open>
  C20: the dictionary cache is a least-recently-used cache. Whatever order the hash map yields its entries
  in, every sequence of fewer than \<open>2 ^ 64\<close> insertions and lookups gives the answers of the reference
  queue, errors and evictions included, without a panic, and the resident bytes never exceed the capacity.
\<close>

theorem cache_is_lru:
  assumes "\<And>xs. mset (order xs) = mset xs" "cache_new capacity = Inr c" "length ops < 2 ^ 64"
  shows "\<exists>c'. cache_run order ops c = Some (fst (lru_run capacity ops []), c') \<and> dh_stored_bytes c' \<le> capacity
    \<and> dh_stored_bytes c' = sum_list (map (\<lambda>(_, e). length (ch_payload e)) (dh_entries c'))"
proof -
  have "lru_rel capacity 0 c []"
    using assms(2) by (auto simp: cache_new_def lru_rel_def lru_sorted_def split: if_splits intro!: exI [of _ "[]"])
  then obtain c' m where run: "cache_run order ops c = Some (fst (lru_run capacity ops []), c')"
    and rel: "lru_rel capacity m c' (snd (lru_run capacity ops []))"
    using cache_run_lru [OF assms(1), of capacity 0 c "[]" ops] assms(3) by auto
  from rel obtain es where es: "mset (dh_entries c') = mset es" "dh_stored_bytes c' = lru_bytes (queue_of es)"
    by (auto simp: lru_rel_def)
  have "lru_bytes (queue_of es) = sum_list (map (\<lambda>(_, e). length (ch_payload e)) es)"
    by (induction es) (auto simp: case_prod_unfold)
  also have "\<dots> = sum_list (map (\<lambda>(_, e). length (ch_payload e)) (dh_entries c'))"
    by (simp only: sum_mset_sum_list [symmetric] mset_map es(1))
  finally have "dh_stored_bytes c' = \<dots>" using es(2) by simp
  moreover have "dh_stored_bytes c' \<le> capacity" using rel lru_run_bytes [of "[]" capacity ops] by (simp add: lru_rel_def)
  ultimately show ?thesis using run by blast
qed

text \<open>
  C21: published dictionaries are immutable. After any sequence of publications, successful or refused, a
  placement has the dictionary of its latest accepted publication with that publication's own bytes,
  every accepted identifier still means the bytes it was published with, and the generation counts the
  accepted publications.
\<close>

theorem catalog_immutable:
  assumes "publish_all ps catalog_new = (rs, c)"
  shows "(\<forall>p. dictionary_for (dt_snapshot c) p = map_of (rev (accepted ps rs)) p)
    \<and> (\<forall>(p, d, payload) \<in> set (accepted ps rs). snapshot_dictionary (dt_snapshot c) d = Some payload)
    \<and> sn_generation (dt_snapshot c) = of_nat (length (accepted ps rs))"
proof -
  have "catalog_holds [] catalog_new" by (simp add: catalog_holds_def catalog_new_def snapshot_default_def)
  from publish_all_holds [OF this assms] have h: "catalog_holds (accepted ps rs) c" by simp
  have "dictionary_for (dt_snapshot c) p = map_of (rev (accepted ps rs)) p" for p
  proof (cases "map_of (rev (accepted ps rs)) p")
    case (Some x)
    then have "(p, x) \<in> set (accepted ps rs)" by (auto dest: map_of_SomeD)
    with h Some show ?thesis by (cases x) (auto simp: catalog_holds_def dictionary_for_def)
  qed (use h in \<open>simp add: catalog_holds_def dictionary_for_def\<close>)
  with h show ?thesis by (simp add: catalog_holds_def snapshot_dictionary_def)
qed

theorem cache_is_lru_witness:
  "\<exists>c'. cache_run rev [CacheInsert 1 [1, 1], CacheInsert 2 [2], CacheGet 1, CacheInsert 3 [3]]
       \<lparr>dh_capacity_bytes = 3, dh_stored_bytes = 0, dh_clock = 0, dh_entries = []\<rparr>
     = Some ([Inserted (Inr \<lparr>di_dictionary_id = 1, di_evicted = []\<rparr>), Inserted (Inr \<lparr>di_dictionary_id = 2, di_evicted = []\<rparr>),
         Got (Some [1, 1]), Inserted (Inr \<lparr>di_dictionary_id = 3, di_evicted = [2]\<rparr>)], c') \<and> dh_stored_bytes c' \<le> 3"
  using cache_is_lru [of rev 3 "\<lparr>dh_capacity_bytes = 3, dh_stored_bytes = 0, dh_clock = 0, dh_entries = []\<rparr>"
      "[CacheInsert 1 [1, 1], CacheInsert 2 [2], CacheGet 1, CacheInsert 3 [3]]"]
  by (auto simp: cache_new_def hash_remove_def lru_bytes_def)

theorem catalog_immutable_witness:
  "\<exists>rs c. publish_all [(7, 1, [9]), (7, 1, [8]), (7, 2, [5])] catalog_new = (rs, c) \<and> dictionary_for (dt_snapshot c) 7 = Some (2, [5])
     \<and> snapshot_dictionary (dt_snapshot c) 1 = Some [9]"
proof -
  obtain rs c where r: "publish_all [(7, 1, [9]), (7, 1, [8]), (7, 2, [5])] catalog_new = (rs, c)" by fastforce
  then have "accepted [(7, 1, [9]), (7, 1, [8]), (7, 2, [5])] rs = [(7, 1, [9]), (7, 2, [5])]"
    by (auto simp: catalog_new_def snapshot_default_def catalog_publish_def hash_insert_def accepted_def)
  with catalog_immutable [OF r] r show ?thesis by simp
qed

end
