(* ===== verification/Spec2Isabelle.thy ===== *)
theory Spec2Isabelle
  imports
    Prelude Telemetry Envelope NativeWire NativeBatch NativeQuery LogQueryResult NativeLogPage NativeClient
    XorChunk SinkJournal UsageLedger LedgerRecovery LedgerPersist LedgerAccounting LedgerSession LedgerGuarantees
    AtomicFile DeleteCatalog Offload OffloadGuarantees AppendReceipts ReceiptGuarantees Dictionary
begin

text \<open>
  A verification library of shard-telemetry, a store for logs, traces and metrics written in Rust
  (\<^verbatim>\<open>src/src/\<close>). Producers encode signals into checksummed envelopes and send them over the native
  protocol; a server appends them to a log engine, acknowledges them and indexes them in stripes; a
  node can forward its log to an upstream server. The library covers the codecs of that path, the
  client, the files that must survive a crash, and the bookkeeping that makes an append repeatable.

  \<^bold>\<open>Conventions.\<close> A fallible function returns a sum whose left side is the source's error, so each
  \<^verbatim>\<open>?\<close> and early return is a branch. Fixed-width integers are words and wrap where the source wraps;
  \<^verbatim>\<open>usize\<close> is a natural number. Rust strings are byte lists, BTreeMaps are strictly sorted association lists,
  and HashMaps are association lists whose iteration order is an argument. A file is a byte list and
  every I/O call can fail: a fault function names the calls that do. External code (BLAKE3,
  MessagePack, JSON, Zstandard, CRC-32C, base64, the calendar, the storage engine) is an argument;
  where a theorem needs something of it, the documented property is a hypothesis, and the witness
  beside the theorem instantiates it.

  \<^bold>\<open>Foundations.\<close> Prelude has the result type, the byte codecs, UTF-8 validation, sorted maps and the
  locales \<^verbatim>\<open>stream_reader\<close>, \<^verbatim>\<open>wire_reader\<close>, \<^verbatim>\<open>wire_codec\<close> and \<^verbatim>\<open>wire_pair\<close>: a decoder that returns what the
  encoder wrote and leaves the rest of the input, and how such decoders combine. Every binary format
  below interprets them on its own fields. Telemetry models \<^verbatim>\<open>error.rs\<close> and \<^verbatim>\<open>telemetry/\<close>: values,
  attributes, contexts, their canonical bytes and identities, configuration and routing; two
  contexts have the same identity bytes exactly when they agree up to the order of attributes.

  \<^bold>\<open>Native protocol.\<close> Envelope is \<^verbatim>\<open>envelope.rs\<close>: decoding inverts encoding, accepts nothing else, and a
  modified envelope needs a digest collision. NativeWire, NativeBatch, NativeQuery and LogQueryResult
  are \<^verbatim>\<open>native_protocol.rs\<close> and \<^verbatim>\<open>native_protocol/\<close>: frames, append batches and acknowledgements, queries
  and results, with round trips, the exact byte ranges of borrowed views, and the equality of the two
  result encoders. NativeLogPage is \<^verbatim>\<open>native_log_page.rs\<close>: a cursor is accepted only with the
  query it was issued for. NativeClient is \<^verbatim>\<open>native_client.rs\<close>: the connections in the pool
  stay in step with the server whatever fails, and an append that succeeds was delivered and
  acknowledged.

  \<^bold>\<open>Files that survive crashes.\<close> SinkJournal is \<^verbatim>\<open>sink_journal.rs\<close>. Its locale \<^verbatim>\<open>crash_log\<close> states what a log
  of checksummed frames gives after a crash at any byte, and is interpreted on the journal's frames;
  the theorems say which transactions are recovered, and what a failed synchronisation leaves.
  UsageLedger and the five Ledger theories are \<^verbatim>\<open>usage_ledger.rs\<close> and \<^verbatim>\<open>usage_ledger/\<close>: two slots written
  alternately. LedgerRecovery and LedgerPersist treat the file, LedgerAccounting the counters,
  LedgerSession the reachable states, LedgerGuarantees the theorems: a crash leaves the old or the new
  state, counts are exact, and the window of months keeps the newest. AtomicFile is the replacement of a small
  file by renaming, with the locale \<^verbatim>\<open>file_catalog\<close> for a state persisted that way; DeleteCatalog
  (\<^verbatim>\<open>deletion.rs\<close>) and the offload journal interpret it.

  \<^bold>\<open>Forwarding and repeatable appends.\<close> Offload and OffloadGuarantees are \<^verbatim>\<open>offload.rs\<close> and \<^verbatim>\<open>offload/\<close>: no
  checkpoint passes a record that was neither acknowledged upstream nor left out by the metric filter;
  a round over all partitions refines a simple specification; retry identifiers tell records
  apart; the background loop stops. AppendReceipts and ReceiptGuarantees are the receipt catalog of
  \<^verbatim>\<open>telemetry_store.rs\<close> and the appends of \<^verbatim>\<open>telemetry_store/append.rs\<close> and \<^verbatim>\<open>append_helpers.rs\<close>: over all
  interleavings of requests, crashes and restarts an acknowledged append is not repeated while its
  receipt is in the window. Together they make forwarding safe to retry.

  \<^bold>\<open>Compression.\<close> XorChunk is \<^verbatim>\<open>prometheus_xor.rs\<close> at bit level, with the decoder of its tests. Dictionary is
  \<^verbatim>\<open>dictionary.rs\<close>: published dictionaries never change, and the cache behaves as a least-recently-used queue.

  \<^bold>\<open>Termination.\<close> No definition uses fuel. Loops are structural recursions or have a measure: the bytes
  left (\<^verbatim>\<open>recover_frames\<close>), the value left (\<^verbatim>\<open>write_uvarint\<close>), the resident entries (\<^verbatim>\<open>cache_evict\<close>), the
  requests in flight (\<^verbatim>\<open>drain_in_flight\<close>). Loops that end only when told to, such as the offloader's, are
  step relations or recursions over the list of their rounds.

  \<^bold>\<open>Not modelled.\<close> The stripes, structural blocks, indexes and the object tier (large parts that rest on
  Zstandard and on object storage), query languages (floating point and external parsers), the HTTP,
  gRPC and OTLP interfaces, the native server's tasks, analytics, start-up and the programs. Of the
  native client the concurrent \<^verbatim>\<open>append_many\<close> is left out. Waiting times and metrics counters for
  operators are not part of any state.
\<close>

end
